(* ===== verification/Prelude.thy ===== *)
theory Prelude
  imports Complex_Main "HOL-Library.Word"
begin

text \<open>
  What every component shares: the machine integers of the Rust code and its
  saturating and checked operations, the program type \<open>prog\<close> (a computation over a state
  that may fail and keeps the state it had reached when it failed, as persistent
  storage does), loops over vectors, and the rules by which an operation is shown to
  respect a relation between the state before and the state after it.
\<close>

named_theorems prog_simps \<open>how the combinators of programs run\<close>
named_theorems keeps_intros \<open>operations that keep a relation between states\<close>


section \<open>Machine integers\<close>

type_synonym u32 = "32 word"
type_synonym u64 = "64 word"

text \<open>The block heights of \<open>bitvmx_bitcoin_rpc\<close> are \<open>u32\<close>; \<open>usize\<close> is 64 bits wide.\<close>

type_synonym block_height = u32

definition saturating_sub :: "'a::len word \<Rightarrow> 'a word \<Rightarrow> 'a word" where
  "saturating_sub a b = (if a < b then 0 else a - b)"

definition saturating_add :: "'a::len word \<Rightarrow> 'a word \<Rightarrow> 'a word" where
  "saturating_add a b = (if unat a + unat b < 2 ^ LENGTH('a) then a + b else - 1)"

definition saturating_mul :: "'a::len word \<Rightarrow> 'a word \<Rightarrow> 'a word" where
  "saturating_mul a b = (if unat a * unat b < 2 ^ LENGTH('a) then a * b else - 1)"

definition checked_div :: "'a::len word \<Rightarrow> 'a word \<Rightarrow> 'a word option" where
  "checked_div a b = (if b = 0 then None else Some (a div b))"

definition unwrap_or :: "'a option \<Rightarrow> 'a \<Rightarrow> 'a" where
  "unwrap_or x d = (case x of None \<Rightarrow> d | Some y \<Rightarrow> y)"

lemma unwrap_or_simps [simp]:
  "unwrap_or None d = d" "unwrap_or (Some y) d = y"
  by (simp_all add: unwrap_or_def)

lemma unat_saturating_sub: "unat (saturating_sub a b) = unat a - unat b"
  by (auto simp: saturating_sub_def unat_sub not_less word_less_nat_alt word_le_nat_alt)

lemma unat_minus_one_eq: "unat (- 1 :: 'a::len word) = 2 ^ LENGTH('a) - 1"
  by (simp add: unsigned_minus_1_eq_mask mask_eq_exp_minus_1)

lemma unat_saturating_add:
  fixes a b :: "'a::len word"
  shows "unat (saturating_add a b) = min (unat a + unat b) (2 ^ LENGTH('a) - 1)"
  by (auto simp: saturating_add_def unat_minus_one_eq unat_word_ariths)

lemma unat_saturating_mul:
  fixes a b :: "'a::len word"
  shows "unat (saturating_mul a b) = min (unat a * unat b) (2 ^ LENGTH('a) - 1)"
  by (auto simp: saturating_mul_def unat_minus_one_eq unat_word_ariths)

lemma unat_add_exact:
  fixes a b :: "'a::len word"
  shows "unat a + unat b < 2 ^ LENGTH('a) \<Longrightarrow> unat (a + b) = unat a + unat b"
  by (simp add: unat_word_ariths)

lemma unat_mult_exact:
  fixes a b :: "'a::len word"
  shows "unat a * unat b < 2 ^ LENGTH('a) \<Longrightarrow> unat (a * b) = unat a * unat b"
  by (simp add: unat_word_ariths)


section \<open>Vectors\<close>

text \<open>Pushing onto a vector that must not hold an element twice, and dropping an element.\<close>

definition push_new :: "'a \<Rightarrow> 'a list \<Rightarrow> 'a list" where
  "push_new x xs = (if x \<in> set xs then xs else xs @ [x])"

definition retain_ne :: "'a \<Rightarrow> 'a list \<Rightarrow> 'a list" where
  "retain_ne x xs = filter (\<lambda>y. y \<noteq> x) xs"

lemma set_push_new [simp]: "set (push_new x xs) = insert x (set xs)"
  by (auto simp: push_new_def)

lemma distinct_push_new [simp]: "distinct (push_new x xs) = distinct xs"
  by (auto simp: push_new_def)

lemma set_retain_ne [simp]: "set (retain_ne x xs) = set xs - {x}"
  by (auto simp: retain_ne_def)

lemma distinct_retain_ne [simp]: "distinct xs \<Longrightarrow> distinct (retain_ne x xs)"
  by (simp add: retain_ne_def)

lemma retain_ne_absent [simp]: "x \<notin> set xs \<Longrightarrow> retain_ne x xs = xs"
  by (auto simp: retain_ne_def intro!: filter_True)

lemma retain_ne_push_new: "x \<notin> set xs \<Longrightarrow> retain_ne x (push_new x xs) = xs"
  by (simp add: push_new_def) (auto simp: retain_ne_def intro!: filter_True)


text \<open>The values a map has at the elements of a list.\<close>

lemma mem_map_filter: "y \<in> set (List.map_filter f xs) \<longleftrightarrow> (\<exists>x \<in> set xs. f x = Some y)"
  by (induction xs) (auto simp: List.map_filter_simps split: option.split)

lemma map_filter_cong: "(\<And>x. x \<in> set xs \<Longrightarrow> f x = g x) \<Longrightarrow> List.map_filter f xs = List.map_filter g xs"
  by (induction xs) (auto simp: List.map_filter_simps split: option.split)

lemma map_filter_append: "List.map_filter f (xs @ ys) = List.map_filter f xs @ List.map_filter f ys"
  by (simp add: List.map_filter_def)

lemma length_filter_less_at:
  "(\<And>x. P x \<Longrightarrow> Q x) \<Longrightarrow> z \<in> set xs \<Longrightarrow> Q z \<Longrightarrow> \<not> P z \<Longrightarrow> length (filter P xs) < length (filter Q xs)"
proof (induction xs)
  case (Cons x xs)
  have le: "length (filter P xs) \<le> length (filter Q xs)"
    using Cons.prems(1) by (induction xs) auto
  show ?case using Cons le by auto
qed simp


section \<open>Programs\<close>

text \<open>
  A method of the code that takes \<open>&self\<close> over shared storage and returns a \<open>Result\<close> is
  a \<open>prog\<close>: it maps the state to a failure or a value, and to the state it leaves. The
  state is kept on failure, because what was written before an early return stays
  written. The failures \<open>'f\<close> are fixed by the theory of the types.
\<close>

type_synonym ('s, 'f, 'a) prog = "'s \<Rightarrow> ('f + 'a) \<times> 's"

definition pret :: "'a \<Rightarrow> ('s, 'f, 'a) prog" where
  "pret x = (\<lambda>s. (Inr x, s))"

definition pthrow :: "'f \<Rightarrow> ('s, 'f, 'a) prog" where
  "pthrow e = (\<lambda>s. (Inl e, s))"

text \<open>The \<open>?\<close> of Rust: stop at a failure, go on with the value otherwise.\<close>

definition pbind :: "('s, 'f, 'a) prog \<Rightarrow> ('a \<Rightarrow> ('s, 'f, 'b) prog) \<Rightarrow> ('s, 'f, 'b) prog" where
  "pbind m f = (\<lambda>s. case m s of (Inl e, s') \<Rightarrow> (Inl e, s') | (Inr x, s') \<Rightarrow> f x s')"

definition pseq :: "('s, 'f, 'a) prog \<Rightarrow> ('s, 'f, 'b) prog \<Rightarrow> ('s, 'f, 'b) prog" where
  "pseq m n = pbind m (\<lambda>_. n)"

definition pget :: "('s \<Rightarrow> 'a) \<Rightarrow> ('s, 'f, 'a) prog" where
  "pget f = (\<lambda>s. (Inr (f s), s))"

definition pmodify :: "('s \<Rightarrow> 's) \<Rightarrow> ('s, 'f, unit) prog" where
  "pmodify f = (\<lambda>s. (Inr (), f s))"

text \<open>A step that reads and writes the state and returns a value, without failing.\<close>

definition pstep :: "('s \<Rightarrow> 'a \<times> 's) \<Rightarrow> ('s, 'f, 'a) prog" where
  "pstep f = (\<lambda>s. (Inr (fst (f s)), snd (f s)))"

text \<open>A \<open>Result\<close> computed without touching the state.\<close>

definition plift :: "'f + 'a \<Rightarrow> ('s, 'f, 'a) prog" where
  "plift r = (\<lambda>s. (r, s))"

text \<open>
  \<open>map_err\<close>, and a \<open>match\<close> on the \<open>Result\<close> of a call, which lets the caller go on after
  a failure.
\<close>

definition pmap_err :: "('f \<Rightarrow> 'g) \<Rightarrow> ('s, 'f, 'a) prog \<Rightarrow> ('s, 'g, 'a) prog" where
  "pmap_err h m = (\<lambda>s. case m s of (Inl e, s') \<Rightarrow> (Inl (h e), s') | (Inr x, s') \<Rightarrow> (Inr x, s'))"

definition ptry :: "('s, 'f, 'a) prog \<Rightarrow> ('s, 'g, 'f + 'a) prog" where
  "ptry m = (\<lambda>s. case m s of (r, s') \<Rightarrow> (Inr r, s'))"

text \<open>A \<open>for\<close> loop over a vector whose body may return early with a failure.\<close>

primrec pfor :: "'a list \<Rightarrow> ('a \<Rightarrow> ('s, 'f, unit) prog) \<Rightarrow> ('s, 'f, unit) prog" where
  "pfor [] f = pret ()"
| "pfor (x # xs) f = pseq (f x) (pfor xs f)"

text \<open>A program over one part of a larger state.\<close>

definition pzoom :: "('w \<Rightarrow> 's) \<Rightarrow> ('s \<Rightarrow> 'w \<Rightarrow> 'w) \<Rightarrow> ('s, 'f, 'a) prog \<Rightarrow> ('w, 'f, 'a) prog" where
  "pzoom get put m = (\<lambda>w. case m (get w) of (r, s) \<Rightarrow> (r, put s w))"

lemma pret_run [prog_simps]: "pret x s = (Inr x, s)"
  by (simp add: pret_def)

lemma pthrow_run [prog_simps]: "pthrow e s = (Inl e, s)"
  by (simp add: pthrow_def)

lemma pbind_run [prog_simps]:
  "pbind m f s = (case m s of (Inl e, s') \<Rightarrow> (Inl e, s') | (Inr x, s') \<Rightarrow> f x s')"
  by (simp add: pbind_def)

lemma pseq_run [prog_simps]:
  "pseq m n s = (case m s of (Inl e, s') \<Rightarrow> (Inl e, s') | (Inr x, s') \<Rightarrow> n s')"
  by (simp add: pseq_def pbind_def)

lemma pget_run [prog_simps]: "pget f s = (Inr (f s), s)"
  by (simp add: pget_def)

lemma pmodify_run [prog_simps]: "pmodify f s = (Inr (), f s)"
  by (simp add: pmodify_def)

lemma pstep_run [prog_simps]: "pstep f s = (Inr (fst (f s)), snd (f s))"
  by (simp add: pstep_def)

lemma plift_run [prog_simps]: "plift r s = (r, s)"
  by (simp add: plift_def)

lemma pmap_err_run [prog_simps]:
  "pmap_err h m s = (case m s of (Inl e, s') \<Rightarrow> (Inl (h e), s') | (Inr x, s') \<Rightarrow> (Inr x, s'))"
  by (simp add: pmap_err_def)

lemma ptry_run [prog_simps]: "ptry m s = (Inr (fst (m s)), snd (m s))"
  by (simp add: ptry_def split: prod.split)

lemma pzoom_run [prog_simps]: "pzoom get put m w = (fst (m (get w)), put (snd (m (get w))) w)"
  by (simp add: pzoom_def split: prod.splits)


section \<open>Relations an operation keeps\<close>

text \<open>
  \<open>keeps R m\<close>: whatever \<open>m\<close> returns, also when it fails, the state before and the
  state after are related by \<open>R\<close>. An invariant \<open>I\<close> is the relation that says that \<open>I\<close>
  is not lost. Such relations are reflexive and transitive, which is all the loops and
  the sequencing of the code need.
\<close>

definition keeps :: "('s \<Rightarrow> 's \<Rightarrow> bool) \<Rightarrow> ('s, 'f, 'a) prog \<Rightarrow> bool" where
  "keeps R m \<longleftrightarrow> (\<forall>s. R s (snd (m s)))"

definition stable :: "('s \<Rightarrow> bool) \<Rightarrow> 's \<Rightarrow> 's \<Rightarrow> bool" where
  "stable I s t \<longleftrightarrow> (I s \<longrightarrow> I t)"

locale step_relation =
  fixes R :: "'s \<Rightarrow> 's \<Rightarrow> bool"
  assumes step_refl: "R s s"
    and step_trans: "R s t \<Longrightarrow> R t u \<Longrightarrow> R s u"
begin

lemma keeps_ret: "keeps R (pret x)"
  by (simp add: keeps_def pret_def step_refl)

lemma keeps_throw: "keeps R (pthrow e)"
  by (simp add: keeps_def pthrow_def step_refl)

lemma keeps_get: "keeps R (pget f)"
  by (simp add: keeps_def pget_def step_refl)

lemma keeps_lift: "keeps R (plift r)"
  by (simp add: keeps_def plift_def step_refl)

lemma keeps_bind: "keeps R m \<Longrightarrow> (\<And>x. keeps R (f x)) \<Longrightarrow> keeps R (pbind m f)"
  unfolding keeps_def pbind_def
  by (auto split: prod.splits sum.splits) (metis snd_conv step_trans)+

lemma keeps_seq: "keeps R m \<Longrightarrow> keeps R n \<Longrightarrow> keeps R (pseq m n)"
  unfolding pseq_def by (rule keeps_bind)

lemma keeps_modify: "(\<And>s. R s (f s)) \<Longrightarrow> keeps R (pmodify f)"
  by (simp add: keeps_def pmodify_def)

lemma keeps_step: "(\<And>s. R s (snd (f s))) \<Longrightarrow> keeps R (pstep f)"
  by (simp add: keeps_def pstep_def)

lemma keeps_map_err: "keeps R m \<Longrightarrow> keeps R (pmap_err h m)"
  unfolding keeps_def pmap_err_def by (auto split: prod.splits sum.splits) (metis snd_conv)+

lemma keeps_try: "keeps R m \<Longrightarrow> keeps R (ptry m)"
  unfolding keeps_def ptry_def by (auto split: prod.splits) (metis snd_conv)

lemma keeps_for: "(\<And>x. x \<in> set xs \<Longrightarrow> keeps R (f x)) \<Longrightarrow> keeps R (pfor xs f)"
  by (induction xs) (auto intro: keeps_ret keeps_seq)

lemma fold_related: "(\<And>x s. x \<in> set xs \<Longrightarrow> R s (f x s)) \<Longrightarrow> R s (fold f xs s)"
proof (induction xs arbitrary: s)
  case Nil
  then show ?case by (simp add: step_refl)
next
  case (Cons x xs)
  have "R s (f x s)" using Cons.prems by simp
  moreover have "R (f x s) (fold f xs (f x s))" using Cons by simp
  ultimately show ?case by (auto intro: step_trans)
qed

lemmas keeps_rules = keeps_ret keeps_throw keeps_get keeps_lift keeps_bind keeps_seq
  keeps_map_err keeps_try keeps_for

end

lemma step_relation_stable: "step_relation (stable I)"
  by unfold_locales (auto simp: stable_def)

lemma keeps_if [keeps_intros]:
  "(b \<Longrightarrow> keeps R m) \<Longrightarrow> (\<not> b \<Longrightarrow> keeps R n) \<Longrightarrow> keeps R (if b then m else n)"
  by simp

lemma keeps_option [keeps_intros]:
  "(x = None \<Longrightarrow> keeps R m) \<Longrightarrow> (\<And>y. x = Some y \<Longrightarrow> keeps R (n y)) \<Longrightarrow>
   keeps R (case x of None \<Rightarrow> m | Some y \<Rightarrow> n y)"
  by (cases x) simp_all

lemma keeps_prod [keeps_intros]:
  "(\<And>a b. x = (a, b) \<Longrightarrow> keeps R (m a b)) \<Longrightarrow> keeps R (case x of (a, b) \<Rightarrow> m a b)"
  by (cases x) simp

end
