(* ===== verification/F64.thy ===== *)
theory F64
  imports Prelude
begin

text \<open>
  The \<open>f64\<close> values of the code: a finite value is its rational, and the results of
  the operations are rounded to the nearest binary64 number, ties to even, with gradual
  underflow and overflow to an infinity. Zeros are not signed, which no operation the
  code uses can see.
\<close>

datatype f64 = NaN | Inf | NegInf | Fin rat

section \<open>Rounding\<close>

text \<open>The binary exponent of a positive rational: \<open>2 powi k \<le> x < 2 powi (k + 1)\<close>.\<close>

fun bits :: "nat \<Rightarrow> nat" where
  "bits n = (if n = 0 then 0 else Suc (bits (n div 2)))"

declare bits.simps [simp del]

definition exponent :: "rat \<Rightarrow> int" where
  "exponent x =
     (let (p, q) = quotient_of x;
          k = int (bits (nat p)) - int (bits (nat q))
      in if 2 powi k \<le> x then k else k - 1)"

definition round_half_even :: "rat \<Rightarrow> int" where
  "round_half_even y =
     (let n = \<lfloor>y\<rfloor>; r = y - of_int n
      in if r < 1 / 2 then n else if 1 / 2 < r then n + 1 else if even n then n else n + 1)"

text \<open>The spacing of the binary64 numbers around \<open>x\<close>: 53 significant bits, at least \<open>2 powi -1074\<close>.\<close>

definition spacing :: "rat \<Rightarrow> rat" where
  "spacing x = 2 powi (max (exponent x - 52) (- 1074))"

definition f64_round :: "rat \<Rightarrow> f64" where
  "f64_round x =
     (if x = 0 then Fin 0
      else let d = spacing \<bar>x\<bar>; m = of_int (round_half_even (\<bar>x\<bar> / d)) * d
           in if 2 powi 1024 \<le> m then (if 0 < x then Inf else NegInf)
              else Fin (if 0 < x then m else - m))"

section \<open>The operations the code uses\<close>

text \<open>\<open>n as f64\<close>, \<open>x * y\<close>, \<open>x.ceil()\<close>, \<open>x as u64\<close> and the comparisons.\<close>

definition f64_of_u64 :: "u64 \<Rightarrow> f64" where
  "f64_of_u64 n = f64_round (of_nat (unat n))"

fun f64_mul :: "f64 \<Rightarrow> f64 \<Rightarrow> f64" where
  "f64_mul NaN y = NaN"
| "f64_mul x NaN = NaN"
| "f64_mul (Fin a) (Fin b) = f64_round (a * b)"
| "f64_mul (Fin a) Inf = (if a = 0 then NaN else if 0 < a then Inf else NegInf)"
| "f64_mul (Fin a) NegInf = (if a = 0 then NaN else if 0 < a then NegInf else Inf)"
| "f64_mul Inf (Fin b) = (if b = 0 then NaN else if 0 < b then Inf else NegInf)"
| "f64_mul NegInf (Fin b) = (if b = 0 then NaN else if 0 < b then NegInf else Inf)"
| "f64_mul Inf Inf = Inf"
| "f64_mul Inf NegInf = NegInf"
| "f64_mul NegInf Inf = NegInf"
| "f64_mul NegInf NegInf = Inf"

fun f64_ceil :: "f64 \<Rightarrow> f64" where
  "f64_ceil (Fin a) = Fin (of_int \<lceil>a\<rceil>)"
| "f64_ceil x = x"

fun u64_of_f64 :: "f64 \<Rightarrow> u64" where
  "u64_of_f64 NaN = 0"
| "u64_of_f64 NegInf = 0"
| "u64_of_f64 Inf = - 1"
| "u64_of_f64 (Fin a) =
     (if a \<le> 0 then 0 else if 2 ^ 64 \<le> a then - 1 else word_of_int \<lfloor>a\<rfloor>)"

fun f64_le :: "f64 \<Rightarrow> f64 \<Rightarrow> bool" where
  "f64_le NaN y = False"
| "f64_le x NaN = False"
| "f64_le NegInf y = True"
| "f64_le x Inf = True"
| "f64_le (Fin a) (Fin b) = (a \<le> b)"
| "f64_le x y = False"

fun f64_less :: "f64 \<Rightarrow> f64 \<Rightarrow> bool" where
  "f64_less NaN y = False"
| "f64_less x NaN = False"
| "f64_less (Fin a) (Fin b) = (a < b)"
| "f64_less (Fin a) Inf = True"
| "f64_less NegInf (Fin b) = True"
| "f64_less NegInf Inf = True"
| "f64_less x y = False"

section \<open>What rounding keeps\<close>

lemma bits_bounds: "0 < n \<Longrightarrow> n < 2 ^ bits n \<and> 2 ^ bits n \<le> 2 * n"
proof (induction n rule: bits.induct)
  case (1 n)
  show ?case
  proof (cases "n = 1")
    case True
    then show ?thesis by (simp add: bits.simps)
  next
    case False
    with 1 have IH: "n div 2 < 2 ^ bits (n div 2)" "2 ^ bits (n div 2) \<le> 2 * (n div 2)"
      by auto
    have "bits n = Suc (bits (n div 2))" using 1 by (simp add: bits.simps [of n])
    with IH show ?thesis by simp linarith
  qed
qed

lemma exponent_bounds:
  assumes "0 < x"
  shows "2 powi exponent x \<le> x" and "x < 2 powi (exponent x + 1)"
proof -
  obtain p q where pq: "quotient_of x = (p, q)" by fastforce
  have q: "0 < q" using quotient_of_denom_pos [OF pq] .
  have x: "x = of_int p / of_int q" using quotient_of_div [OF pq] .
  have p: "0 < p" using assms q by (simp add: x zero_less_divide_iff)
  let ?a = "bits (nat p)" and ?b = "bits (nat q)"
  define k where "k = int ?a - int ?b"
  have nat_less: "nat p < 2 ^ ?a" "2 ^ ?a \<le> 2 * nat p" "nat q < 2 ^ ?b" "2 ^ ?b \<le> 2 * nat q"
    using bits_bounds [of "nat p"] bits_bounds [of "nat q"] p q by simp_all
  have "rat_of_nat (nat p) < rat_of_nat (2 ^ ?a)" "rat_of_nat (2 ^ ?a) \<le> rat_of_nat (2 * nat p)"
    "rat_of_nat (nat q) < rat_of_nat (2 ^ ?b)" "rat_of_nat (2 ^ ?b) \<le> rat_of_nat (2 * nat q)"
    using nat_less by (simp_all only: of_nat_less_iff of_nat_le_iff)
  then have r: "rat_of_int p < 2 ^ ?a" "2 ^ ?a \<le> 2 * rat_of_int p"
    "rat_of_int q < 2 ^ ?b" "2 ^ ?b \<le> 2 * rat_of_int q"
    using p q by simp_all
  have pk: "2 powi k = (2 ^ ?a / 2 ^ ?b :: rat)"
    by (simp add: k_def power_int_diff)
  have up: "x < 2 * 2 powi k"
  proof -
    have "x < 2 ^ ?a / rat_of_int q" using r(1) q by (simp add: x divide_strict_right_mono)
    also have "\<dots> \<le> 2 ^ ?a / (2 ^ ?b / 2)" using r(4) by (intro divide_left_mono) (use q in auto)
    finally show ?thesis by (simp add: pk mult.commute)
  qed
  have lo: "2 powi k \<le> 2 * x"
  proof -
    have "2 powi k \<le> 2 * rat_of_int p / 2 ^ ?b" using r(2) by (simp add: pk divide_right_mono)
    also have "\<dots> \<le> 2 * rat_of_int p / rat_of_int q"
      using r(3) p q by (intro divide_left_mono) auto
    finally show ?thesis by (simp add: x)
  qed
  have e: "exponent x = (if 2 powi k \<le> x then k else k - 1)"
    by (simp add: exponent_def pq k_def Let_def)
  show "2 powi exponent x \<le> x" using lo by (auto simp: e power_int_diff)
  show "x < 2 powi (exponent x + 1)"
    using up by (cases "2 powi k \<le> x") (simp_all add: e power_int_add mult.commute)
qed

lemma spacing_pos: "0 < spacing x"
  by (simp add: spacing_def)

lemma le_round_half_even: "of_int k \<le> y \<Longrightarrow> k \<le> round_half_even y"
  by (auto simp: round_half_even_def Let_def le_floor_iff [symmetric])

lemma round_half_even_int [simp]: "round_half_even (of_int k) = k"
  by (simp add: round_half_even_def Let_def)

lemma exponent_less:
  assumes "0 < x" "x < 2 powi k"
  shows "exponent x < k"
proof (rule ccontr)
  assume "\<not> exponent x < k"
  then have "2 powi k \<le> (2 powi exponent x :: rat)" by (intro power_int_increasing) auto
  also have "\<dots> \<le> x" using exponent_bounds(1) [OF assms(1)] .
  finally show False using assms(2) by simp
qed

text \<open>A multiple of the spacing of \<open>x\<close> that is not above \<open>x\<close> is not above its rounding.\<close>

lemma natural_multiple:
  assumes n: "n \<le> 2 ^ 53" and x: "0 < x" and le: "of_nat n \<le> x"
  shows "\<exists>k. of_nat n \<le> of_int k * spacing x \<and> of_int k * spacing x \<le> x"
proof (cases "exponent x \<le> 52")
  case True
  define j where "j = nat (- max (exponent x - 52) (- 1074))"
  have "spacing x = 2 powi (- int j)" using True by (simp add: spacing_def j_def)
  then have d: "spacing x = 1 / 2 ^ j" by (simp add: power_int_minus field_simps)
  have "of_nat n = of_int (int n * 2 ^ j) * spacing x" by (simp add: d)
  then show ?thesis using le by (metis order_refl)
next
  case False
  then have d: "spacing x = 2 powi (exponent x - 52)" by (simp add: spacing_def)
  have e: "of_int (2 ^ 52) * spacing x = 2 powi exponent x"
    by (simp add: d power_int_diff)
  have "(2::rat) powi 53 \<le> 2 powi exponent x" using False by (intro power_int_increasing) auto
  then have "of_nat n \<le> (2::rat) powi exponent x" using n
    by (metis (mono_tags, lifting) of_nat_le_iff of_nat_numeral of_nat_power order_trans power_int_numeral)
  then show ?thesis using e exponent_bounds(1) [OF x] by metis
qed

text \<open>\<open>at_least n y\<close>: the value is not below the natural number \<open>n\<close>.\<close>

fun at_least :: "nat \<Rightarrow> f64 \<Rightarrow> bool" where
  "at_least n (Fin y) = (of_nat n \<le> y)"
| "at_least n Inf = True"
| "at_least n x = False"

lemma round_at_least:
  assumes "n \<le> 2 ^ 53" "of_nat n \<le> x"
  shows "at_least n (f64_round x)"
proof (cases "x = 0")
  case True
  then show ?thesis using assms by (simp add: f64_round_def)
next
  case False
  then have x: "0 < x" using assms(2) by (metis less_le of_nat_0_le_iff order_trans)
  obtain k where k: "of_nat n \<le> of_int k * spacing x" "of_int k * spacing x \<le> x"
    using natural_multiple [OF assms(1) x assms(2)] by blast
  have "of_int k \<le> x / spacing x" using k(2) spacing_pos [of x] by (simp add: pos_le_divide_eq)
  then have "k \<le> round_half_even (x / spacing x)" by (rule le_round_half_even)
  then have "of_int k * spacing x \<le> of_int (round_half_even (x / spacing x)) * spacing x"
    using spacing_pos [of x] by (intro mult_right_mono) auto
  then show ?thesis using k(1) x False by (simp add: f64_round_def Let_def)
qed

lemma round_exact_nat:
  assumes "n \<le> 2 ^ 53"
  shows "f64_round (of_nat n) = Fin (of_nat n)"
proof (cases "n = 0")
  case True
  then show ?thesis by (simp add: f64_round_def)
next
  case False
  then have x: "(0::rat) < of_nat n" by simp
  obtain k where k: "of_nat n = of_int k * spacing (of_nat n)"
    using natural_multiple [OF assms x order_refl] by (metis order_antisym)
  then have q: "of_nat n / spacing (of_nat n) = of_int k"
    using spacing_pos [of "of_nat n"] by (metis less_irrefl nonzero_mult_div_cancel_right)
  have "(of_nat n :: rat) \<le> of_nat (2 ^ 53)" using assms by (simp only: of_nat_le_iff)
  also have "\<dots> < 2 powi 1024" by simp
  finally have "(of_nat n :: rat) < 2 powi 1024" .
  then show ?thesis using False k by (simp add: f64_round_def Let_def q flip: k)
qed

lemma unat_u64_of_int: "unat (u64_of_f64 (Fin (of_int k))) = min (nat k) (2 ^ 64 - 1)"
proof -
  have le: "(2 ^ 64 \<le> rat_of_int k) = (2 ^ 64 \<le> k)"
    using of_int_le_iff [of "2 ^ 64" k, where ?'a = rat] by simp
  consider "k \<le> 0" | "0 < k" "k < 2 ^ 64" | "2 ^ 64 \<le> k" by linarith
  then show ?thesis
  proof cases
    case 2
    then have "unat (word_of_int k :: u64) = nat k"
      by (simp add: unsigned_of_int take_bit_int_eq_self)
    with 2 show ?thesis by (simp add: le nat_less_iff)
  next
    case 3
    then have "u64_of_f64 (Fin (of_int k)) = - 1" by (simp only: u64_of_f64.simps le) simp
    moreover have "2 ^ 64 - 1 \<le> nat k" using 3 by simp
    ultimately show ?thesis by (simp add: unat_minus_one_eq)
  qed simp
qed

lemma u64_of_int_at_least:
  assumes "n \<le> 2 ^ 53" "at_least n y"
  shows "n \<le> unat (u64_of_f64 (f64_ceil y))"
proof (cases y)
  case (Fin a)
  then have "of_nat n \<le> a" using assms by simp
  then have c: "int n \<le> \<lceil>a\<rceil>" by (metis ceiling_mono ceiling_of_nat)
  have "n \<le> 2 ^ 64 - 1" using assms(1) by (rule order_trans) simp
  with c show ?thesis unfolding Fin f64_ceil.simps unat_u64_of_int by simp
qed (use assms in \<open>simp_all add: unat_minus_one_eq\<close>)

text \<open>
  The product the fee computation makes: an integer amount up to \<open>2 ^ 53\<close> times a
  multiplier that is at least one, rounded up, is not below the amount.
\<close>

lemma ceil_mul_at_least:
  assumes n: "unat n \<le> 2 ^ 53" and b: "f64_le (Fin 1) b"
  shows "unat n \<le> unat (u64_of_f64 (f64_ceil (f64_mul (f64_of_u64 n) b)))"
proof (cases "unat n = 0")
  case False
  have f: "f64_of_u64 n = Fin (of_nat (unat n))"
    unfolding f64_of_u64_def using n by (rule round_exact_nat)
  have "at_least (unat n) (f64_mul (Fin (of_nat (unat n))) b)"
  proof (cases b)
    case (Fin r)
    then have "1 \<le> r" using b by simp
    then have "of_nat (unat n) * 1 \<le> of_nat (unat n) * r" by (rule mult_left_mono) (rule of_nat_0_le_iff)
    then have "of_nat (unat n) \<le> of_nat (unat n) * r" by simp
    with n have "at_least (unat n) (f64_round (of_nat (unat n) * r))" by (rule round_at_least)
    with Fin show ?thesis by simp
  next
    case Inf
    have "(0::rat) < of_nat (unat n)" using False by (simp only: of_nat_0_less_iff)
    with Inf show ?thesis by (simp only: f64_mul.simps) simp
  qed (use b in auto)
  with n show ?thesis unfolding f by (rule u64_of_int_at_least)
qed simp

lemma ceil_mul_one:
  assumes n: "unat n \<le> 2 ^ 53"
  shows "u64_of_f64 (f64_ceil (f64_mul (f64_of_u64 n) (Fin 1))) = n"
proof -
  have f: "f64_round (of_nat (unat n)) = Fin (of_int (int (unat n)))"
    using round_exact_nat [OF n] by simp
  then have "f64_mul (f64_of_u64 n) (Fin 1) = Fin (of_int (int (unat n)))"
    unfolding f64_of_u64_def f by (simp only: f64_mul.simps mult_1_right of_int_of_nat_eq f)
  then have "unat (u64_of_f64 (f64_ceil (f64_mul (f64_of_u64 n) (Fin 1)))) = unat n"
    using n by (simp only: f64_ceil.simps ceiling_of_int unat_u64_of_int) simp
  then show ?thesis by (rule unsigned_word_eqI)
qed

text \<open>Rounding in the normal range errs by at most half a unit in the last of the 53 bits.\<close>

lemma round_half_even_near: "\<bar>of_int (round_half_even y) - y\<bar> \<le> 1 / 2"
proof -
  have "of_int \<lfloor>y\<rfloor> \<le> y" "y < of_int \<lfloor>y\<rfloor> + 1" using floor_correct [of y] by simp_all
  then show ?thesis by (simp add: round_half_even_def Let_def abs_if) linarith
qed

lemma round_near:
  assumes lo: "1 / 2 ^ 1000 \<le> x" and hi: "x < 2 ^ 1000"
  shows "\<exists>y. f64_round x = Fin y \<and> \<bar>y - x\<bar> \<le> x / 2 ^ 53"
proof -
  have x: "0 < x" using lo by (rule less_le_trans [rotated]) simp
  have p: "(1 :: rat) / 2 ^ 1000 = 2 powi (- 1000)" by (simp add: power_int_minus field_simps)
  have "(2 :: rat) powi (- 1000) < 2 powi (exponent x + 1)"
    using lo [unfolded p] exponent_bounds(2) [OF x] by (rule le_less_trans)
  then have "- 1000 < exponent x + 1"
    using power_int_increasing [of "exponent x + 1" "- 1000" "2 :: rat"] by linarith
  then have d: "spacing x = 2 powi exponent x / 2 ^ 52" by (simp add: spacing_def power_int_diff)
  define m where "m = of_int (round_half_even (x / spacing x)) * spacing x"
  have s: "0 < spacing x" by (rule spacing_pos)
  have "m - x = (of_int (round_half_even (x / spacing x)) - x / spacing x) * spacing x"
    using s by (simp add: m_def algebra_simps)
  then have "\<bar>m - x\<bar> = \<bar>of_int (round_half_even (x / spacing x)) - x / spacing x\<bar> * spacing x"
    using s by (simp add: abs_mult)
  also have "\<dots> \<le> 1 / 2 * spacing x" using round_half_even_near s by (intro mult_right_mono) auto
  also have "\<dots> \<le> x / 2 ^ 53" using exponent_bounds(1) [OF x] by (simp add: d)
  finally have near: "\<bar>m - x\<bar> \<le> x / 2 ^ 53" .
  have "x / 2 ^ 53 \<le> x" using x by simp
  with near have "m \<le> 2 * x" by linarith
  also have "\<dots> < 2 ^ 1001" using hi by simp
  also have "\<dots> \<le> 2 powi 1024" by simp
  finally have "m < 2 powi 1024" .
  then have "f64_round x = Fin m" using x by (simp add: f64_round_def Let_def m_def)
  with near show ?thesis by blast
qed

end
