(* ===== verification/Coordinator_Types.thy ===== *)
theory Coordinator_Types
  imports F64
begin

text \<open>
  The data model of \<open>src/types.rs\<close> and \<open>src/errors.rs\<close>, and what the code sees of the
  types it takes from other crates. A struct is a record whose fields carry the initials
  of the struct, an enum is a datatype with the source's constructors.
\<close>

section \<open>Values of other crates\<close>

text \<open>
  A transaction id is a 256-bit hash that the code only compares. An outpoint is a
  transaction id and an output index. A public key is opaque.
\<close>

type_synonym txid = nat
type_synonym pub_key = nat

datatype out_point = OutPoint (op_txid: txid) (op_vout: u32)

text \<open>
  \<open>bitcoin::Transaction\<close> as the code observes it: the outpoints its inputs spend
  (\<open>previous_output\<close>), the values of its outputs in sats, and the results of the methods
  \<open>vsize()\<close>, \<open>weight().to_wu()\<close> and \<open>compute_txid()\<close>. A transaction value is never
  modified after it was built, so each method has one result.
\<close>

record transaction =
  tx_input :: "out_point list"
  tx_output :: "u64 list"
  tx_vsize :: u64
  tx_weight :: u64
  tx_compute_txid :: txid

text \<open>\<open>protocol_builder::types::Utxo\<close>, and \<open>SpeedupData\<close> with the two fields the code reads.\<close>

record utxo =
  u_txid :: txid
  u_vout :: u32
  u_amount :: u64
  u_pub_key :: pub_key

record speedup_data =
  sd_utxo :: "utxo option"
  sd_partial_utxo :: "(txid \<times> u32 \<times> u64) option"
  sd_rest :: nat

definition utxo_outpoint :: "utxo \<Rightarrow> out_point" where
  "utxo_outpoint u = OutPoint (u_txid u) (u_vout u)"

text \<open>
  \<open>bitvmx_transaction_monitor::TransactionStatus\<close> as the answers of the methods the
  code calls on it: \<open>is_in_mempool()\<close>, \<open>is_not_found()\<close>, \<open>is_finalized(max)\<close>,
  \<open>is_confirmed()\<close> and \<open>is_orphan()\<close>. Nothing is assumed of how the answers go together.
\<close>

record tx_status =
  is_in_mempool :: bool
  is_not_found :: bool
  is_finalized :: "u32 \<Rightarrow> bool"
  is_confirmed :: bool
  is_orphan :: bool

text \<open>What can be registered with the monitor, and the news the monitor has.\<close>

datatype types_to_monitor =
    Transactions "txid list" string "u32 option"
  | OtherMonitored nat

datatype monitor_news =
    TransactionNews txid string nat
  | OtherMonitorNews nat

section \<open>types.rs\<close>

datatype transaction_state = ToDispatch | InMempool | Confirmed | Finalized | Failed

record fee_info =
  fi_fee :: u64
  fi_fee_rate :: u64
  fi_package_fee_rate :: u64
  fi_weight :: u64

record speedup_context =
  sc_funding_inputs :: "utxo list"
  sc_replaced_by :: "txid option"
  sc_bump_fee_used :: f64
  sc_parent_data :: "(speedup_data \<times> u64 \<times> u64) list"
  sc_spent :: bool

definition is_being_replaced :: "speedup_context \<Rightarrow> bool" where
  "is_being_replaced c = (sc_replaced_by c \<noteq> None)"

datatype speedup_kind =
    CPFP "txid list" speedup_context
  | RBF txid "utxo list" speedup_context

datatype tx_kind = Normal | NeedsSpeedup speedup_data | Speedup speedup_kind

record coordinated_tx =
  ct_txid :: txid
  ct_tx :: transaction
  ct_kind :: tx_kind
  ct_state :: transaction_state
  ct_target_block_height :: block_height
  ct_confirmation_trigger :: "u32 option"
  ct_stuck_in_mempool_blocks :: "u32 option"
  ct_settled_block_height :: "block_height option"
  ct_broadcast_block_height :: "block_height option"
  ct_fail_guard_until :: "block_height option"
  ct_retry_count :: u32
  ct_fee_info :: fee_info
  ct_context :: string

text \<open>\<open>impl PartialEq for CoordinatedTx\<close>: compared by txid.\<close>

definition coordinated_tx_eq :: "coordinated_tx \<Rightarrow> coordinated_tx \<Rightarrow> bool" where
  "coordinated_tx_eq a b = (ct_txid a = ct_txid b)"

record funding_data =
  fd_utxo :: utxo
  fd_spent :: bool
  fd_from_speedup :: bool

datatype coordinator_news =
    TxNotFound txid
  | InvalidStateTransition txid transaction_state transaction_state
  | EstimateFeerateTooHigh u64 u64
  | InvalidFundingUtxo u64 u64
  | FundingNotAvailable
  | TransactionStuckInMempool txid string
  | DispatchError txid string
  | TransactionEvicted txid string
  | InsufficientFunds u64 u64
  | SpeedupDispatchError txid string
  | MaxFeeRateReached txid u64 string
  | InvalidCancel txid string

record news =
  monitor_news_of :: "monitor_news list"
  coordinator_news_of :: "coordinator_news list"

datatype ack_news = AckMonitor nat | AckCoordinator coordinator_news

section \<open>errors.rs\<close>

text \<open>
  The errors of the crate. Their messages keep the fixed text of the source and drop the
  values interpolated into it, which nothing reads. A failure is an error that is
  returned, a panic (an index out of range), or the absence of a result of a loop that
  does not end.
\<close>

datatype coordinator_error =
    InvalidConfiguration string
  | MonitorError string
  | StorageBackendError string
  | BitcoinClientError string
  | ProtocolBuilderError string
  | KeyManagerError string
  | Internal string
  | InvariantViolation string

datatype failure = Err coordinator_error | Panic string | NoReturn

type_synonym 'a result = "failure + 'a"

section \<open>Order of outpoints\<close>

text \<open>Outpoints are ordered by transaction id and then by index, as in the \<open>bitcoin\<close> crate.\<close>

instantiation out_point :: linorder
begin

definition less_eq_out_point :: "out_point \<Rightarrow> out_point \<Rightarrow> bool" where
  "less_eq_out_point a b \<longleftrightarrow>
     op_txid a < op_txid b \<or> op_txid a = op_txid b \<and> op_vout a \<le> op_vout b"

definition less_out_point :: "out_point \<Rightarrow> out_point \<Rightarrow> bool" where
  "less_out_point a b \<longleftrightarrow>
     op_txid a < op_txid b \<or> op_txid a = op_txid b \<and> op_vout a < op_vout b"

instance
  by standard (auto simp: less_eq_out_point_def less_out_point_def intro: out_point.expand)

end

section \<open>Kinds of transactions\<close>

definition is_speedup :: "coordinated_tx \<Rightarrow> bool" where
  "is_speedup t = (case ct_kind t of Speedup k \<Rightarrow> True | _ \<Rightarrow> False)"

definition is_needs_speedup :: "coordinated_tx \<Rightarrow> bool" where
  "is_needs_speedup t = (case ct_kind t of NeedsSpeedup d \<Rightarrow> True | _ \<Rightarrow> False)"

definition is_terminal :: "transaction_state \<Rightarrow> bool" where
  "is_terminal st = (st = Finalized \<or> st = Failed)"

lemma is_terminal_simps [simp]:
  "is_terminal Finalized" "is_terminal Failed"
  "\<not> is_terminal ToDispatch" "\<not> is_terminal InMempool" "\<not> is_terminal Confirmed"
  by (simp_all add: is_terminal_def)

lemma utxo_outpoint_sel [simp]:
  "op_txid (utxo_outpoint u) = u_txid u" "op_vout (utxo_outpoint u) = u_vout u"
  by (simp_all add: utxo_outpoint_def)

end
