(* ===== verification/Store_Keys.thy ===== *)
theory Store_Keys
  imports Coordinator_Types
begin

text \<open>
  The keys under which \<open>src/core/storage.rs\<close> keeps its data in the shared key-value
  backend: \<open>StoreKey\<close>, \<open>get_key\<close> and the prefix that \<open>get_all_txs\<close> scans. A
  \<open>StorageKey\<close> of the backend is the list of its segments. How a transaction id and an
  outpoint are printed (\<open>to_string\<close> of the \<open>bitcoin\<close> crate) is a parameter.
\<close>

datatype store_key =
    KTx txid
  | KNews
  | KSpeedupList
  | KPendingSpeedupParents
  | KFundingList
  | KFunding out_point

definition TX_PREFIX :: string where
  "TX_PREFIX = ''bitcoin_coordinator''"

definition coordinator_key :: "string list \<Rightarrow> string list \<Rightarrow> string list" where
  "coordinator_key namespace tail = TX_PREFIX # namespace @ tail"

definition speedup_key :: "string list \<Rightarrow> string list" where
  "speedup_key tail = coordinator_key [''speedup''] tail"

definition funding_key :: "string list \<Rightarrow> string list" where
  "funding_key tail = coordinator_key [''funding''] tail"

fun get_key ::
    "(txid \<Rightarrow> string) \<Rightarrow> (out_point \<Rightarrow> string) \<Rightarrow> store_key \<Rightarrow> string list" where
  "get_key show_txid show_op (KTx txid) = coordinator_key [''txs''] [show_txid txid]"
| "get_key show_txid show_op KNews = coordinator_key [''news''] []"
| "get_key show_txid show_op KSpeedupList = speedup_key [''list'']"
| "get_key show_txid show_op KPendingSpeedupParents = speedup_key [''pending_parents'']"
| "get_key show_txid show_op KFundingList = funding_key [''list'']"
| "get_key show_txid show_op (KFunding op) = funding_key [''record'', show_op op]"

text \<open>The prefix of the scan in \<open>get_all_txs\<close>; a key is found when it extends the prefix.\<close>

definition txs_prefix :: "string list" where
  "txs_prefix = coordinator_key [''txs''] []"

definition has_prefix :: "string list \<Rightarrow> string list \<Rightarrow> bool" where
  "has_prefix p k = (take (length p) k = p)"

lemmas key_defs = coordinator_key_def speedup_key_def funding_key_def txs_prefix_def has_prefix_def

text \<open>
  No two pieces of the coordinator's state share a key, and the prefix scan of \<open>get_all_txs\<close> finds the
  transaction records and nothing else, given that different ids and different outpoints print differently.
\<close>

lemma get_key_inj:
  assumes "inj show_txid" and "inj show_op"
  shows "get_key show_txid show_op a = get_key show_txid show_op b \<longleftrightarrow> a = b"
  by (cases a; cases b) (auto simp: key_defs dest: injD [OF assms(1)] injD [OF assms(2)])

lemma get_key_prefix:
  "has_prefix txs_prefix (get_key show_txid show_op a) \<longleftrightarrow> (\<exists>txid. a = KTx txid)"
  by (cases a) (auto simp: key_defs)

text \<open>An instance of the printing functions: unary numerals for ids, pairs for outpoints.\<close>

definition show_unary :: "nat \<Rightarrow> string" where
  "show_unary n = replicate n (CHR ''1'')"

definition show_op_unary :: "out_point \<Rightarrow> string" where
  "show_op_unary op = show_unary (op_txid op) @ '':'' @ show_unary (unat (op_vout op))"

lemma show_unary_inj: "inj show_unary"
  by (rule injI) (simp add: show_unary_def)

lemma while_replicate:
  assumes "y \<noteq> x"
  shows "takeWhile (\<lambda>c. c = x) (replicate n x @ y # ys) = replicate n x"
    and "dropWhile (\<lambda>c. c = x) (replicate n x @ y # ys) = y # ys"
  using assms by (induction n) simp_all

lemma show_op_unary_inj: "inj show_op_unary"
proof (rule injI)
  fix a b
  assume eq: "show_op_unary a = show_op_unary b"
  have tw: "takeWhile (\<lambda>c. c = CHR ''1'') (show_op_unary x) = show_unary (op_txid x)"
    and dw: "dropWhile (\<lambda>c. c = CHR ''1'') (show_op_unary x) = '':'' @ show_unary (unat (op_vout x))" for x
    by (simp_all add: show_op_unary_def show_unary_def while_replicate)
  have "op_txid a = op_txid b" using tw [of a] tw [of b] eq injD [OF show_unary_inj] by metis
  moreover have "unat (op_vout a) = unat (op_vout b)"
    using dw [of a] dw [of b] eq injD [OF show_unary_inj] by (metis append.simps list.inject)
  ultimately show "a = b" by (cases a; cases b) (simp add: word_unat_eq_iff)
qed

end
