(* ===== verification/Helpers.thy ===== *)
theory Helpers
  imports Coordinator_Types
begin

text \<open>
  The methods of \<open>src/helper.rs\<close>: access to the speedup part of a transaction, its
  change output, its funding and other inputs, the lifecycle relation, and the checks of
  dispatch results. A method that indexes a vector panics where the vector is too short.
\<close>

section \<open>SpeedupKind\<close>

fun context_of :: "speedup_kind \<Rightarrow> speedup_context" where
  "context_of (CPFP parents c) = c"
| "context_of (RBF replaces new_inputs c) = c"

text \<open>An assignment through \<open>context_mut\<close>.\<close>

fun map_context :: "(speedup_context \<Rightarrow> speedup_context) \<Rightarrow> speedup_kind \<Rightarrow> speedup_kind" where
  "map_context f (CPFP parents c) = CPFP parents (f c)"
| "map_context f (RBF replaces new_inputs c) = RBF replaces new_inputs (f c)"

fun is_rbf :: "speedup_kind \<Rightarrow> bool" where
  "is_rbf (RBF replaces new_inputs c) = True"
| "is_rbf (CPFP parents c) = False"

fun is_boost :: "speedup_kind \<Rightarrow> bool" where
  "is_boost (RBF replaces new_inputs c) = True"
| "is_boost (CPFP parents c) = (sc_parent_data c = [])"

fun parents_of :: "speedup_kind \<Rightarrow> txid list" where
  "parents_of (CPFP parents c) = parents"
| "parents_of (RBF replaces new_inputs c) = []"

section \<open>CoordinatedTx\<close>

definition speedup_kind_of :: "coordinated_tx \<Rightarrow> speedup_kind result" where
  "speedup_kind_of t =
     (case ct_kind t of Speedup k \<Rightarrow> Inr k
      | _ \<Rightarrow> Inl (Err (InvariantViolation ''expected Speedup'')))"

text \<open>\<open>speedup_kind_mut()?.context_mut()\<close> followed by the update \<open>f\<close> of the context.\<close>

definition update_context ::
    "(speedup_context \<Rightarrow> speedup_context) \<Rightarrow> coordinated_tx \<Rightarrow> coordinated_tx result" where
  "update_context f t =
     (case ct_kind t of Speedup k \<Rightarrow> Inr (t\<lparr>ct_kind := Speedup (map_context f k)\<rparr>)
      | _ \<Rightarrow> Inl (Err (InvariantViolation ''expected Speedup (mut)'')))"

definition last_output :: "coordinated_tx \<Rightarrow> (u64 \<times> u32) result" where
  "last_output t =
     (case tx_output (ct_tx t) of
        [] \<Rightarrow> Inl (Err (InvariantViolation ''tx has no outputs''))
      | out \<Rightarrow> Inr (last out, of_nat (length out - 1)))"

definition speedup_change_utxo :: "coordinated_tx \<Rightarrow> utxo result" where
  "speedup_change_utxo t =
     (case speedup_kind_of t of Inl e \<Rightarrow> Inl e
      | Inr k \<Rightarrow>
         (case last_output t of Inl e \<Rightarrow> Inl e
          | Inr (value, vout) \<Rightarrow>
             (case sc_funding_inputs (context_of k) of
                [] \<Rightarrow> Inl (Panic ''index out of bounds'')
              | fi # _ \<Rightarrow> Inr \<lparr>u_txid = ct_txid t, u_vout = vout, u_amount = value,
                              u_pub_key = u_pub_key fi\<rparr>)))"

definition funding_outpoints :: "coordinated_tx \<Rightarrow> out_point set" where
  "funding_outpoints t =
     (case speedup_kind_of t of
        Inr k \<Rightarrow> set (map utxo_outpoint (sc_funding_inputs (context_of k)))
      | Inl _ \<Rightarrow> {})"

definition non_funding_inputs :: "coordinated_tx \<Rightarrow> out_point list" where
  "non_funding_inputs t = filter (\<lambda>op. op \<notin> funding_outpoints t) (tx_input (ct_tx t))"

definition verify_tx_id :: "coordinated_tx \<Rightarrow> txid \<Rightarrow> unit result" where
  "verify_tx_id t txid =
     (if ct_txid t \<noteq> txid then Inl (Err (InvariantViolation ''expected txid'')) else Inr ())"

section \<open>Dispatch results\<close>

definition verify_single_dispatch_result ::
    "txid \<Rightarrow> (txid \<times> 'o) list \<Rightarrow> (txid \<times> 'o) result" where
  "verify_single_dispatch_result expected results =
     (case results of
        [r] \<Rightarrow> (if fst r \<noteq> expected
                then Inl (Err (InvariantViolation ''dispatch returned another txid''))
                else Inr r)
      | _ \<Rightarrow> Inl (Err (InvariantViolation ''dispatch returned not one result'')))"

definition find_tx_in_batch :: "coordinated_tx list \<Rightarrow> txid \<Rightarrow> coordinated_tx result" where
  "find_tx_in_batch txs txid =
     (case find (\<lambda>t. ct_txid t = txid) txs of
        Some t \<Rightarrow> Inr t
      | None \<Rightarrow> Inl (Err (InvariantViolation ''txid not present in dispatch batch'')))"

section \<open>TransactionState\<close>

fun can_transition_to :: "transaction_state \<Rightarrow> transaction_state \<Rightarrow> bool" where
  "can_transition_to ToDispatch InMempool = True"
| "can_transition_to InMempool Confirmed = True"
| "can_transition_to Confirmed Finalized = True"
| "can_transition_to ToDispatch Confirmed = True"
| "can_transition_to ToDispatch Finalized = True"
| "can_transition_to InMempool Finalized = True"
| "can_transition_to InMempool ToDispatch = True"
| "can_transition_to Confirmed InMempool = True"
| "can_transition_to Confirmed ToDispatch = True"
| "can_transition_to ToDispatch Failed = True"
| "can_transition_to InMempool Failed = True"
| "can_transition_to a b = (a = b)"

section \<open>Lifecycle checks\<close>

definition has_live_replacement :: "coordinated_tx \<Rightarrow> coordinated_tx list \<Rightarrow> bool" where
  "has_live_replacement t all_speedups =
     ((case ct_kind t of Speedup k \<Rightarrow> is_being_replaced (context_of k) | _ \<Rightarrow> False)
      \<or> (\<exists>s \<in> set all_speedups. ct_state s \<noteq> Failed
           \<and> (case ct_kind s of Speedup (RBF replaces _ _) \<Rightarrow> replaces = ct_txid t | _ \<Rightarrow> False)))"

definition is_ready_to_dispatch :: "coordinated_tx \<Rightarrow> block_height \<Rightarrow> bool" where
  "is_ready_to_dispatch t current_height = (ct_target_block_height t \<le> current_height)"

definition is_stuck_in_mempool :: "coordinated_tx \<Rightarrow> block_height \<Rightarrow> bool" where
  "is_stuck_in_mempool t current_height =
     (case (ct_stuck_in_mempool_blocks t, ct_broadcast_block_height t) of
        (Some threshold, Some broadcast) \<Rightarrow> threshold \<le> saturating_sub current_height broadcast
      | _ \<Rightarrow> False)"

definition news_is_empty :: "news \<Rightarrow> bool" where
  "news_is_empty n = (monitor_news_of n = [] \<and> coordinator_news_of n = [])"

section \<open>Facts\<close>

lemma context_of_map_context [simp]: "context_of (map_context f k) = f (context_of k)"
  by (cases k) simp_all

lemma map_context_shape [simp]:
  "is_rbf (map_context f k) = is_rbf k"
  "parents_of (map_context f k) = parents_of k"
  by (cases k; simp)+

lemma speedup_kind_of_Inr: "speedup_kind_of t = Inr k \<longleftrightarrow> ct_kind t = Speedup k"
  by (auto simp: speedup_kind_of_def split: tx_kind.splits)

lemma speedup_kind_of_Speedup [simp]: "ct_kind t = Speedup k \<Longrightarrow> speedup_kind_of t = Inr k"
  by (simp add: speedup_kind_of_Inr)

lemma update_context_Inr:
  "update_context f t = Inr t' \<longleftrightarrow>
     (\<exists>k. ct_kind t = Speedup k \<and> t' = t\<lparr>ct_kind := Speedup (map_context f k)\<rparr>)"
  by (auto simp: update_context_def split: tx_kind.splits)

lemma update_context_Inl: "update_context f t = Inl e \<Longrightarrow> \<not> is_speedup t"
  by (auto simp: update_context_def is_speedup_def split: tx_kind.splits)

lemma is_speedup_iff: "is_speedup t \<longleftrightarrow> (\<exists>k. ct_kind t = Speedup k)"
  by (auto simp: is_speedup_def split: tx_kind.splits)

lemma is_needs_speedup_iff: "is_needs_speedup t \<longleftrightarrow> (\<exists>d. ct_kind t = NeedsSpeedup d)"
  by (auto simp: is_needs_speedup_def split: tx_kind.splits)

lemma can_transition_refl [simp]: "can_transition_to a a"
  by (cases a) simp_all

lemma can_transition_terminal: "is_terminal a \<Longrightarrow> can_transition_to a b = (a = b)"
  by (cases a; cases b) simp_all

lemma can_transition_into_Failed:
  "can_transition_to a Failed \<longleftrightarrow> a = ToDispatch \<or> a = InMempool \<or> a = Failed"
  by (cases a) simp_all

lemma can_transition_into_Finalized: "can_transition_to a Finalized \<longleftrightarrow> a \<noteq> Failed"
  by (cases a) simp_all

lemma can_transition_requeue:
  "can_transition_to a ToDispatch \<longleftrightarrow> \<not> is_terminal a"
  by (cases a) simp_all

text \<open>
  The lifecycle of a transaction is a path along \<open>can_transition_to\<close>. A path leads from
  one state to another exactly when they are equal or the first is not terminal:
  \<open>Finalized\<close> and \<open>Failed\<close> are never left, and from each of \<open>ToDispatch\<close>,
  \<open>InMempool\<close> and \<open>Confirmed\<close> every state can still be reached (reorgs and evictions
  lead back). The one edge missing out of a live state is \<open>Confirmed\<close> to \<open>Failed\<close>: a
  mined transaction has to leave the chain before it can fail.
\<close>

lemma lifecycle_paths:
  "(can_transition_to\<^sup>*\<^sup>* a b \<longleftrightarrow> \<not> (is_terminal a \<and> a \<noteq> b))
   \<and> (can_transition_to a b \<longleftrightarrow> \<not> (is_terminal a \<and> a \<noteq> b) \<and> (a, b) \<noteq> (Confirmed, Failed))"
proof
  have "b = a" if "can_transition_to\<^sup>*\<^sup>* a b" "is_terminal a"
    using that by (induction rule: rtranclp_induct) (auto simp: can_transition_terminal)
  moreover have "can_transition_to\<^sup>*\<^sup>* a b" if live: "\<not> is_terminal a"
  proof -
    have "can_transition_to a InMempool" "can_transition_to InMempool b"
      using live by (cases a; simp) (cases b; simp)
    then show ?thesis by (meson r_into_rtranclp rtranclp_trans)
  qed
  ultimately show "can_transition_to\<^sup>*\<^sup>* a b \<longleftrightarrow> \<not> (is_terminal a \<and> a \<noteq> b)" by auto
  show "can_transition_to a b \<longleftrightarrow> \<not> (is_terminal a \<and> a \<noteq> b) \<and> (a, b) \<noteq> (Confirmed, Failed)"
    by (cases a; cases b) simp_all
qed

text \<open>The change output of a speedup is the last output of its transaction.\<close>

lemma speedup_change_utxo_Inr:
  assumes "ct_kind t = Speedup k" "sc_funding_inputs (context_of k) = fi # fis"
    "tx_output (ct_tx t) \<noteq> []"
  shows "speedup_change_utxo t =
    Inr \<lparr>u_txid = ct_txid t, u_vout = of_nat (length (tx_output (ct_tx t)) - 1),
         u_amount = last (tx_output (ct_tx t)), u_pub_key = u_pub_key fi\<rparr>"
  using assms by (cases "tx_output (ct_tx t)") (simp_all add: speedup_change_utxo_def last_output_def)

lemma speedup_change_utxo_txid: "speedup_change_utxo t = Inr u \<Longrightarrow> u_txid u = ct_txid t"
  by (auto simp: speedup_change_utxo_def split: sum.splits list.splits)

lemma speedup_change_utxo_speedup: "speedup_change_utxo t = Inr u \<Longrightarrow> is_speedup t"
  by (auto simp: speedup_change_utxo_def speedup_kind_of_Inr is_speedup_iff split: sum.splits)

text \<open>The change output does not depend on the flags of the speedup's context.\<close>

lemma speedup_change_utxo_flags:
  assumes "ct_kind t = Speedup k"
    and "sc_funding_inputs (f (context_of k)) = sc_funding_inputs (context_of k)"
  shows "speedup_change_utxo (t\<lparr>ct_kind := Speedup (map_context f k)\<rparr>) = speedup_change_utxo t"
  using assms by (simp add: speedup_change_utxo_def last_output_def speedup_kind_of_def
    split: list.split)

lemma find_tx_in_batch_Inr:
  "find_tx_in_batch txs txid = Inr t \<Longrightarrow> t \<in> set txs \<and> ct_txid t = txid"
  by (auto simp: find_tx_in_batch_def find_Some_iff split: option.splits)

lemma find_tx_in_batch_total: "txid \<in> ct_txid ` set txs \<Longrightarrow> \<exists>t. find_tx_in_batch txs txid = Inr t"
  by (auto simp: find_tx_in_batch_def find_None_iff split: option.splits)

end
