(* ===== verification/Settings.thy ===== *)
theory Settings
  imports Coordinator_Types
begin

text \<open>
  The constants of \<open>src/config/settings.rs\<close> and the settings of \<open>src/config/configs.rs\<close>
  with their defaults and their validation. Loading the YAML file
  (\<open>Config::load_config\<close>) is the parser of another crate followed by the validation.
\<close>

section \<open>settings.rs\<close>

definition CPFP_TRANSACTION_CONTEXT :: string where
  "CPFP_TRANSACTION_CONTEXT = ''CPFP_TRANSACTION''"

definition RBF_TRANSACTION_CONTEXT :: string where
  "RBF_TRANSACTION_CONTEXT = ''RBF_TRANSACTION''"

definition DEFAULT_MAX_UNCONFIRMED_SPEEDUPS :: u32 where
  "DEFAULT_MAX_UNCONFIRMED_SPEEDUPS = 10"

definition MAX_LIMIT_UNCONFIRMED_PARENTS :: u32 where
  "MAX_LIMIT_UNCONFIRMED_PARENTS = 25"

definition DEFAULT_MAX_TX_WEIGHT :: u64 where
  "DEFAULT_MAX_TX_WEIGHT = 400000"

definition MAX_LIMIT_TX_WEIGHT :: u64 where
  "MAX_LIMIT_TX_WEIGHT = 400000"

definition DEFAULT_MIN_FUNDING_AMOUNT_SATS :: u64 where
  "DEFAULT_MIN_FUNDING_AMOUNT_SATS = 10000"

definition MIN_LIMIT_FUNDING_AMOUNT_SATS :: u64 where
  "MIN_LIMIT_FUNDING_AMOUNT_SATS = 10000"

definition DEFAULT_MIN_BLOCKS_BEFORE_RESEND_SPEEDUP :: u32 where
  "DEFAULT_MIN_BLOCKS_BEFORE_RESEND_SPEEDUP = 1"

definition MAX_MIN_BLOCKS_BEFORE_RESEND_SPEEDUP :: u32 where
  "MAX_MIN_BLOCKS_BEFORE_RESEND_SPEEDUP = 3"

definition DEFAULT_MAX_FEERATE_SAT_VB :: u64 where
  "DEFAULT_MAX_FEERATE_SAT_VB = 1000"

definition MAX_LIMIT_FEERATE_SAT_VB :: u64 where
  "MAX_LIMIT_FEERATE_SAT_VB = 1000"

definition DEFAULT_BASE_FEE_MULTIPLIER :: f64 where
  "DEFAULT_BASE_FEE_MULTIPLIER = Fin 1"

definition MAX_BASE_FEE_MULTIPLIER :: f64 where
  "MAX_BASE_FEE_MULTIPLIER = Fin 100"

definition DEFAULT_BUMP_FEE_PERCENTAGE :: f64 where
  "DEFAULT_BUMP_FEE_PERCENTAGE = Fin (3 / 2)"

definition MAX_BUMP_FEE_PERCENTAGE :: f64 where
  "MAX_BUMP_FEE_PERCENTAGE = Fin 100"

definition DEFAULT_RETRY_INTERVAL_SECONDS :: u64 where
  "DEFAULT_RETRY_INTERVAL_SECONDS = 5"

definition MAX_RETRY_INTERVAL_SECONDS :: u64 where
  "MAX_RETRY_INTERVAL_SECONDS = 300"

definition DEFAULT_RETRY_ATTEMPTS_SENDING_TX :: u32 where
  "DEFAULT_RETRY_ATTEMPTS_SENDING_TX = 3"

definition DEFAULT_MIN_SAFE_FEE_RATE :: u64 where
  "DEFAULT_MIN_SAFE_FEE_RATE = 1"

definition DEFAULT_MAX_TRACKING_CONFIRMATIONS :: u32 where
  "DEFAULT_MAX_TRACKING_CONFIRMATIONS = 10"

lemmas settings_constants =
  DEFAULT_MAX_UNCONFIRMED_SPEEDUPS_def MAX_LIMIT_UNCONFIRMED_PARENTS_def
  DEFAULT_MAX_TX_WEIGHT_def MAX_LIMIT_TX_WEIGHT_def
  DEFAULT_MIN_FUNDING_AMOUNT_SATS_def MIN_LIMIT_FUNDING_AMOUNT_SATS_def
  DEFAULT_MIN_BLOCKS_BEFORE_RESEND_SPEEDUP_def MAX_MIN_BLOCKS_BEFORE_RESEND_SPEEDUP_def
  DEFAULT_MAX_FEERATE_SAT_VB_def MAX_LIMIT_FEERATE_SAT_VB_def
  DEFAULT_BASE_FEE_MULTIPLIER_def MAX_BASE_FEE_MULTIPLIER_def
  DEFAULT_BUMP_FEE_PERCENTAGE_def MAX_BUMP_FEE_PERCENTAGE_def
  DEFAULT_RETRY_INTERVAL_SECONDS_def MAX_RETRY_INTERVAL_SECONDS_def
  DEFAULT_RETRY_ATTEMPTS_SENDING_TX_def DEFAULT_MIN_SAFE_FEE_RATE_def
  DEFAULT_MAX_TRACKING_CONFIRMATIONS_def

section \<open>configs.rs\<close>

record coordinator_settings =
  retry_interval_seconds :: u64
  retry_attempts_sending_tx :: u32

record dispatcher_settings =
  max_tx_weight :: u64

record fee_settings =
  max_feerate_sat_vb :: u64
  base_fee_multiplier_setting :: f64
  min_safe_fee_rate :: u64

record speedup_settings =
  max_unconfirmed_speedups :: u32
  min_blocks_before_resend_speedup :: u32
  bump_fee_percentage :: f64

record funding_settings =
  min_funding_amount_sats :: u64

record coordinator_storage_settings =
  max_tracking_confirmations :: u32

text \<open>
  \<open>BitcoinSettings\<close>. Of the monitor's settings, a type of another crate, the code reads
  \<open>max_monitoring_confirmations\<close>.
\<close>

record bitcoin_settings =
  bs_coordinator :: coordinator_settings
  bs_dispatcher :: dispatcher_settings
  bs_fee :: fee_settings
  bs_speedup :: speedup_settings
  bs_funding :: funding_settings
  bs_storage :: coordinator_storage_settings
  max_monitoring_confirmations :: u32

definition default_coordinator_settings :: coordinator_settings where
  "default_coordinator_settings =
     \<lparr>retry_interval_seconds = DEFAULT_RETRY_INTERVAL_SECONDS,
      retry_attempts_sending_tx = DEFAULT_RETRY_ATTEMPTS_SENDING_TX\<rparr>"

definition default_dispatcher_settings :: dispatcher_settings where
  "default_dispatcher_settings = \<lparr>max_tx_weight = DEFAULT_MAX_TX_WEIGHT\<rparr>"

definition default_fee_settings :: fee_settings where
  "default_fee_settings =
     \<lparr>max_feerate_sat_vb = DEFAULT_MAX_FEERATE_SAT_VB,
      base_fee_multiplier_setting = DEFAULT_BASE_FEE_MULTIPLIER,
      min_safe_fee_rate = DEFAULT_MIN_SAFE_FEE_RATE\<rparr>"

definition default_speedup_settings :: speedup_settings where
  "default_speedup_settings =
     \<lparr>max_unconfirmed_speedups = DEFAULT_MAX_UNCONFIRMED_SPEEDUPS,
      min_blocks_before_resend_speedup = DEFAULT_MIN_BLOCKS_BEFORE_RESEND_SPEEDUP,
      bump_fee_percentage = DEFAULT_BUMP_FEE_PERCENTAGE\<rparr>"

definition default_funding_settings :: funding_settings where
  "default_funding_settings = \<lparr>min_funding_amount_sats = DEFAULT_MIN_FUNDING_AMOUNT_SATS\<rparr>"

definition default_storage_settings :: coordinator_storage_settings where
  "default_storage_settings = \<lparr>max_tracking_confirmations = DEFAULT_MAX_TRACKING_CONFIRMATIONS\<rparr>"

text \<open>The default of the whole, for a given default of the monitor's setting.\<close>

definition default_bitcoin_settings :: "u32 \<Rightarrow> bitcoin_settings" where
  "default_bitcoin_settings monitor_default =
     \<lparr>bs_coordinator = default_coordinator_settings,
      bs_dispatcher = default_dispatcher_settings,
      bs_fee = default_fee_settings,
      bs_speedup = default_speedup_settings,
      bs_funding = default_funding_settings,
      bs_storage = default_storage_settings,
      max_monitoring_confirmations = monitor_default\<rparr>"

text \<open>The macro \<open>ensure!\<close>: go on with the rest, or return \<open>InvalidConfiguration\<close>.\<close>

definition ensure :: "bool \<Rightarrow> string \<Rightarrow> unit result \<Rightarrow> unit result" where
  "ensure c msg rest = (if \<not> c then Inl (Err (InvalidConfiguration msg)) else rest)"

definition validate_settings :: "bitcoin_settings \<Rightarrow> unit result" where
  "validate_settings s =
     (let sp = bs_speedup s; fe = bs_fee s in
      ensure (0 < max_unconfirmed_speedups sp
                \<and> max_unconfirmed_speedups sp \<le> MAX_LIMIT_UNCONFIRMED_PARENTS)
        ''invalid max_unconfirmed_speedups''
      (ensure (0 < max_tx_weight (bs_dispatcher s)
                \<and> max_tx_weight (bs_dispatcher s) \<le> MAX_LIMIT_TX_WEIGHT)
        ''invalid max_tx_weight''
      (ensure (MIN_LIMIT_FUNDING_AMOUNT_SATS \<le> min_funding_amount_sats (bs_funding s))
        ''funding below dust threshold''
      (ensure (0 < min_blocks_before_resend_speedup sp
                \<and> min_blocks_before_resend_speedup sp \<le> MAX_MIN_BLOCKS_BEFORE_RESEND_SPEEDUP)
        ''invalid min_blocks_before_resend_speedup''
      (ensure (0 < max_feerate_sat_vb fe \<and> max_feerate_sat_vb fe \<le> MAX_LIMIT_FEERATE_SAT_VB)
        ''invalid max_feerate_sat_vb''
      (ensure (f64_less (Fin 0) (base_fee_multiplier_setting fe)
                \<and> f64_le (base_fee_multiplier_setting fe) MAX_BASE_FEE_MULTIPLIER)
        ''invalid base_fee_multiplier''
      (ensure (f64_le (Fin 1) (bump_fee_percentage sp)
                \<and> f64_le (bump_fee_percentage sp) MAX_BUMP_FEE_PERCENTAGE)
        ''invalid bump_fee_percentage''
      (ensure (0 < retry_interval_seconds (bs_coordinator s)
                \<and> retry_interval_seconds (bs_coordinator s) \<le> MAX_RETRY_INTERVAL_SECONDS)
        ''invalid retry_interval_seconds''
      (ensure (1 \<le> min_safe_fee_rate fe)
        ''min_safe_fee_rate must be at least 1 sat/vB''
      (ensure (min_safe_fee_rate fe \<le> max_feerate_sat_vb fe)
        ''min_safe_fee_rate cannot exceed max_feerate_sat_vb''
      (Inr ())))))))))))"

section \<open>Loading\<close>

text \<open>
  \<open>Config\<close>: the settings of three other crates, which are opaque, and the settings of this
  one. Reading and parsing the file is \<open>load_config_file\<close> of another crate, a parameter; a
  file that cannot be read or parsed is its error.
\<close>

record ('st, 'rpc, 'km) config =
  cfg_storage :: 'st
  cfg_rpc :: 'rpc
  cfg_key_manager :: 'km
  cfg_settings :: bitcoin_settings

definition load_config ::
    "(string \<Rightarrow> string + ('st, 'rpc, 'km) config) \<Rightarrow> string \<Rightarrow> ('st, 'rpc, 'km) config result" where
  "load_config load_config_file path =
     (case load_config_file path of
        Inl e \<Rightarrow> Inl (Err (InvalidConfiguration e))
      | Inr cfg \<Rightarrow> (case validate_settings (cfg_settings cfg) of Inl e \<Rightarrow> Inl e | Inr _ \<Rightarrow> Inr cfg))"

section \<open>What validation promises\<close>

lemma ensure_Inr [simp]: "ensure c msg rest = Inr u \<longleftrightarrow> c \<and> rest = Inr u"
  by (simp add: ensure_def)

text \<open>The bounds every later computation may rely on once the settings were accepted.\<close>

definition valid_settings :: "bitcoin_settings \<Rightarrow> bool" where
  "valid_settings s \<longleftrightarrow>
     max_unconfirmed_speedups (bs_speedup s) \<in> {1..25}
     \<and> max_tx_weight (bs_dispatcher s) \<in> {1..400000}
     \<and> 10000 \<le> min_funding_amount_sats (bs_funding s)
     \<and> min_blocks_before_resend_speedup (bs_speedup s) \<in> {1..3}
     \<and> max_feerate_sat_vb (bs_fee s) \<in> {1..1000}
     \<and> (\<exists>r. base_fee_multiplier_setting (bs_fee s) = Fin r \<and> 0 < r \<and> r \<le> 100)
     \<and> (\<exists>r. bump_fee_percentage (bs_speedup s) = Fin r \<and> 1 \<le> r \<and> r \<le> 100)
     \<and> retry_interval_seconds (bs_coordinator s) \<in> {1..300}
     \<and> min_safe_fee_rate (bs_fee s) \<in> {1..max_feerate_sat_vb (bs_fee s)}"

lemma f64_between:
  "f64_less (Fin 0) x \<and> f64_le x (Fin b) \<longleftrightarrow> (\<exists>r. x = Fin r \<and> 0 < r \<and> r \<le> b)"
  "f64_le (Fin a) x \<and> f64_le x (Fin b) \<longleftrightarrow> (\<exists>r. x = Fin r \<and> a \<le> r \<and> r \<le> b)"
  by (cases x; simp)+

lemma word_positive_iff: "(0 :: 'a::len word) < w \<longleftrightarrow> 1 \<le> w"
  by (simp add: word_less_nat_alt word_le_nat_alt Suc_le_eq)

lemma validate_settings_valid: "validate_settings s = Inr () \<longleftrightarrow> valid_settings s"
  unfolding validate_settings_def valid_settings_def Let_def ensure_Inr settings_constants
    f64_between atLeastAtMost_iff word_positive_iff
  by blast

lemma ensure_error: "ensure c msg rest = Inl e \<Longrightarrow> (\<exists>m. e = Err (InvalidConfiguration m)) \<or> rest = Inl e"
  by (auto simp: ensure_def split: if_splits)

lemma validate_settings_error: "validate_settings s = Inl e \<Longrightarrow> \<exists>m. e = Err (InvalidConfiguration m)"
  unfolding validate_settings_def Let_def
  by (elim ensure_error [THEN disjE] | simp)+

text \<open>
  \<open>BitcoinSettings::validate\<close> accepts exactly the settings inside the documented
  bounds: at most 25 unconfirmed speedups, a positive weight limit of at most 400000, a
  funding minimum of at least 10000 sats, a resend distance of 1 to 3 blocks, a fee rate
  cap of 1 to 1000 sat/vB not below the safe rate of at least 1, a finite positive base
  multiplier of at most 100, a finite bump factor of 1 to 100 and a retry interval of 1 to
  300 seconds. In particular a NaN or infinite multiplier is refused.
\<close>

lemma validate_settings_iff: "validate_settings s = Inr () \<longleftrightarrow> valid_settings s"
  by (rule validate_settings_valid)

lemma default_settings_valid: "valid_settings (default_bitcoin_settings m)"
  by (simp add: valid_settings_def default_bitcoin_settings_def default_coordinator_settings_def
     default_dispatcher_settings_def default_fee_settings_def default_speedup_settings_def
     default_funding_settings_def default_storage_settings_def settings_constants)
    (auto intro: exI [of _ "3 / 2"])

end
