(* ===== verification/Fee.thy ===== *)
theory Fee
  imports Helpers Settings
begin

text \<open>
  \<open>FeeManager\<close> of \<open>src/core/fee.rs\<close>, whose state is its settings: the recorded fees of a
  transaction, the network fee rate, the floor of a boost and the fee of a speedup. The
  arithmetic is that of 64-bit words; the results say when it is exact.
\<close>

definition MIN_RELAY_FEE_RATE :: u64 where
  "MIN_RELAY_FEE_RATE = 1"

section \<open>Recorded fees\<close>

definition compute_fee_for_tx :: "transaction \<Rightarrow> u64 \<Rightarrow> fee_info" where
  "compute_fee_for_tx tx fee_rate =
     \<lparr>fi_fee = tx_vsize tx * fee_rate, fi_fee_rate = fee_rate, fi_package_fee_rate = fee_rate,
      fi_weight = tx_weight tx\<rparr>"

definition compute_fee :: "coordinated_tx \<Rightarrow> u64 \<Rightarrow> fee_info" where
  "compute_fee t network_fee_rate = compute_fee_for_tx (ct_tx t) network_fee_rate"

definition fee_info_for_paid_speedup :: "transaction \<Rightarrow> u64 \<Rightarrow> u64 \<Rightarrow> fee_info" where
  "fee_info_for_paid_speedup tx fee_paid parent_vbytes =
     (let child_vsize = tx_vsize tx;
          parent_credit = parent_vbytes * MIN_RELAY_FEE_RATE;
          package_vsize = parent_vbytes + child_vsize
      in \<lparr>fi_fee = fee_paid,
          fi_fee_rate = unwrap_or (checked_div fee_paid child_vsize) 0,
          fi_package_fee_rate = unwrap_or (checked_div (parent_credit + fee_paid) package_vsize) 0,
          fi_weight = tx_weight tx\<rparr>)"

section \<open>Rates\<close>

text \<open>\<open>estimate\<close> is \<open>monitor.get_estimated_fee_rate().ok()\<close>.\<close>

definition get_network_fee_rate :: "fee_settings \<Rightarrow> u64 option \<Rightarrow> u64 \<times> coordinator_news option" where
  "get_network_fee_rate settings estimate =
     (let rate = (case estimate of
                    Some r \<Rightarrow> if min_safe_fee_rate settings \<le> r then r else min_safe_fee_rate settings
                  | None \<Rightarrow> min_safe_fee_rate settings)
      in if max_feerate_sat_vb settings < rate
         then (max_feerate_sat_vb settings,
               Some (EstimateFeerateTooHigh rate (max_feerate_sat_vb settings)))
         else (rate, None))"

definition base_fee_multiplier :: "fee_settings \<Rightarrow> f64" where
  "base_fee_multiplier settings = base_fee_multiplier_setting settings"

definition boost_fee_rate :: "u64 \<Rightarrow> u64 \<Rightarrow> u64" where
  "boost_fee_rate network_rate predecessor_rate =
     max network_rate (saturating_add predecessor_rate 1)"

section \<open>The fee of a speedup\<close>

definition chain_fee_step :: "u64 \<Rightarrow> u64 \<Rightarrow> coordinated_tx \<Rightarrow> u64 \<times> u64 \<Rightarrow> u64 \<times> u64" where
  "chain_fee_step new_fee_rate last_fee_rate_used t = (\<lambda>(fee_diff, chain_vsize).
     let vsize = tx_vsize (ct_tx t);
         rate_diff = saturating_sub new_fee_rate last_fee_rate_used
     in (fee_diff + vsize * rate_diff, chain_vsize + vsize))"

definition chain_fee_diff :: "u64 \<Rightarrow> coordinated_tx list \<Rightarrow> u64 \<times> u64" where
  "chain_fee_diff new_fee_rate unconfirmed_speedups =
     (if unconfirmed_speedups = [] then (0, 0)
      else fold (chain_fee_step new_fee_rate
                  (fi_package_fee_rate (ct_fee_info (last unconfirmed_speedups))))
             unconfirmed_speedups (0, 0))"

text \<open>The fee before the multiplier, and the ceiling on the child's fee.\<close>

definition base_speedup_fee :: "u64 \<Rightarrow> u64 \<Rightarrow> u64 \<Rightarrow> bool \<Rightarrow> u64 \<Rightarrow> u64" where
  "base_speedup_fee parent_vbytes child_vsize fee_rate rbf chain_diff_fee =
     (let child_total_sats = child_vsize * fee_rate;
          parent_already_paid = parent_vbytes * MIN_RELAY_FEE_RATE;
          package_fee = saturating_sub ((parent_vbytes + child_vsize) * fee_rate) parent_already_paid;
          total_fee = (if rbf \<and> package_fee < child_total_sats * 2 then child_total_sats * 2
                       else package_fee)
      in total_fee + chain_diff_fee)"

definition speedup_fee_cap :: "fee_settings \<Rightarrow> u64 \<Rightarrow> u64 \<Rightarrow> u64" where
  "speedup_fee_cap settings parent_vbytes child_vsize =
     saturating_sub (saturating_mul (max_feerate_sat_vb settings) (parent_vbytes + child_vsize))
       (parent_vbytes * MIN_RELAY_FEE_RATE)"

definition compute_speedup_fee ::
    "fee_settings \<Rightarrow> u64 list \<Rightarrow> u64 \<Rightarrow> f64 \<Rightarrow> u64 \<Rightarrow> bool \<Rightarrow> u64 \<Rightarrow> u64 \<times> bool" where
  "compute_speedup_fee settings parent_vsizes child_vsize bump_fee fee_rate rbf chain_diff_fee =
     (let parent_vbytes = sum_list parent_vsizes;
          total_fee = base_speedup_fee parent_vbytes child_vsize fee_rate rbf chain_diff_fee;
          final_fee = u64_of_f64 (f64_ceil (f64_mul (f64_of_u64 total_fee) bump_fee));
          cap = speedup_fee_cap settings parent_vbytes child_vsize
      in if cap < final_fee then (cap, True) else (final_fee, False))"

section \<open>Facts\<close>

lemma network_rate_in_range:
  assumes "min_safe_fee_rate settings \<le> max_feerate_sat_vb settings"
  shows "fst (get_network_fee_rate settings e) \<in> {min_safe_fee_rate settings .. max_feerate_sat_vb settings}"
  using assms by (auto simp: get_network_fee_rate_def Let_def not_less split: option.splits)

lemma unat_boost_fee_rate:
  "unat (boost_fee_rate n p) = max (unat n) (min (unat p + 1) (2 ^ 64 - 1))"
proof -
  have "unat (max n (saturating_add p 1)) = max (unat n) (unat (saturating_add p 1))"
    by (simp add: max_def word_le_nat_alt)
  then show ?thesis by (simp add: boost_fee_rate_def unat_saturating_add)
qed

lemma chain_fee_step_fold:
  "fold (chain_fee_step r l) ts (a, b) =
     (a + sum_list (map (\<lambda>t. tx_vsize (ct_tx t)) ts) * saturating_sub r l,
      b + sum_list (map (\<lambda>t. tx_vsize (ct_tx t)) ts))"
  by (induction ts arbitrary: a b) (simp_all add: chain_fee_step_def Let_def algebra_simps)

lemma chain_fee_diff_eq:
  "chain_fee_diff r ts =
     (let v = sum_list (map (\<lambda>t. tx_vsize (ct_tx t)) ts) in
      (if ts = [] then 0
       else v * saturating_sub r (fi_package_fee_rate (ct_fee_info (last ts))), v))"
  by (simp add: chain_fee_diff_def chain_fee_step_fold Let_def)

lemma speedup_fee_le_cap:
  "compute_speedup_fee st ps c b r rbf d = (fee, capped) \<Longrightarrow> fee \<le> speedup_fee_cap st (sum_list ps) c"
  by (auto simp: compute_speedup_fee_def Let_def split: if_splits)

lemma unat_speedup_fee_cap:
  "unat (speedup_fee_cap st p c) =
     min (unat (max_feerate_sat_vb st) * unat (p + c)) (2 ^ 64 - 1) - unat p"
  by (simp add: speedup_fee_cap_def unat_saturating_sub unat_saturating_mul MIN_RELAY_FEE_RATE_def)

lemma unat_base_speedup_fee:
  assumes "unat p + unat c < 2 ^ 64"
    and "(unat p + 2 * unat c) * unat r + unat d < 2 ^ 64"
  shows "unat (base_speedup_fee p c r rbf d) =
    (let package = (unat p + unat c) * unat r - unat p
     in (if rbf then max package (2 * unat c * unat r) else package) + unat d)"
proof -
  let ?P = "unat p" and ?C = "unat c" and ?R = "unat r"
  have b1: "(?P + ?C) * ?R < 2 ^ 64" and b2: "?C * ?R * 2 < 2 ^ 64"
    and b4: "(?P + ?C) * ?R + unat d < 2 ^ 64" and b5: "?C * ?R * 2 + unat d < 2 ^ 64"
    using assms(2) by (simp_all add: algebra_simps)
  have pc: "unat (p + c) = ?P + ?C" using assms(1) by (intro unat_add_exact) simp
  have w1: "unat ((p + c) * r) = (?P + ?C) * ?R"
    using unat_mult_exact [of "p + c" r] b1 by (simp add: pc)
  have c1: "unat (c * r) = ?C * ?R"
    using unat_mult_exact [of c r] b2 by simp
  have w2: "unat (c * r * 2) = 2 * ?C * ?R"
    using unat_mult_exact [of "c * r" 2] b2 by (simp add: c1)
  define pk where "pk = saturating_sub ((p + c) * r) p"
  have pk: "unat pk = (?P + ?C) * ?R - ?P"
    by (simp add: pk_def unat_saturating_sub w1)
  define tot where "tot = (if rbf \<and> pk < c * r * 2 then c * r * 2 else pk)"
  have tot: "unat tot = (if rbf then max (unat pk) (2 * ?C * ?R) else unat pk)"
    by (auto simp: tot_def w2 word_less_nat_alt)
  have lt: "unat tot + unat d < 2 ^ 64"
    using b4 b5 unfolding tot pk by (auto simp: max_def algebra_simps)
  have "base_speedup_fee p c r rbf d = tot + d"
    by (simp add: base_speedup_fee_def Let_def MIN_RELAY_FEE_RATE_def pk_def tot_def)
  then show ?thesis using lt by (simp add: unat_add_exact tot pk Let_def)
qed

section \<open>What a speedup pays\<close>

text \<open>The rate of the package that the recorded fee information states.\<close>

lemma unat_package_rate:
  assumes "unat p + tx_size < 2 ^ 64" and "tx_size = unat (tx_vsize tx)"
    and "unat p + unat fee < 2 ^ 64"
  shows "unat (fi_package_fee_rate (fee_info_for_paid_speedup tx fee p)) =
    (unat p + unat fee) div (unat p + tx_size)"
proof -
  have s: "unat (p + tx_vsize tx) = unat p + tx_size"
    using assms by (simp add: unat_add_exact)
  have f: "unat (p + fee) = unat p + unat fee"
    using assms by (intro unat_add_exact) simp
  show ?thesis
  proof (cases "p + tx_vsize tx = 0")
    case True
    then have "unat p + tx_size = 0" using s by simp
    then show ?thesis using True
      by (simp add: fee_info_for_paid_speedup_def Let_def checked_div_def)
  next
    case False
    then have "fi_package_fee_rate (fee_info_for_paid_speedup tx fee p) = (p + fee) div (p + tx_vsize tx)"
      by (simp add: fee_info_for_paid_speedup_def Let_def checked_div_def MIN_RELAY_FEE_RATE_def)
    then show ?thesis by (simp add: unat_div s f)
  qed
qed

lemma speedup_fee_fits:
  assumes pc: "unat p + unat c < 2 ^ 64" and m: "1 \<le> max_feerate_sat_vb st"
    and fee: "fee \<le> speedup_fee_cap st p c"
  shows "unat p + unat fee < 2 ^ 64"
    and "unat p + unat fee \<le> unat (max_feerate_sat_vb st) * (unat p + unat c)"
proof -
  have m1: "1 \<le> unat (max_feerate_sat_vb st)" using m by (simp add: word_le_nat_alt)
  have s: "unat (p + c) = unat p + unat c" using pc by (intro unat_add_exact) simp
  have le: "unat p + unat c \<le> unat (max_feerate_sat_vb st) * (unat p + unat c)"
    using m1 by (metis mult_le_mono1 mult_1)
  have f: "unat fee \<le> min (unat (max_feerate_sat_vb st) * (unat p + unat c)) (2 ^ 64 - 1) - unat p"
    using fee by (simp add: word_le_nat_alt unat_speedup_fee_cap s)
  have p: "unat p \<le> min (unat (max_feerate_sat_vb st) * (unat p + unat c)) (2 ^ 64 - 1)"
    using le pc by linarith
  have "unat p + unat fee \<le> min (unat (max_feerate_sat_vb st) * (unat p + unat c)) (2 ^ 64 - 1)"
    using f p by linarith
  then show "unat p + unat fee < 2 ^ 64"
    and "unat p + unat fee \<le> unat (max_feerate_sat_vb st) * (unat p + unat c)"
    by simp_all
qed

text \<open>
  C17. The fee cap bounds the package: let the fee be computed for a speedup of \<open>vsize\<close> virtual bytes, with whatever
  fee rate, multiplier (also NaN or an infinity), RBF flag and chain fee, and also where the intermediate
  arithmetic wraps, and be recorded for a transaction that is not larger. Then the recorded package rate times
  the actual size of the package is at most \<open>max_feerate_sat_vb\<close> times the size it was computed for; so it is at
  most \<open>max_feerate_sat_vb\<close> when the transaction has exactly that size. The virtual sizes of the package add up
  within 64 bits and the configured maximum is positive, as validation demands.
\<close>

theorem speedup_package_rate_capped:
  assumes "unat (sum_list parent_vsizes) + unat vsize < 2 ^ 64" and "tx_vsize tx \<le> vsize"
    and "1 \<le> max_feerate_sat_vb settings"
    and "compute_speedup_fee settings parent_vsizes vsize bump_fee fee_rate rbf chain_fee = (fee, capped)"
    and "rate = fi_package_fee_rate (fee_info_for_paid_speedup tx fee (sum_list parent_vsizes))"
  shows "unat rate * (unat (sum_list parent_vsizes) + unat (tx_vsize tx))
      \<le> unat (max_feerate_sat_vb settings) * (unat (sum_list parent_vsizes) + unat vsize)
    \<and> (tx_vsize tx = vsize \<longrightarrow> rate \<le> max_feerate_sat_vb settings)"
proof -
  define p where "p = sum_list parent_vsizes"
  have v: "unat (tx_vsize tx) \<le> unat vsize" using assms(2) by (simp add: word_le_nat_alt)
  note fits = speedup_fee_fits [OF assms(1,3) speedup_fee_le_cap [OF assms(4)], folded p_def]
  have rate: "unat rate = (unat p + unat fee) div (unat p + unat (tx_vsize tx))"
    unfolding assms(5) p_def [symmetric]
    by (rule unat_package_rate) (use assms(1) v fits(1) in \<open>simp_all add: p_def\<close>)
  have "unat rate * (unat p + unat (tx_vsize tx)) \<le> unat p + unat fee" unfolding rate by (rule div_times_less_eq_dividend)
  moreover have "rate \<le> max_feerate_sat_vb settings" if eq: "tx_vsize tx = vsize"
    using div_le_mono [OF fits(2), of "unat p + unat vsize"] unfolding word_le_nat_alt rate eq
    by (auto split: if_splits)
  ultimately show ?thesis using fits(2) unfolding p_def by linarith
qed

text \<open>
  A fee of 150000 sats, capped for 150 virtual bytes: the recorded rate is the maximum of 1000 for a transaction of that
  size, and 1006 for one that turns out a byte smaller.
\<close>

lemma capped_fee: "compute_speedup_fee default_fee_settings [] 150 (Fin 1) 2000 False 0 = (150000, True)"
proof -
  have base: "base_speedup_fee 0 150 2000 False 0 = 300000"
    by (simp add: base_speedup_fee_def Let_def MIN_RELAY_FEE_RATE_def saturating_sub_def)
  have fin: "u64_of_f64 (f64_ceil (f64_mul (f64_of_u64 300000) (Fin 1))) = 300000"
    by (rule ceil_mul_one) simp
  have cap: "speedup_fee_cap default_fee_settings 0 150 = 150000"
    by (simp add: speedup_fee_cap_def MIN_RELAY_FEE_RATE_def saturating_sub_def saturating_mul_def
      default_fee_settings_def settings_constants)
  show ?thesis by (simp add: compute_speedup_fee_def base fin cap)
qed

lemma recorded_rate_above_maximum:
  "fi_package_fee_rate (fee_info_for_paid_speedup
     \<lparr>tx_input = [], tx_output = [], tx_vsize = 149, tx_weight = 596, tx_compute_txid = 1\<rparr> 150000 (sum_list [])) = 1006"
  "max_feerate_sat_vb default_fee_settings = 1000"
  by (simp_all add: fee_info_for_paid_speedup_def Let_def checked_div_def default_fee_settings_def settings_constants)

theorem speedup_package_rate_capped_witness:
  "fi_package_fee_rate (fee_info_for_paid_speedup
      \<lparr>tx_input = [], tx_output = [], tx_vsize = 150, tx_weight = 600, tx_compute_txid = 1\<rparr> 150000 (sum_list [])) \<le> 1000
   \<and> unat (fi_package_fee_rate (fee_info_for_paid_speedup
      \<lparr>tx_input = [], tx_output = [], tx_vsize = 149, tx_weight = 596, tx_compute_txid = 1\<rparr> 150000 (sum_list []))) * 149 \<le> 150000"
proof -
  have fits: "unat (sum_list [] :: u64) + unat (150 :: u64) < 2 ^ 64" "1 \<le> max_feerate_sat_vb default_fee_settings"
    by (simp_all add: recorded_rate_above_maximum(2))
  show ?thesis
    using speedup_package_rate_capped [OF fits(1) _ fits(2) capped_fee refl,
        of "\<lparr>tx_input = [], tx_output = [], tx_vsize = 150, tx_weight = 600, tx_compute_txid = 1\<rparr>"]
      speedup_package_rate_capped [OF fits(1) _ fits(2) capped_fee refl,
        of "\<lparr>tx_input = [], tx_output = [], tx_vsize = 149, tx_weight = 596, tx_compute_txid = 1\<rparr>"]
    by (simp add: recorded_rate_above_maximum(2))
qed

text \<open>The fee of a speedup that was not capped, with a multiplier of at least one.\<close>

lemma uncapped_fee_at_least:
  assumes pc: "unat (sum_list ps) + unat c < 2 ^ 64"
    and bound: "(unat (sum_list ps) + 2 * unat c) * unat r + unat d \<le> 2 ^ 53"
    and b: "f64_le (Fin 1) b"
    and run: "compute_speedup_fee st ps c b r rbf d = (fee, False)"
  shows "(unat (sum_list ps) + unat c) * unat r - unat (sum_list ps) + unat d \<le> unat fee
    \<and> (rbf \<longrightarrow> 2 * unat c * unat r + unat d \<le> unat fee)"
proof -
  define p where "p = sum_list ps"
  define base where "base = base_speedup_fee p c r rbf d"
  have ubase: "unat base = (if rbf then max ((unat p + unat c) * unat r - unat p) (2 * unat c * unat r)
      else (unat p + unat c) * unat r - unat p) + unat d"
    unfolding base_def using unat_base_speedup_fee [of p c r d rbf] pc bound
    by (simp add: p_def Let_def)
  have "unat base \<le> (unat p + 2 * unat c) * unat r + unat d"
    unfolding ubase by (simp add: algebra_simps)
  then have "unat base \<le> 2 ^ 53" using bound by (simp add: p_def)
  from ceil_mul_at_least [OF this b] have "unat base \<le> unat fee"
    using run by (auto simp: compute_speedup_fee_def Let_def p_def base_def split: if_splits)
  then show ?thesis unfolding ubase by (auto simp: p_def max_def split: if_splits)
qed

text \<open>
  C13. A boost outbids the speedup it boosts, when the multiplier is at least one and the fee is not capped: let the
  rate of the boost be \<open>boost_fee_rate\<close> of the network rate and of the recorded package rate of its
  predecessor, let its fee be computed for a size that is at least that of the transaction. Then the package rate
  recorded for the boost is at least the network rate and strictly above the predecessor's, and a replacement (RBF)
  pays at least twice the size its fee was computed for at the rate of the boost. The bound says that the fee before the
  multiplier is at most \<open>2 ^ 53\<close> sats, above the number of sats in existence, so that nothing wraps and
  the conversion to \<open>f64\<close> is exact.
\<close>

theorem boost_outbids_predecessor:
  assumes "unat (sum_list parent_vsizes) + unat vsize < 2 ^ 64" and "0 < tx_vsize tx" and "tx_vsize tx \<le> vsize"
    and "(unat (sum_list parent_vsizes) + 2 * unat vsize)
           * unat (boost_fee_rate network_rate predecessor_rate) + unat chain_fee \<le> 2 ^ 53"
    and "f64_le (Fin 1) bump_fee" and "1 \<le> max_feerate_sat_vb settings"
    and "compute_speedup_fee settings parent_vsizes vsize bump_fee
           (boost_fee_rate network_rate predecessor_rate) rbf chain_fee = (fee, False)"
  shows "network_rate \<le> fi_package_fee_rate (fee_info_for_paid_speedup tx fee (sum_list parent_vsizes))
    \<and> predecessor_rate < fi_package_fee_rate (fee_info_for_paid_speedup tx fee (sum_list parent_vsizes))
    \<and> (rbf \<longrightarrow> 2 * unat vsize * unat (boost_fee_rate network_rate predecessor_rate) \<le> unat fee)"
proof -
  define p r where "p = sum_list parent_vsizes" and "r = boost_fee_rate network_rate predecessor_rate"
  note a = assms [folded p_def r_def]
  have size: "0 < unat (tx_vsize tx)" "unat (tx_vsize tx) \<le> unat vsize"
    using a(2,3) by (simp_all add: word_less_nat_alt word_le_nat_alt)
  have "unat r \<le> (unat p + 2 * unat vsize) * unat r" using size by simp
  then have r53: "unat r \<le> 2 ^ 53" using a(4) by linarith
  then have r: "unat network_rate \<le> unat r" "unat predecessor_rate + 1 \<le> unat r"
    unfolding r_def unat_boost_fee_rate by (simp_all add: max_def min_def split: if_splits)
  note paid = uncapped_fee_at_least [OF a(1) [unfolded p_def] a(4) [unfolded p_def] a(5) a(7), folded p_def]
  have fits: "unat p + unat fee < 2 ^ 64"
    using speedup_fee_fits(1) [OF a(1,6)] speedup_fee_le_cap [OF a(7)] unfolding p_def by blast
  have rate: "unat (fi_package_fee_rate (fee_info_for_paid_speedup tx fee p))
      = (unat p + unat fee) div (unat p + unat (tx_vsize tx))"
    by (rule unat_package_rate) (use a(1) size(2) fits in simp_all)
  have "unat r * (unat p + unat (tx_vsize tx)) \<le> unat r * (unat p + unat vsize)" using size(2) by simp
  also have "\<dots> \<le> unat p + unat fee" using paid by (auto simp: mult.commute)
  finally have "unat r \<le> (unat p + unat fee) div (unat p + unat (tx_vsize tx))"
    using size(1) by (subst less_eq_div_iff_mult_less_eq) auto
  with rate r have "unat network_rate \<le> unat (fi_package_fee_rate (fee_info_for_paid_speedup tx fee p))"
    "unat predecessor_rate < unat (fi_package_fee_rate (fee_info_for_paid_speedup tx fee p))"
    by linarith+
  moreover have "rbf \<longrightarrow> 2 * unat vsize * unat r \<le> unat fee" using paid by auto
  ultimately show ?thesis
    unfolding p_def [symmetric] r_def [symmetric] word_le_nat_alt word_less_nat_alt by blast
qed

text \<open>
  An RBF of a 150 vB speedup at 10 sat/vB, with a predecessor at 12 sat/vB: the rate is 13,
  the RBF floor \<open>2 * 150 * 13\<close> is above the package fee \<open>(100 + 150) * 13 - 100\<close>. The transaction has 149 vB.
\<close>

theorem boost_outbids_predecessor_witness:
  "\<exists>fee. compute_speedup_fee default_fee_settings [100] 150 (Fin 1) (boost_fee_rate 10 12) True 0 = (fee, False)
     \<and> 12 < fi_package_fee_rate (fee_info_for_paid_speedup
         \<lparr>tx_input = [], tx_output = [], tx_vsize = 149, tx_weight = 596, tx_compute_txid = 1\<rparr> fee (sum_list [100]))
     \<and> fee = 3900"
proof -
  have r: "boost_fee_rate 10 12 = 13"
    by (simp add: boost_fee_rate_def saturating_add_def max_def)
  have base: "base_speedup_fee 100 150 13 True 0 = 3900"
    by (simp add: base_speedup_fee_def Let_def MIN_RELAY_FEE_RATE_def saturating_sub_def)
  have fin: "u64_of_f64 (f64_ceil (f64_mul (f64_of_u64 3900) (Fin 1))) = 3900"
    by (rule ceil_mul_one) simp
  have cap: "speedup_fee_cap default_fee_settings 100 150 = 249900"
    by (simp add: speedup_fee_cap_def MIN_RELAY_FEE_RATE_def saturating_sub_def saturating_mul_def
      default_fee_settings_def settings_constants)
  have run: "compute_speedup_fee default_fee_settings [100] 150 (Fin 1) (boost_fee_rate 10 12) True 0 = (3900, False)"
    by (simp add: compute_speedup_fee_def Let_def r base fin cap)
  show ?thesis
    using boost_outbids_predecessor
      [of "[100]" 150 "\<lparr>tx_input = [], tx_output = [], tx_vsize = 149, tx_weight = 596, tx_compute_txid = 1\<rparr>"
        10 12 0 "Fin 1" default_fee_settings True 3900] run
    by (simp add: r default_fee_settings_def settings_constants)
qed

text \<open>
  With a multiplier below one, which validation accepts, a boost may pay less than its predecessor: a boost of a speedup
  at 12 sat/vB, for a package of 250 vB, pays 6 sat/vB with the multiplier \<open>1/2\<close>, which is the one a boost uses when
  \<open>base_fee_multiplier\<close> is \<open>1/2\<close> and \<open>bump_fee_percentage\<close> is 1.
\<close>

lemma boost_below_predecessor:
  "validate_settings ((default_bitcoin_settings 6)\<lparr>bs_fee := default_fee_settings\<lparr>base_fee_multiplier_setting := Fin (1/2)\<rparr>,
     bs_speedup := default_speedup_settings\<lparr>bump_fee_percentage := Fin 1\<rparr>\<rparr>) = Inr ()"
  "compute_speedup_fee (default_fee_settings\<lparr>base_fee_multiplier_setting := Fin (1/2)\<rparr>) [100] 150 (Fin (1/2))
     (boost_fee_rate 10 12) False 0 = (1575, False)"
  "fi_package_fee_rate (fee_info_for_paid_speedup
     \<lparr>tx_input = [], tx_output = [], tx_vsize = 150, tx_weight = 600, tx_compute_txid = 1\<rparr> 1575 (sum_list [100])) = 6"
proof -
  show "validate_settings ((default_bitcoin_settings 6)\<lparr>bs_fee := default_fee_settings\<lparr>base_fee_multiplier_setting := Fin (1/2)\<rparr>,
     bs_speedup := default_speedup_settings\<lparr>bump_fee_percentage := Fin 1\<rparr>\<rparr>) = Inr ()"
    by (simp add: validate_settings_def ensure_def default_bitcoin_settings_def default_coordinator_settings_def
        default_dispatcher_settings_def default_fee_settings_def default_speedup_settings_def
        default_funding_settings_def default_storage_settings_def settings_constants Let_def)
  have r: "boost_fee_rate 10 12 = 13"
    by (simp add: boost_fee_rate_def saturating_add_def max_def)
  have base: "base_speedup_fee 100 150 13 False 0 = 3150"
    by (simp add: base_speedup_fee_def Let_def MIN_RELAY_FEE_RATE_def saturating_sub_def)
  have f: "f64_of_u64 3150 = Fin 3150" "f64_round 1575 = Fin 1575"
    using round_exact_nat [of 3150] round_exact_nat [of 1575] by (simp_all add: f64_of_u64_def)
  have fin: "u64_of_f64 (f64_ceil (f64_mul (f64_of_u64 3150) (Fin (1/2)))) = 1575"
    by (simp add: f)
  have cap: "speedup_fee_cap (default_fee_settings\<lparr>base_fee_multiplier_setting := Fin (1/2)\<rparr>) 100 150 = 249900"
    by (simp add: speedup_fee_cap_def MIN_RELAY_FEE_RATE_def saturating_sub_def saturating_mul_def
      default_fee_settings_def settings_constants)
  show "compute_speedup_fee (default_fee_settings\<lparr>base_fee_multiplier_setting := Fin (1/2)\<rparr>) [100] 150 (Fin (1/2))
     (boost_fee_rate 10 12) False 0 = (1575, False)"
    by (simp add: compute_speedup_fee_def Let_def r base fin cap)
qed (simp add: fee_info_for_paid_speedup_def Let_def checked_div_def MIN_RELAY_FEE_RATE_def)

end
