(* ===== verification/Store.thy ===== *)
theory Store
  imports Helpers Settings
begin

text \<open>
  \<open>CoordinatorStorage\<close> of \<open>src/core/storage.rs\<close>: the transaction records and their state
  changes, the ordered list of speedups, the set of parents that wait for a CPFP, and the
  news. The funding queue, whose operations are those of a trait, is in \<open>Store_Funding\<close>.
  Each field of the record \<open>store\<close> is what the backend holds under one constructor of
  \<open>StoreKey\<close>; a key that was never set reads as the default the code uses. Reads and
  writes of the backend are taken to succeed.
\<close>

record stored_news_item =
  sn_news :: coordinator_news
  sn_acked_at_block :: "block_height option"

record store =
  st_txs :: "txid \<rightharpoonup> coordinated_tx"
  st_news :: "stored_news_item list"
  st_speedup_list :: "txid list"
  st_pending_parents :: "txid list"
  st_funding_list :: "out_point list"
  st_funding :: "out_point \<rightharpoonup> funding_data"

type_synonym 'a store_prog = "(store, failure, 'a) prog"

text \<open>
  The order in which the backend enumerates the transaction records is not known; a
  \<open>scan\<close> lists the ids in some order.
\<close>

type_synonym scan = "(txid \<rightharpoonup> coordinated_tx) \<Rightarrow> txid list"

definition scan_spec :: "scan \<Rightarrow> bool" where
  "scan_spec scan \<longleftrightarrow> (\<forall>m. finite (dom m) \<longrightarrow> distinct (scan m) \<and> set (scan m) = dom m)"

section \<open>Transaction records\<close>

definition insert_tx :: "coordinated_tx \<Rightarrow> store \<Rightarrow> store" where
  "insert_tx t s = s\<lparr>st_txs := (st_txs s)(ct_txid t \<mapsto> t)\<rparr>"

definition insert_txs :: "coordinated_tx list \<Rightarrow> store \<Rightarrow> store" where
  "insert_txs ts s = fold insert_tx ts s"

definition update_tx :: "coordinated_tx \<Rightarrow> store \<Rightarrow> store" where
  "update_tx t s = s\<lparr>st_txs := (st_txs s)(ct_txid t \<mapsto> t)\<rparr>"

definition remove_speedup_from_list :: "txid \<Rightarrow> store \<Rightarrow> store" where
  "remove_speedup_from_list txid s = s\<lparr>st_speedup_list := retain_ne txid (st_speedup_list s)\<rparr>"

definition remove_tx :: "txid \<Rightarrow> store \<Rightarrow> store" where
  "remove_tx txid s = remove_speedup_from_list txid (s\<lparr>st_txs := (st_txs s)(txid := None)\<rparr>)"

definition get_tx_by_id :: "txid \<Rightarrow> store \<Rightarrow> coordinated_tx option" where
  "get_tx_by_id txid s = st_txs s txid"

definition get_all_txs :: "scan \<Rightarrow> store \<Rightarrow> coordinated_tx list" where
  "get_all_txs scan s = List.map_filter (st_txs s) (scan (st_txs s))"

definition get_by_state :: "scan \<Rightarrow> transaction_state \<Rightarrow> store \<Rightarrow> coordinated_tx list" where
  "get_by_state scan st s = filter (\<lambda>t. ct_state t = st) (get_all_txs scan s)"

definition get_active_txs :: "scan \<Rightarrow> store \<Rightarrow> coordinated_tx list" where
  "get_active_txs scan s =
     filter (\<lambda>t. ct_state t \<in> {ToDispatch, InMempool, Confirmed}) (get_all_txs scan s)"

definition tx_exists :: "txid \<Rightarrow> store \<Rightarrow> bool" where
  "tx_exists txid s = (get_tx_by_id txid s \<noteq> None)"

definition get_settled_txs :: "scan \<Rightarrow> store \<Rightarrow> coordinated_tx list" where
  "get_settled_txs scan s = filter (\<lambda>t. ct_state t \<in> {Finalized, Failed}) (get_all_txs scan s)"

section \<open>News\<close>

definition add_news :: "coordinator_news \<Rightarrow> store \<Rightarrow> bool \<times> store" where
  "add_news n s =
     (if \<exists>item \<in> set (st_news s). sn_news item = n then (False, s)
      else (True, s\<lparr>st_news := st_news s @ [\<lparr>sn_news = n, sn_acked_at_block = None\<rparr>]\<rparr>))"

text \<open>\<open>add_news(..)?;\<close> where the code drops the answer.\<close>

definition note_news :: "coordinator_news \<Rightarrow> store \<Rightarrow> store" where
  "note_news n s = snd (add_news n s)"

definition get_news :: "store \<Rightarrow> coordinator_news list" where
  "get_news s = map sn_news (filter (\<lambda>item. sn_acked_at_block item = None) (st_news s))"

fun ack_first :: "coordinator_news \<Rightarrow> block_height \<Rightarrow> stored_news_item list \<Rightarrow> stored_news_item list" where
  "ack_first n h [] = []"
| "ack_first n h (item # items) =
     (if sn_acked_at_block item = None \<and> sn_news item = n
      then item\<lparr>sn_acked_at_block := Some h\<rparr> # items
      else item # ack_first n h items)"

definition ack_news_item :: "coordinator_news \<Rightarrow> block_height \<Rightarrow> store \<Rightarrow> store" where
  "ack_news_item n current_height s = s\<lparr>st_news := ack_first n current_height (st_news s)\<rparr>"

definition cleanup_news :: "block_height \<Rightarrow> store \<Rightarrow> store" where
  "cleanup_news current_height s =
     s\<lparr>st_news := filter (\<lambda>item. case sn_acked_at_block item of
          None \<Rightarrow> True | Some h \<Rightarrow> current_height \<le> h) (st_news s)\<rparr>"

section \<open>State changes\<close>

definition update_tx_state_impl ::
    "txid \<Rightarrow> transaction_state \<Rightarrow> block_height option \<Rightarrow> unit store_prog" where
  "update_tx_state_impl txid new_state height s =
     (if is_terminal new_state \<and> height = None
      then (Inl (Err (Internal ''settle_tx must be used for terminal states (Finalized/Failed)'')), s)
      else case get_tx_by_id txid s of
        None \<Rightarrow> (Inr (), note_news (TxNotFound txid) s)
      | Some t \<Rightarrow>
          if \<not> can_transition_to (ct_state t) new_state
          then (Inr (), note_news (InvalidStateTransition txid (ct_state t) new_state) s)
          else let t' = (if is_terminal new_state then t\<lparr>ct_settled_block_height := height\<rparr> else t)
               in (Inr (), update_tx (t'\<lparr>ct_state := new_state\<rparr>) s))"

definition update_tx_state :: "txid \<Rightarrow> transaction_state \<Rightarrow> unit store_prog" where
  "update_tx_state txid new_state = update_tx_state_impl txid new_state None"

definition settle_tx :: "txid \<Rightarrow> transaction_state \<Rightarrow> block_height \<Rightarrow> unit store_prog" where
  "settle_tx txid new_state height s =
     (if \<not> is_terminal new_state
      then (Inl (Err (Internal ''settle_tx must only be called with Finalized or Failed'')), s)
      else update_tx_state_impl txid new_state (Some height) s)"

definition requeue_not_found :: "txid \<Rightarrow> block_height \<Rightarrow> store \<Rightarrow> store" where
  "requeue_not_found txid guard_deadline s =
     (case get_tx_by_id txid s of
        None \<Rightarrow> note_news (TxNotFound txid) s
      | Some t \<Rightarrow>
          if \<not> can_transition_to (ct_state t) ToDispatch
          then note_news (InvalidStateTransition txid (ct_state t) ToDispatch) s
          else update_tx (t\<lparr>ct_state := ToDispatch,
                            ct_fail_guard_until :=
                              Some (unwrap_or (ct_fail_guard_until t) guard_deadline)\<rparr>) s)"

definition mark_as_retry :: "txid \<Rightarrow> store \<Rightarrow> store" where
  "mark_as_retry txid s =
     (case get_tx_by_id txid s of
        None \<Rightarrow> note_news (TxNotFound txid) s
      | Some t \<Rightarrow>
          if \<not> can_transition_to (ct_state t) ToDispatch
          then note_news (InvalidStateTransition txid (ct_state t) ToDispatch) s
          else update_tx (t\<lparr>ct_state := ToDispatch, ct_retry_count := ct_retry_count t + 1\<rparr>) s)"

section \<open>Speedups\<close>

definition insert_speedup :: "coordinated_tx \<Rightarrow> store \<Rightarrow> store" where
  "insert_speedup t s =
     (insert_tx t s)\<lparr>st_speedup_list := push_new (ct_txid t) (st_speedup_list s)\<rparr>"

definition get_speedups_ordered :: "store \<Rightarrow> coordinated_tx list" where
  "get_speedups_ordered s = List.map_filter (st_txs s) (st_speedup_list s)"

section \<open>Pending speedup parents\<close>

definition add_pending_speedup_parent :: "txid \<Rightarrow> store \<Rightarrow> store" where
  "add_pending_speedup_parent txid s =
     s\<lparr>st_pending_parents := push_new txid (st_pending_parents s)\<rparr>"

definition prepend_pending_speedup_parents :: "txid list \<Rightarrow> store \<Rightarrow> store" where
  "prepend_pending_speedup_parents txids s =
     (if txids = [] then s
      else let existing = set (st_pending_parents s);
               to_prepend = filter (\<lambda>id. id \<notin> existing) txids
           in if to_prepend = [] then s
              else s\<lparr>st_pending_parents := to_prepend @ st_pending_parents s\<rparr>)"

definition remove_pending_speedup_parent :: "txid \<Rightarrow> store \<Rightarrow> store" where
  "remove_pending_speedup_parent txid s =
     s\<lparr>st_pending_parents := retain_ne txid (st_pending_parents s)\<rparr>"

text \<open>The loop of \<open>get_pending_speedup_parents\<close>: the live parents so far, and the store.\<close>

definition pending_step :: "txid \<Rightarrow> coordinated_tx list \<times> store \<Rightarrow> coordinated_tx list \<times> store" where
  "pending_step txid = (\<lambda>(live, s).
     case get_tx_by_id txid s of
       Some t \<Rightarrow>
         if ct_state t \<in> {InMempool, Confirmed, Finalized} then (live @ [t], s)
         else if ct_state t = Failed then (live, remove_pending_speedup_parent txid s)
         else (live, s)
     | None \<Rightarrow> (live, remove_pending_speedup_parent txid s))"

definition get_pending_speedup_parents :: "store \<Rightarrow> coordinated_tx list \<times> store" where
  "get_pending_speedup_parents s = fold pending_step (st_pending_parents s) ([], s)"

definition requeue_protocol_parents :: "coordinated_tx \<Rightarrow> store \<Rightarrow> store" where
  "requeue_protocol_parents failed_cpfp s =
     (case ct_kind failed_cpfp of
        Speedup (CPFP parents _) \<Rightarrow>
          prepend_pending_speedup_parents
            (filter (\<lambda>p. case get_tx_by_id p s of
                 Some parent \<Rightarrow> is_needs_speedup parent | None \<Rightarrow> False) parents) s
      | _ \<Rightarrow> s)"

section \<open>Eviction\<close>

text \<open>The parents a speedup that is neither failed nor finalized covers.\<close>

definition live_covered :: "store \<Rightarrow> txid set" where
  "live_covered s =
     (\<Union>t \<in> set (get_speedups_ordered s).
        if ct_state t \<in> {Failed, Finalized} then {}
        else case ct_kind t of Speedup (CPFP parents _) \<Rightarrow> set parents | _ \<Rightarrow> {})"

definition evict_one ::
    "coordinator_storage_settings \<Rightarrow> block_height \<Rightarrow> txid list \<Rightarrow> txid set
      \<Rightarrow> coordinated_tx \<Rightarrow> store \<Rightarrow> store" where
  "evict_one settings current_height psp covered t s =
     (case ct_settled_block_height t of
        None \<Rightarrow> s
      | Some settled_height \<Rightarrow>
          if max_tracking_confirmations settings \<le> saturating_sub current_height settled_height
          then if is_needs_speedup t \<and> (ct_txid t \<in> set psp \<or> ct_txid t \<in> covered)
               then s
               else note_news (TransactionEvicted (ct_txid t) (ct_context t)) (remove_tx (ct_txid t) s)
          else s)"

definition evict_stale_txs ::
    "coordinator_storage_settings \<Rightarrow> scan \<Rightarrow> block_height \<Rightarrow> store \<Rightarrow> store" where
  "evict_stale_txs settings scan current_height s =
     fold (evict_one settings current_height (st_pending_parents s) (live_covered s))
       (get_settled_txs scan s) s"

lemmas store_op_defs =
  insert_tx_def update_tx_def remove_tx_def remove_speedup_from_list_def get_tx_by_id_def
  insert_speedup_def add_pending_speedup_parent_def remove_pending_speedup_parent_def

end
