(* ===== verification/Store_Funding.thy ===== *)
theory Store_Funding
  imports Store
begin

text \<open>
  The funding queue of \<open>src/core/storage.rs\<close>: the implementation of the trait
  \<open>FundingStorage\<close> of \<open>src/core/funding.rs\<close> by \<open>CoordinatorStorage\<close>, and of
  \<open>DispatcherStorage\<close>. A trait object is a record of its methods.
\<close>

section \<open>The queue\<close>

definition get_funding_record :: "out_point \<Rightarrow> store \<Rightarrow> funding_data option" where
  "get_funding_record op s = st_funding s op"

definition is_speedup_derived :: "out_point \<Rightarrow> store \<Rightarrow> bool" where
  "is_speedup_derived op s =
     (case get_funding_record op s of
        Some r \<Rightarrow> fd_from_speedup r
      | None \<Rightarrow> (case get_tx_by_id (op_txid op) s of Some t \<Rightarrow> is_speedup t | None \<Rightarrow> False))"

definition set_funding_list :: "out_point list \<Rightarrow> store \<Rightarrow> store" where
  "set_funding_list xs s = s\<lparr>st_funding_list := xs\<rparr>"

definition put_funding_record :: "out_point \<Rightarrow> funding_data \<Rightarrow> store \<Rightarrow> store" where
  "put_funding_record op r s = s\<lparr>st_funding := (st_funding s)(op \<mapsto> r)\<rparr>"

definition drop_funding_record :: "out_point \<Rightarrow> store \<Rightarrow> store" where
  "drop_funding_record op s = s\<lparr>st_funding := (st_funding s)(op := None)\<rparr>"

definition read_funding_records :: "store \<Rightarrow> funding_data list" where
  "read_funding_records s = List.map_filter (st_funding s) (st_funding_list s)"

definition append_funding :: "utxo \<Rightarrow> store \<Rightarrow> store" where
  "append_funding u s =
     (let op = utxo_outpoint u;
          s' = put_funding_record op \<lparr>fd_utxo = u, fd_spent = False, fd_from_speedup = False\<rparr> s
      in if op \<in> set (st_funding_list s') then s'
         else set_funding_list (st_funding_list s' @ [op]) s')"

definition set_context_spent :: "bool \<Rightarrow> speedup_context \<Rightarrow> speedup_context" where
  "set_context_spent b c = c\<lparr>sc_spent := b\<rparr>"

definition set_spent :: "out_point \<Rightarrow> bool \<Rightarrow> store \<Rightarrow> store" where
  "set_spent op b s =
     (case get_funding_record op s of
        Some r \<Rightarrow> if fd_spent r \<noteq> b then put_funding_record op (r\<lparr>fd_spent := b\<rparr>) s else s
      | None \<Rightarrow>
          (case get_tx_by_id (op_txid op) s of
             Some t \<Rightarrow>
               (case ct_kind t of
                  Speedup k \<Rightarrow>
                    if sc_spent (context_of k) \<noteq> b
                    then update_tx (t\<lparr>ct_kind := Speedup (map_context (set_context_spent b) k)\<rparr>) s
                    else s
                | _ \<Rightarrow> s)
           | None \<Rightarrow> s))"

definition clear_funding_records :: "store \<Rightarrow> store" where
  "clear_funding_records s = set_funding_list [] (fold drop_funding_record (st_funding_list s) s)"

section \<open>Finalization of a speedup\<close>

text \<open>\<open>Vec::remove\<close> panics when the index is out of range.\<close>

definition vec_remove :: "nat \<Rightarrow> 'a list \<Rightarrow> ('a \<times> 'a list) result" where
  "vec_remove i xs =
     (if i < length xs then Inr (xs ! i, take i xs @ drop (Suc i) xs)
      else Inl (Panic ''removal index out of range''))"

definition vec_insert :: "nat \<Rightarrow> 'a \<Rightarrow> 'a list \<Rightarrow> 'a list" where
  "vec_insert i x xs = take i xs @ x # drop i xs"

text \<open>The loop that collects the matching positions and the smallest of them.\<close>

definition collect_step ::
    "out_point list \<Rightarrow> nat \<times> out_point \<Rightarrow> nat list \<times> nat option \<Rightarrow> nat list \<times> nat option" where
  "collect_step consumed = (\<lambda>(idx, op) (to_remove, pos).
     if op \<in> set consumed
     then (to_remove @ [idx],
           case pos of None \<Rightarrow> Some idx | Some p \<Rightarrow> if idx < p then Some idx else Some p)
     else (to_remove, pos))"

definition collect_consumed :: "out_point list \<Rightarrow> out_point list \<Rightarrow> nat list \<times> nat option" where
  "collect_consumed consumed xs = fold (collect_step consumed) (enumerate 0 xs) ([], None)"

text \<open>The loop that removes the matched entries and their records, given the positions to visit.\<close>

primrec remove_matched ::
    "nat list \<Rightarrow> out_point list \<Rightarrow> (store, failure, out_point list) prog" where
  "remove_matched [] xs = pret xs"
| "remove_matched (i # is) xs =
     pbind (plift (vec_remove i xs)) (\<lambda>(removed, xs').
     pseq (pmodify (drop_funding_record removed)) (remove_matched is xs'))"

text \<open>A method that returns early without an error, once the change output is known to exist.\<close>

definition replace_funding_on_finalize :: "txid \<Rightarrow> unit store_prog" where
  "replace_funding_on_finalize txid s =
     (case get_tx_by_id txid s of
        None \<Rightarrow> (Inr (), s)
      | Some t \<Rightarrow>
          (case speedup_change_utxo t of
             Inl (Err _) \<Rightarrow> (Inr (), s)
           | Inl other \<Rightarrow> (Inl other, s)
           | Inr change \<Rightarrow>
               pbind (plift (speedup_kind_of t)) (\<lambda>k.
               let ctx = context_of k;
                   consumed = map utxo_outpoint (sc_funding_inputs ctx);
                   (to_remove_idx, insert_pos) = collect_consumed consumed (st_funding_list s)
               in if to_remove_idx = [] then pret ()
                  else pbind (remove_matched (rev to_remove_idx) (st_funding_list s)) (\<lambda>xs.
                    let change_op = utxo_outpoint change;
                        r = \<lparr>fd_utxo = change, fd_spent = sc_spent ctx, fd_from_speedup = True\<rparr>
                    in pseq (pmodify (put_funding_record change_op r))
                       (case insert_pos of
                          None \<Rightarrow> pthrow (Panic ''unwrap on None'')
                        | Some p \<Rightarrow>
                            pseq (pmodify (set_funding_list
                                (vec_insert (min p (length xs)) change_op xs)))
                              (pmodify (remove_speedup_from_list (ct_txid t)))))) s))"

section \<open>The traits\<close>

text \<open>
  \<open>FundingStorage\<close>: what the funding manager asks of its storage. The methods that cannot
  fail when the backend does not are functions of the state.
\<close>

record 's funding_storage =
  fs_read_funding_records :: "'s \<Rightarrow> funding_data list"
  fs_append_funding :: "utxo \<Rightarrow> 's \<Rightarrow> 's"
  fs_set_spent :: "out_point \<Rightarrow> bool \<Rightarrow> 's \<Rightarrow> 's"
  fs_clear_funding_records :: "'s \<Rightarrow> 's"
  fs_replace_funding_on_finalize :: "txid \<Rightarrow> ('s, failure, unit) prog"

definition coordinator_funding_storage :: "store funding_storage" where
  "coordinator_funding_storage =
     \<lparr>fs_read_funding_records = read_funding_records,
      fs_append_funding = append_funding,
      fs_set_spent = set_spent,
      fs_clear_funding_records = clear_funding_records,
      fs_replace_funding_on_finalize = replace_funding_on_finalize\<rparr>"

text \<open>\<open>DispatcherStorage\<close>: what the dispatcher asks.\<close>

record 's dispatcher_storage =
  ds_is_tx_known :: "txid \<Rightarrow> 's \<Rightarrow> bool"
  ds_is_tx_failed :: "txid \<Rightarrow> 's \<Rightarrow> bool"

definition is_tx_known :: "txid \<Rightarrow> store \<Rightarrow> bool" where
  "is_tx_known txid s = (get_tx_by_id txid s \<noteq> None)"

definition is_tx_failed :: "txid \<Rightarrow> store \<Rightarrow> bool" where
  "is_tx_failed txid s =
     (case get_tx_by_id txid s of Some t \<Rightarrow> ct_state t = Failed | None \<Rightarrow> False)"

definition coordinator_dispatcher_storage :: "store dispatcher_storage" where
  "coordinator_dispatcher_storage =
     \<lparr>ds_is_tx_known = is_tx_known, ds_is_tx_failed = is_tx_failed\<rparr>"

end
