(* ===== verification/Funding.thy ===== *)
theory Funding
  imports Store_Funding
begin

text \<open>
  \<open>FundingManager\<close> of \<open>src/core/funding.rs\<close>: it chooses the UTXO a speedup is funded with
  and reserves it. Its state is its settings and a \<open>FundingStorage\<close>, here the record of
  the storage's methods, over whose state the operations work.
\<close>

section \<open>Operations\<close>

definition validate_funding :: "funding_settings \<Rightarrow> utxo \<Rightarrow> coordinator_news option" where
  "validate_funding settings u =
     (if u_amount u < min_funding_amount_sats settings
      then Some (InvalidFundingUtxo (u_amount u) (min_funding_amount_sats settings))
      else None)"

definition set_funding ::
    "funding_settings \<Rightarrow> 's funding_storage \<Rightarrow> utxo \<Rightarrow> 's \<Rightarrow> coordinator_news option \<times> 's" where
  "set_funding settings fs u s =
     (case validate_funding settings u of
        None \<Rightarrow> (None, fs_append_funding fs u s)
      | Some n \<Rightarrow> (Some n, s))"

definition clear_funding :: "'s funding_storage \<Rightarrow> 's \<Rightarrow> 's" where
  "clear_funding fs = fs_clear_funding_records fs"

definition has_funding :: "'s funding_storage \<Rightarrow> 's \<Rightarrow> bool" where
  "has_funding fs s = (fs_read_funding_records fs s \<noteq> [])"

text \<open>
  Pass 1 of \<open>get_funding\<close>: the change of the latest live speedup that is neither being
  replaced nor spent. The second list is what is left of \<open>speedups.iter().rev()\<close>.
\<close>

fun live_chain_tip :: "coordinated_tx list \<Rightarrow> coordinated_tx list \<Rightarrow> utxo option result" where
  "live_chain_tip speedups [] = Inr None"
| "live_chain_tip speedups (t # ts) =
     (if ct_state t \<notin> {InMempool, Confirmed, Finalized} then live_chain_tip speedups ts
      else case speedup_kind_of t of
        Inl e \<Rightarrow> Inl e
      | Inr k \<Rightarrow>
          if has_live_replacement t speedups \<or> sc_spent (context_of k) then live_chain_tip speedups ts
          else (case speedup_change_utxo t of Inl e \<Rightarrow> Inl e | Inr u \<Rightarrow> Inr (Some u)))"

definition get_funding ::
    "'s funding_storage \<Rightarrow> coordinated_tx list \<Rightarrow> ('s, failure, (utxo \<times> bool) option) prog" where
  "get_funding fs speedups =
     pbind (plift (live_chain_tip speedups (rev speedups))) (\<lambda>tip.
     case tip of
       Some u \<Rightarrow> pseq (pmodify (fs_set_spent fs (utxo_outpoint u) True)) (pret (Some (u, True)))
     | None \<Rightarrow>
         pbind (pget (fs_read_funding_records fs)) (\<lambda>records.
         case find (\<lambda>r. \<not> fd_spent r) records of
           Some r \<Rightarrow>
             pseq (pmodify (fs_set_spent fs (utxo_outpoint (fd_utxo r)) True))
               (pret (Some (fd_utxo r, fd_from_speedup r)))
         | None \<Rightarrow> pret None))"

definition get_combine_funding :: "'s funding_storage \<Rightarrow> 's \<Rightarrow> utxo option \<times> 's" where
  "get_combine_funding fs s =
     (case find (\<lambda>r. \<not> (fd_from_speedup r \<or> fd_spent r)) (fs_read_funding_records fs s) of
        Some r \<Rightarrow> (Some (fd_utxo r), fs_set_spent fs (utxo_outpoint (fd_utxo r)) True s)
      | None \<Rightarrow> (None, s))"

definition release_marks :: "'s funding_storage \<Rightarrow> utxo list \<Rightarrow> 's \<Rightarrow> 's" where
  "release_marks fs utxos s = fold (\<lambda>u. fs_set_spent fs (utxo_outpoint u) False) utxos s"

definition mark_parents_unspent :: "'s funding_storage \<Rightarrow> coordinated_tx \<Rightarrow> ('s, failure, unit) prog" where
  "mark_parents_unspent fs t =
     pbind (plift (speedup_kind_of t)) (\<lambda>k.
       pmodify (release_marks fs (sc_funding_inputs (context_of k))))"

definition replace_on_finalize :: "'s funding_storage \<Rightarrow> txid \<Rightarrow> ('s, failure, unit) prog" where
  "replace_on_finalize fs txid = fs_replace_funding_on_finalize fs txid"

end
