(* ===== verification/Dispatcher.thy ===== *)
theory Dispatcher
  imports Store_Funding
begin

text \<open>
  \<open>Dispatcher\<close> of \<open>src/core/dispatcher.rs\<close>: batching by weight, the checks before a
  broadcast, and the broadcast. The storage is the record of the methods of
  \<open>DispatcherStorage\<close> and is only read. What is outside the crate (the node behind
  \<open>BitcoinClient\<close>, the monitor, the clock) is a record of services over a state \<open>'e\<close> of
  which nothing is known; each service returns its error as the text of it.
\<close>

section \<open>The outside\<close>

type_synonym ('e, 'a) ext_prog = "('e, string, 'a) prog"

record 'e services =
  sv_send_transaction :: "transaction \<Rightarrow> ('e, unit) ext_prog"
  sv_get_tx_status :: "txid \<Rightarrow> bool \<Rightarrow> ('e, tx_status) ext_prog"
  sv_get_tx_confirmations :: "txid \<Rightarrow> ('e, u32 option) ext_prog"
  sv_is_utxo_unspent_rpc :: "txid \<Rightarrow> u32 \<Rightarrow> bool \<Rightarrow> ('e, bool) ext_prog"
  sv_get_estimated_fee_rate :: "('e, u64) ext_prog"
  sv_monitor :: "types_to_monitor \<Rightarrow> bool \<Rightarrow> ('e, unit) ext_prog"
  sv_cancel :: "types_to_monitor \<Rightarrow> ('e, unit) ext_prog"
  sv_monitor_tick :: "('e, unit) ext_prog"
  sv_is_ready :: "('e, bool) ext_prog"
  sv_get_monitor_height :: "('e, block_height) ext_prog"
  sv_get_monitor_news :: "('e, monitor_news list) ext_prog"
  sv_ack_monitor_news :: "nat \<Rightarrow> ('e, unit) ext_prog"
  sv_now_secs :: "'e \<Rightarrow> u64 \<times> 'e"
  sv_speedup_transactions ::
    "speedup_data list \<Rightarrow> utxo list \<Rightarrow> pub_key \<Rightarrow> u64 \<Rightarrow> ('e, transaction) ext_prog"

section \<open>Outcomes\<close>

datatype dispatch_outcome =
    Success
  | Fatal string
  | ParentFailed txid
  | DispatchErr string

section \<open>Batching\<close>

text \<open>
  The loop of \<open>batch_by_weight\<close> over the parents that are left, with the batches, the
  current batch and its weight. The loop breaks when the number of batches, read as a
  \<open>u32\<close>, reaches the maximum.
\<close>

fun batch_loop ::
    "u64 \<Rightarrow> u32 \<Rightarrow> coordinated_tx list \<Rightarrow> coordinated_tx list list \<times> coordinated_tx list \<times> u64
      \<Rightarrow> coordinated_tx list list \<times> coordinated_tx list" where
  "batch_loop max_weight max_batches [] (batches, current, weight) = (batches, current)"
| "batch_loop max_weight max_batches (p # ps) (batches, current, weight) =
     (if max_batches \<le> word_of_nat (length batches) then (batches, current)
      else let w = tx_weight (ct_tx p) in
        if current \<noteq> [] \<and> max_weight < weight + w
        then batch_loop max_weight max_batches ps (batches @ [current], [p], w)
        else batch_loop max_weight max_batches ps (batches, current @ [p], weight + w))"

definition batch_by_weight ::
    "dispatcher_settings \<Rightarrow> coordinated_tx list \<Rightarrow> u32 \<Rightarrow> coordinated_tx list list" where
  "batch_by_weight settings parents max_batches =
     (let (batches, current) = batch_loop (max_tx_weight settings) max_batches parents ([], [], 0)
      in if current \<noteq> [] \<and> word_of_nat (length batches) < max_batches then batches @ [current]
         else batches)"

section \<open>Dispatch\<close>

text \<open>The pre-send checks of one transaction, and the split of the list.\<close>

definition validate_failure :: "dispatcher_settings \<Rightarrow> coordinated_tx \<Rightarrow> dispatch_outcome option" where
  "validate_failure settings t =
     (if tx_input (ct_tx t) = [] then Some (Fatal ''transaction has no inputs'')
      else if max_tx_weight settings < tx_weight (ct_tx t)
      then Some (Fatal ''transaction weight exceeds max'')
      else None)"

definition validate_step ::
    "dispatcher_settings \<Rightarrow> coordinated_tx
      \<Rightarrow> coordinated_tx list \<times> (txid \<times> dispatch_outcome) list
      \<Rightarrow> coordinated_tx list \<times> (txid \<times> dispatch_outcome) list" where
  "validate_step settings t = (\<lambda>(valid, failures).
     case validate_failure settings t of
       Some f \<Rightarrow> (valid, failures @ [(ct_txid t, f)])
     | None \<Rightarrow> (valid @ [t], failures))"

definition validate_txs ::
    "dispatcher_settings \<Rightarrow> coordinated_tx list \<Rightarrow> coordinated_tx list \<times> (txid \<times> dispatch_outcome) list" where
  "validate_txs settings txs = fold (validate_step settings) txs ([], [])"

definition failed_parent :: "'s dispatcher_storage \<Rightarrow> 's \<Rightarrow> coordinated_tx \<Rightarrow> txid option" where
  "failed_parent ds st t =
     find (\<lambda>p. ds_is_tx_known ds p st \<and> ds_is_tx_failed ds p st) (map op_txid (tx_input (ct_tx t)))"

fun parents_ready_loop ::
    "'s dispatcher_storage \<Rightarrow> 's \<Rightarrow> 'e services \<Rightarrow> u32 \<Rightarrow> out_point list \<Rightarrow> ('e, failure, bool) prog" where
  "parents_ready_loop ds st sv max_confs [] = pret True"
| "parents_ready_loop ds st sv max_confs (i # is) =
     (if \<not> ds_is_tx_known ds (op_txid i) st then parents_ready_loop ds st sv max_confs is
      else pbind (pmap_err (\<lambda>e. Err (Internal e)) (sv_get_tx_status sv (op_txid i) True)) (\<lambda>status.
        if is_in_mempool status \<or> is_confirmed status \<or> is_finalized status max_confs
        then parents_ready_loop ds st sv max_confs is
        else pret False))"

definition parents_ready ::
    "'s dispatcher_storage \<Rightarrow> 's \<Rightarrow> 'e services \<Rightarrow> u32 \<Rightarrow> coordinated_tx \<Rightarrow> ('e, failure, bool) prog" where
  "parents_ready ds st sv max_confs t = parents_ready_loop ds st sv max_confs (tx_input (ct_tx t))"

text \<open>The broadcast of a transaction: an error of the node is an outcome, not a failure.\<close>

definition send_outcome :: "'e services \<Rightarrow> coordinated_tx \<Rightarrow> ('e, failure, dispatch_outcome) prog" where
  "send_outcome sv t =
     pbind (ptry (sv_send_transaction sv (ct_tx t))) (\<lambda>r.
     pret (case r of Inr _ \<Rightarrow> Success | Inl e \<Rightarrow> DispatchErr e))"

fun dispatch_loop ::
    "'s dispatcher_storage \<Rightarrow> 's \<Rightarrow> 'e services \<Rightarrow> u32 \<Rightarrow> coordinated_tx list
      \<Rightarrow> (txid \<times> dispatch_outcome) list \<Rightarrow> ('e, failure, (txid \<times> dispatch_outcome) list) prog" where
  "dispatch_loop ds st sv max_confs [] results = pret results"
| "dispatch_loop ds st sv max_confs (t # ts) results =
     (case failed_parent ds st t of
        Some p \<Rightarrow> dispatch_loop ds st sv max_confs ts (results @ [(ct_txid t, ParentFailed p)])
      | None \<Rightarrow>
          pbind (parents_ready ds st sv max_confs t) (\<lambda>ready.
          if \<not> ready then dispatch_loop ds st sv max_confs ts results
          else pbind (send_outcome sv t) (\<lambda>outcome.
            dispatch_loop ds st sv max_confs ts (results @ [(ct_txid t, outcome)]))))"

definition dispatch ::
    "dispatcher_settings \<Rightarrow> 's dispatcher_storage \<Rightarrow> 's \<Rightarrow> 'e services \<Rightarrow> u32 \<Rightarrow> coordinated_tx list
      \<Rightarrow> ('e, failure, (txid \<times> dispatch_outcome) list) prog" where
  "dispatch settings ds st sv max_confs txs =
     (let (valid, results) = validate_txs settings txs
      in dispatch_loop ds st sv max_confs valid results)"

end
