(* ===== verification/Engine.thy ===== *)
theory Engine
  imports Fee Funding Dispatcher
begin

text \<open>
  \<open>EngineContext\<close> of \<open>src/engines/common.rs\<close>: what both engines share. Its state, a
  \<open>world\<close>, is the store, the time of the last retry and the outside; its fixed parts are
  the services of the outside, the settings, the constant
  \<open>MAX_DUST_LIMIT\<close> of the transaction builder, and the two orders the code leaves open: that
  of a scan of the backend and that of the iteration over a \<open>HashSet\<close>.
\<close>

record 'e world =
  w_store :: store
  w_last_retry_at :: "u64 option"
  w_ext :: 'e

record 'e engine_context =
  cx_services :: "'e services"
  cx_settings :: bitcoin_settings
  cx_scan :: scan
  cx_hash_iter :: "out_point set \<Rightarrow> out_point list"
  cx_max_dust_limit :: u64

type_synonym ('e, 'a) world_prog = "('e world, failure, 'a) prog"

definition on_store :: "'a store_prog \<Rightarrow> ('e, 'a) world_prog" where
  "on_store m = pzoom w_store (\<lambda>s w. w\<lparr>w_store := s\<rparr>) m"

definition on_ext :: "('e, failure, 'a) prog \<Rightarrow> ('e, 'a) world_prog" where
  "on_ext m = pzoom w_ext (\<lambda>e w. w\<lparr>w_ext := e\<rparr>) m"

text \<open>A call to the monitor, the node client or the builder; the \<open>?\<close> converts its error.\<close>

definition call_monitor :: "('e, 'a) ext_prog \<Rightarrow> ('e, 'a) world_prog" where
  "call_monitor m = on_ext (pmap_err (\<lambda>e. Err (MonitorError e)) m)"

section \<open>Status changes\<close>

definition mark_reorg :: "coordinated_tx \<Rightarrow> block_height \<Rightarrow> store \<Rightarrow> store" where
  "mark_reorg t current_height s =
     update_tx (t\<lparr>ct_state := InMempool, ct_broadcast_block_height := Some current_height\<rparr>) s"

definition mark_finalized :: "txid \<Rightarrow> block_height \<Rightarrow> unit store_prog" where
  "mark_finalized txid current_height = settle_tx txid Finalized current_height"

definition mark_confirmed :: "txid \<Rightarrow> unit store_prog" where
  "mark_confirmed txid = update_tx_state txid Confirmed"

definition mark_orphan :: "txid \<Rightarrow> unit store_prog" where
  "mark_orphan txid = update_tx_state txid InMempool"

section \<open>Retries\<close>

definition read_clock :: "'e engine_context \<Rightarrow> ('e, u64) world_prog" where
  "read_clock cx = on_ext (pstep (sv_now_secs (cx_services cx)))"

definition is_retry :: "coordinated_tx \<Rightarrow> bool" where
  "is_retry t = (0 < ct_retry_count t)"

definition retry_ready :: "'e engine_context \<Rightarrow> ('e, bool) world_prog" where
  "retry_ready cx =
     pbind (pget w_last_retry_at) (\<lambda>last.
     case last of
       None \<Rightarrow> pret True
     | Some l \<Rightarrow>
         pbind (read_clock cx) (\<lambda>now.
         pret (retry_interval_seconds (bs_coordinator (cx_settings cx)) \<le> saturating_sub now l)))"

definition apply_retry_rate_limit ::
    "'e engine_context \<Rightarrow> coordinated_tx list \<Rightarrow> ('e, coordinated_tx list) world_prog" where
  "apply_retry_rate_limit cx txs =
     pbind (retry_ready cx) (\<lambda>ready.
     let has_retries = (\<exists>t \<in> set txs. is_retry t);
         filtered = filter (\<lambda>t. is_retry t \<longrightarrow> ready) txs
     in if has_retries \<and> ready
        then pbind (read_clock cx) (\<lambda>now.
             pseq (pmodify (\<lambda>w. w\<lparr>w_last_retry_at := Some now\<rparr>)) (pret filtered))
        else pret filtered)"

section \<open>Accepted transactions\<close>

definition set_replaced_by :: "txid option \<Rightarrow> speedup_context \<Rightarrow> speedup_context" where
  "set_replaced_by r c = c\<lparr>sc_replaced_by := r\<rparr>"

text \<open>For an RBF, the flag on the speedup it replaces; the predecessor must be a speedup.\<close>

definition mark_predecessor :: "coordinated_tx \<Rightarrow> txid \<Rightarrow> unit store_prog" where
  "mark_predecessor t txid =
     (case ct_kind t of
        Speedup (RBF replaces _ _) \<Rightarrow>
          pbind (pget (get_tx_by_id replaces)) (\<lambda>r.
          case r of
            Some replaced \<Rightarrow>
              pbind (plift (update_context (set_replaced_by (Some txid)) replaced)) (\<lambda>updated.
              pmodify (update_tx updated))
          | None \<Rightarrow> pret ())
      | _ \<Rightarrow> pret ())"

definition monitor_again :: "'e engine_context \<Rightarrow> coordinated_tx \<Rightarrow> txid \<Rightarrow> ('e, unit) world_prog" where
  "monitor_again cx t txid =
     call_monitor (sv_monitor (cx_services cx)
       (Transactions [txid] (ct_context t) (ct_confirmation_trigger t)) True)"

definition mark_accepted ::
    "'e engine_context \<Rightarrow> coordinated_tx \<Rightarrow> txid \<Rightarrow> block_height \<Rightarrow> fee_info \<Rightarrow> ('e, unit) world_prog" where
  "mark_accepted cx t txid current_height fee_info =
     pseq (on_store (mark_predecessor t txid))
    (pseq (on_store (pmodify (update_tx
        (t\<lparr>ct_state := InMempool, ct_broadcast_block_height := Some current_height,
           ct_fee_info := fee_info, ct_fail_guard_until := None\<rparr>))))
     (monitor_again cx t txid))"

definition mark_already_confirmed ::
    "'e engine_context \<Rightarrow> coordinated_tx \<Rightarrow> txid \<Rightarrow> block_height \<Rightarrow> ('e, unit) world_prog" where
  "mark_already_confirmed cx t txid current_height =
     pseq (on_store (mark_predecessor t txid))
    (pseq (on_store (pmodify (update_tx
        (t\<lparr>ct_broadcast_block_height := Some (unwrap_or (ct_broadcast_block_height t) current_height),
           ct_state := Confirmed, ct_fail_guard_until := None\<rparr>))))
     (monitor_again cx t txid))"

section \<open>Failed transactions\<close>

definition dispatch_error_news :: "coordinated_tx \<Rightarrow> txid \<Rightarrow> coordinator_news" where
  "dispatch_error_news t txid =
     (if is_speedup t then SpeedupDispatchError txid (ct_context t)
      else DispatchError txid (ct_context t))"

definition clear_replaced_by :: "txid \<Rightarrow> store \<Rightarrow> store" where
  "clear_replaced_by replaces s =
     (case get_tx_by_id replaces s of
        Some replaced \<Rightarrow>
          (case update_context (set_replaced_by None) replaced of
             Inr updated \<Rightarrow> update_tx updated s
           | Inl _ \<Rightarrow> s)
      | None \<Rightarrow> s)"

definition settle_failed_dispatch :: "coordinated_tx \<Rightarrow> block_height \<Rightarrow> bool \<Rightarrow> unit store_prog" where
  "settle_failed_dispatch t current_height funding_missing =
     pseq (settle_tx (ct_txid t) Failed current_height)
    (pseq (pmodify (note_news (dispatch_error_news t (ct_txid t))))
    (pseq (case ct_kind t of
             Speedup (CPFP _ _) \<Rightarrow> mark_parents_unspent coordinator_funding_storage t
           | _ \<Rightarrow> pret ())
    (pseq (case ct_kind t of
             Speedup (RBF replaces new_funding_inputs _) \<Rightarrow>
               pseq (pmodify (release_marks coordinator_funding_storage new_funding_inputs))
                 (pmodify (clear_replaced_by replaces))
           | _ \<Rightarrow> pret ())
     (if funding_missing then pmodify (requeue_protocol_parents t) else pret ()))))"

definition depends_on_tx :: "coordinated_tx \<Rightarrow> txid \<Rightarrow> bool" where
  "depends_on_tx d txid =
     (case speedup_kind_of d of
        Inr k \<Rightarrow> (case sc_funding_inputs (context_of k) of [] \<Rightarrow> False | fi # _ \<Rightarrow> u_txid fi = txid)
                 \<or> txid \<in> set (parents_of k)
      | Inl _ \<Rightarrow> False)"

text \<open>
  The recursion of \<open>fail_and_cascade\<close>, with fuel for its depth. The loop runs over the
  speedups as they were when it started. The method is started with more fuel than there
  are listed speedups, which \<open>Engine_Cascade\<close> shows to be enough.
\<close>

fun cascade :: "nat \<Rightarrow> coordinated_tx \<Rightarrow> block_height \<Rightarrow> bool \<Rightarrow> unit store_prog" where
  "cascade 0 t current_height funding_missing = pthrow NoReturn"
| "cascade (Suc fuel) t current_height funding_missing =
     pseq (settle_failed_dispatch t current_height funding_missing)
    (pbind (pget get_speedups_ordered) (\<lambda>speedups.
     pfor (filter (\<lambda>s. ct_state s = ToDispatch) speedups) (\<lambda>d.
       if depends_on_tx d (ct_txid t) then cascade fuel d current_height True else pret ())))"

definition fail_and_cascade :: "coordinated_tx \<Rightarrow> block_height \<Rightarrow> bool \<Rightarrow> unit store_prog" where
  "fail_and_cascade t current_height funding_missing s =
     cascade (Suc (length (st_speedup_list s))) t current_height funding_missing s"

definition survivor_step :: "txid \<Rightarrow> store \<Rightarrow> txid list \<Rightarrow> txid list" where
  "survivor_step p s to_requeue =
     (if p \<in> set to_requeue then to_requeue
      else case get_tx_by_id p s of
        Some parent \<Rightarrow> if is_needs_speedup parent then to_requeue @ [p] else to_requeue
      | None \<Rightarrow> to_requeue)"

definition rebuild_survivors :: "coordinated_tx \<Rightarrow> block_height \<Rightarrow> unit store_prog" where
  "rebuild_survivors t current_height =
     pbind (pget (\<lambda>s. filter (\<lambda>p. \<not> is_tx_failed p s) (map op_txid (non_funding_inputs t)))) (\<lambda>survivors.
     pseq (fail_and_cascade t current_height False)
     (pmodify (\<lambda>s. prepend_pending_speedup_parents
         (fold (\<lambda>p acc. survivor_step p s acc) survivors []) s)))"

definition is_first_cpfp :: "coordinated_tx \<Rightarrow> bool" where
  "is_first_cpfp t = (case speedup_kind_of t of Inr k \<Rightarrow> \<not> is_boost k | Inl _ \<Rightarrow> False)"

definition settle_failed_child :: "coordinated_tx \<Rightarrow> block_height \<Rightarrow> unit store_prog" where
  "settle_failed_child t current_height =
     (if is_first_cpfp t then rebuild_survivors t current_height
      else fail_and_cascade t current_height False)"

section \<open>Dispatch results\<close>

text \<open>The two loops of \<open>missing_input_kind\<close>: is one of the outpoints missing or spent?\<close>

fun some_input_missing :: "'e engine_context \<Rightarrow> out_point list \<Rightarrow> ('e, bool) world_prog" where
  "some_input_missing cx [] = pret False"
| "some_input_missing cx (op # ops) =
     pbind (call_monitor (sv_is_utxo_unspent_rpc (cx_services cx) (op_txid op) (op_vout op) True))
       (\<lambda>unspent. if \<not> unspent then pret True else some_input_missing cx ops)"

definition missing_input_kind :: "'e engine_context \<Rightarrow> coordinated_tx \<Rightarrow> ('e, bool option) world_prog" where
  "missing_input_kind cx t =
     pbind (some_input_missing cx (cx_hash_iter cx (funding_outpoints t))) (\<lambda>funding_missing.
     if funding_missing then pret (Some True)
     else pbind (some_input_missing cx (non_funding_inputs t)) (\<lambda>other_missing.
       if other_missing then pret (Some False) else pret None))"

definition within_fail_guard :: "coordinated_tx \<Rightarrow> block_height \<Rightarrow> bool" where
  "within_fail_guard t current_height =
     (case ct_fail_guard_until t of Some deadline \<Rightarrow> current_height < deadline | None \<Rightarrow> False)"

definition classify_dispatch_error ::
    "'e engine_context \<Rightarrow> coordinated_tx \<Rightarrow> txid \<Rightarrow> block_height \<Rightarrow> fee_info \<Rightarrow> ('e, unit) world_prog" where
  "classify_dispatch_error cx t txid current_height fee_info =
     pbind (call_monitor (sv_get_tx_confirmations (cx_services cx) txid)) (\<lambda>confs.
     case confs of
       Some n \<Rightarrow>
         if n = 0 then mark_accepted cx t txid current_height fee_info
         else mark_already_confirmed cx t txid current_height
     | None \<Rightarrow>
         pbind (missing_input_kind cx t) (\<lambda>missing.
         case missing of
           Some funding_missing \<Rightarrow>
             if within_fail_guard t current_height then on_store (pmodify (mark_as_retry txid))
             else if funding_missing then on_store (fail_and_cascade t current_height True)
             else on_store (settle_failed_child t current_height)
         | None \<Rightarrow>
             if retry_attempts_sending_tx (bs_coordinator (cx_settings cx)) \<le> ct_retry_count t + 1
             then on_store (fail_and_cascade t current_height False)
             else on_store (pmodify (mark_as_retry txid))))"

definition handle_dispatch_result ::
    "'e engine_context \<Rightarrow> coordinated_tx \<Rightarrow> txid \<Rightarrow> dispatch_outcome \<Rightarrow> block_height \<Rightarrow> fee_info
      \<Rightarrow> ('e, unit) world_prog" where
  "handle_dispatch_result cx t txid outcome current_height fee_info =
     pseq (plift (verify_tx_id t txid))
     (case outcome of
        Success \<Rightarrow> mark_accepted cx t txid current_height fee_info
      | Fatal msg \<Rightarrow> on_store (fail_and_cascade t current_height False)
      | ParentFailed parent \<Rightarrow> on_store (settle_failed_child t current_height)
      | DispatchErr raw \<Rightarrow> classify_dispatch_error cx t txid current_height fee_info)"

section \<open>Calls both engines make\<close>

text \<open>\<open>get_network_fee_rate(&monitor)?\<close> followed by storing its news, if any.\<close>

definition network_fee_rate :: "'e engine_context \<Rightarrow> ('e, u64 \<times> coordinator_news option) world_prog" where
  "network_fee_rate cx =
     pbind (on_ext (ptry (sv_get_estimated_fee_rate (cx_services cx)))) (\<lambda>r.
     pret (get_network_fee_rate (bs_fee (cx_settings cx))
       (case r of Inr rate \<Rightarrow> Some rate | Inl _ \<Rightarrow> None)))"

definition network_fee_rate_noted :: "'e engine_context \<Rightarrow> ('e, u64) world_prog" where
  "network_fee_rate_noted cx =
     pbind (network_fee_rate cx) (\<lambda>(rate, fee_news).
     pseq (case fee_news of Some n \<Rightarrow> on_store (pmodify (note_news n)) | None \<Rightarrow> pret ())
     (pret rate))"

definition run_dispatcher ::
    "'e engine_context \<Rightarrow> coordinated_tx list \<Rightarrow> ('e, (txid \<times> dispatch_outcome) list) world_prog" where
  "run_dispatcher cx txs =
     pbind (pget w_store) (\<lambda>st.
     on_ext (dispatch (bs_dispatcher (cx_settings cx)) coordinator_dispatcher_storage st
       (cx_services cx) (max_monitoring_confirmations (cx_settings cx)) txs))"

definition monitor_height :: "'e engine_context \<Rightarrow> ('e, block_height) world_prog" where
  "monitor_height cx = call_monitor (sv_get_monitor_height (cx_services cx))"

end
