(* ===== verification/Store_Facts.thy ===== *)
theory Store_Facts
  imports Store_Funding
begin

text \<open>
  What every operation of the store keeps. \<open>keyed\<close> is the invariant that a record is found
  under its own id; \<open>only_fails\<close> relates two stores when the second differs from the first
  by transactions that became \<open>Failed\<close> where the lifecycle allows it, and by the
  reservation flags of speedups: the effect of everything that happens after a failed
  dispatch.
\<close>

section \<open>States of records\<close>

definition tx_state :: "store \<Rightarrow> txid \<Rightarrow> transaction_state option" where
  "tx_state s x = map_option ct_state (st_txs s x)"

definition keyed :: "store \<Rightarrow> bool" where
  "keyed s \<longleftrightarrow> (\<forall>x t. st_txs s x = Some t \<longrightarrow> ct_txid t = x)"

lemma keyedD: "keyed s \<Longrightarrow> st_txs s x = Some t \<Longrightarrow> ct_txid t = x"
  by (simp add: keyed_def)

text \<open>The parts of a speedup that are not flags.\<close>

definition erase_flags :: "speedup_context \<Rightarrow> speedup_context" where
  "erase_flags c = c\<lparr>sc_spent := False, sc_replaced_by := None\<rparr>"

fun erase_kind :: "tx_kind \<Rightarrow> tx_kind" where
  "erase_kind (Speedup k) = Speedup (map_context erase_flags k)"
| "erase_kind k = k"

text \<open>A record up to its state, its settlement and the flags.\<close>

definition skeleton :: "coordinated_tx \<Rightarrow> coordinated_tx" where
  "skeleton t = t\<lparr>ct_state := ToDispatch, ct_settled_block_height := None, ct_kind := erase_kind (ct_kind t)\<rparr>"

definition failable :: "transaction_state \<Rightarrow> bool" where
  "failable st = (st = ToDispatch \<or> st = InMempool)"

definition fails_to :: "coordinated_tx \<Rightarrow> coordinated_tx \<Rightarrow> bool" where
  "fails_to t t' \<longleftrightarrow> skeleton t' = skeleton t
     \<and> (ct_state t' = ct_state t \<or> failable (ct_state t) \<and> ct_state t' = Failed)"

definition only_fails :: "store \<Rightarrow> store \<Rightarrow> bool" where
  "only_fails s s' \<longleftrightarrow> (keyed s \<longrightarrow> keyed s' \<and> st_speedup_list s' = st_speedup_list s
     \<and> (\<forall>x. rel_option fails_to (st_txs s x) (st_txs s' x)))"

lemma ct_txid_skeleton: "ct_txid (skeleton t) = ct_txid t"
  by (simp add: skeleton_def)

lemma skeleton_txid: "skeleton t' = skeleton t \<Longrightarrow> ct_txid t' = ct_txid t"
  using ct_txid_skeleton [of t] ct_txid_skeleton [of t'] by simp

lemma fails_to_refl: "fails_to t t"
  by (simp add: fails_to_def)

lemma fails_to_trans: "fails_to t u \<Longrightarrow> fails_to u v \<Longrightarrow> fails_to t v"
  by (auto simp: fails_to_def failable_def)

lemma rel_fails_trans:
  "rel_option fails_to a b \<Longrightarrow> rel_option fails_to b c \<Longrightarrow> rel_option fails_to a c"
  by (cases a; cases b; cases c) (auto intro: fails_to_trans)

lemma rel_fails_refl: "rel_option fails_to a a"
  by (cases a) (simp_all add: fails_to_refl)

lemma only_failsD:
  assumes "only_fails s s'" "keyed s"
  shows "keyed s'" "st_speedup_list s' = st_speedup_list s"
    "rel_option fails_to (st_txs s x) (st_txs s' x)"
  using assms by (simp_all add: only_fails_def)

lemma only_failsI:
  assumes "keyed s \<Longrightarrow> keyed s'" "keyed s \<Longrightarrow> st_speedup_list s' = st_speedup_list s"
    "\<And>x. keyed s \<Longrightarrow> rel_option fails_to (st_txs s x) (st_txs s' x)"
  shows "only_fails s s'"
  using assms by (simp add: only_fails_def)

lemma only_fails_trans:
  assumes a: "only_fails s t" and b: "only_fails t u"
  shows "only_fails s u"
proof (rule only_failsI)
  assume s: "keyed s"
  note t = only_failsD [OF a s] and u = only_failsD [OF b only_failsD(1) [OF a s]]
  show "keyed u" "st_speedup_list u = st_speedup_list s" using t u by simp_all
  show "rel_option fails_to (st_txs s x) (st_txs u x)" for x
    using t(3) u(3) by (rule rel_fails_trans)
qed

interpretation failing: step_relation only_fails
  by unfold_locales (rule only_failsI, simp_all add: rel_fails_refl, rule only_fails_trans)

text \<open>Writing back a record that failed, or of which only flags changed.\<close>

lemma only_fails_update:
  assumes "st_txs s (ct_txid t) = Some t" "fails_to t t'"
  shows "only_fails s (update_tx t' s)"
proof (rule only_failsI)
  have id: "ct_txid t' = ct_txid t" using assms(2) unfolding fails_to_def by (blast intro: skeleton_txid)
  assume "keyed s"
  then show "keyed (update_tx t' s)" unfolding keyed_def update_tx_def by simp
  show "st_speedup_list (update_tx t' s) = st_speedup_list s" by (simp add: update_tx_def)
  show "rel_option fails_to (st_txs s x) (st_txs (update_tx t' s) x)" for x
    using assms by (cases "x = ct_txid t") (simp_all add: update_tx_def id rel_fails_refl)
qed

lemma only_fails_same_txs:
  assumes "st_txs s' = st_txs s" "st_speedup_list s' = st_speedup_list s"
  shows "only_fails s s'"
  by (rule only_failsI) (use assms in \<open>simp_all add: keyed_def rel_fails_refl\<close>)

section \<open>Operations that leave the records alone\<close>

lemma note_news_frame [simp]:
  "st_txs (note_news n s) = st_txs s" "st_speedup_list (note_news n s) = st_speedup_list s"
  "st_pending_parents (note_news n s) = st_pending_parents s"
  "st_funding_list (note_news n s) = st_funding_list s" "st_funding (note_news n s) = st_funding s"
  by (simp_all add: note_news_def add_news_def)

lemma prepend_frame [simp]:
  "st_txs (prepend_pending_speedup_parents ps s) = st_txs s"
  "st_speedup_list (prepend_pending_speedup_parents ps s) = st_speedup_list s"
  by (simp_all add: prepend_pending_speedup_parents_def Let_def)

lemma requeue_protocol_parents_frame [simp]:
  "st_txs (requeue_protocol_parents t s) = st_txs s"
  "st_speedup_list (requeue_protocol_parents t s) = st_speedup_list s"
  by (simp_all add: requeue_protocol_parents_def split: tx_kind.split speedup_kind.split)

lemma tx_state_same_txs: "st_txs s' = st_txs s \<Longrightarrow> tx_state s' = tx_state s"
  by (simp add: tx_state_def fun_eq_iff)

lemma tx_state_note_news [simp]: "tx_state (note_news n s) = tx_state s"
  by (rule tx_state_same_txs) simp

section \<open>Flags\<close>

lemma fails_to_flags:
  assumes "ct_kind t = Speedup k" and "\<And>c. erase_flags (f c) = erase_flags c"
  shows "fails_to t (t\<lparr>ct_kind := Speedup (map_context f k)\<rparr>)"
proof -
  have "map_context erase_flags (map_context f k) = map_context erase_flags k"
    by (cases k) (simp_all add: assms(2))
  then show ?thesis using assms(1) by (simp add: fails_to_def skeleton_def)
qed

lemma erase_set_context_spent [simp]: "erase_flags (set_context_spent b c) = erase_flags c"
  by (simp add: erase_flags_def set_context_spent_def)

lemma set_spent_cases:
  obtains (funding) r where "st_funding s op = Some r"
      "set_spent op b s = s\<lparr>st_funding := (st_funding s)(op \<mapsto> r\<lparr>fd_spent := b\<rparr>)\<rparr>"
  | (flag) t k where "st_funding s op = None" "st_txs s (op_txid op) = Some t" "ct_kind t = Speedup k"
      "set_spent op b s = update_tx (t\<lparr>ct_kind := Speedup (map_context (set_context_spent b) k)\<rparr>) s"
  | (same) "st_funding s op = None" "set_spent op b s = s"
      "\<And>t k. st_txs s (op_txid op) = Some t \<Longrightarrow> ct_kind t = Speedup k \<Longrightarrow> sc_spent (context_of k) = b"
proof (cases "st_funding s op")
  case (Some r)
  have "r\<lparr>fd_spent := fd_spent r\<rparr> = r" by simp
  then have "set_spent op b s = s\<lparr>st_funding := (st_funding s)(op \<mapsto> r\<lparr>fd_spent := b\<rparr>)\<rparr>"
    using Some by (auto simp: set_spent_def get_funding_record_def put_funding_record_def fun_upd_idem)
  with Some funding show thesis by blast
next
  case None
  show thesis
  proof (cases "\<exists>t k. st_txs s (op_txid op) = Some t \<and> ct_kind t = Speedup k \<and> sc_spent (context_of k) \<noteq> b")
    case True
    then obtain t k where "st_txs s (op_txid op) = Some t" "ct_kind t = Speedup k" "sc_spent (context_of k) \<noteq> b"
      by blast
    with None flag [of t k] show thesis by (simp add: set_spent_def get_funding_record_def get_tx_by_id_def)
  next
    case False
    with None have "set_spent op b s = s"
      by (auto simp: set_spent_def get_funding_record_def get_tx_by_id_def split: option.splits tx_kind.splits)
    with None same False show thesis by blast
  qed
qed

lemma only_fails_set_spent: "only_fails s (set_spent op b s)"
proof (cases "keyed s")
  case True
  show ?thesis
  proof (cases rule: set_spent_cases [of s op b])
    case (funding r)
    then show ?thesis by (auto intro: only_fails_same_txs)
  next
    case (flag t k)
    have "st_txs s (ct_txid t) = Some t" using flag(2) keyedD [OF True flag(2)] by simp
    then show ?thesis unfolding flag(4) by (rule only_fails_update) (simp add: fails_to_flags flag(3))
  next
    case same
    then show ?thesis by (simp add: failing.step_refl)
  qed
qed (simp add: only_fails_def)

lemma tx_state_update_same: "st_txs s (ct_txid t') = Some t \<Longrightarrow> ct_state t' = ct_state t \<Longrightarrow>
    tx_state (update_tx t' s) = tx_state s"
  by (auto simp: tx_state_def update_tx_def)

lemma tx_state_set_spent: "keyed s \<Longrightarrow> tx_state (set_spent op b s) = tx_state s"
proof (cases rule: set_spent_cases [of s op b])
  case (funding r)
  show ?thesis unfolding funding(2) by (rule tx_state_same_txs) simp
next
  case (flag t k)
  assume "keyed s"
  from keyedD [OF this flag(2)] flag(2) show ?thesis
    unfolding flag(4) by (intro tx_state_update_same [of _ _ t]) simp_all
qed simp

section \<open>Records to evaluate on\<close>

definition plain_tx :: "nat \<Rightarrow> transaction" where
  "plain_tx x = \<lparr>tx_input = [OutPoint 90 0], tx_output = [5000], tx_vsize = 150, tx_weight = 600,
                 tx_compute_txid = x\<rparr>"

definition plain_record :: "txid \<Rightarrow> tx_kind \<Rightarrow> transaction_state \<Rightarrow> coordinated_tx" where
  "plain_record x kind st =
     \<lparr>ct_txid = x, ct_tx = plain_tx x, ct_kind = kind, ct_state = st, ct_target_block_height = 100,
      ct_confirmation_trigger = None, ct_stuck_in_mempool_blocks = None, ct_settled_block_height = None,
      ct_broadcast_block_height = None, ct_fail_guard_until = None, ct_retry_count = 0,
      ct_fee_info = \<lparr>fi_fee = 300, fi_fee_rate = 2, fi_package_fee_rate = 2, fi_weight = 600\<rparr>,
      ct_context = ''client''\<rparr>"

definition plain_utxo :: "txid \<Rightarrow> utxo" where
  "plain_utxo x = \<lparr>u_txid = x, u_vout = 0, u_amount = 20000, u_pub_key = 0\<rparr>"

definition plain_cpfp :: "txid \<Rightarrow> txid list \<Rightarrow> txid \<Rightarrow> transaction_state \<Rightarrow> coordinated_tx" where
  "plain_cpfp x parents fund st = plain_record x (Speedup (CPFP parents
     \<lparr>sc_funding_inputs = [plain_utxo fund], sc_replaced_by = None, sc_bump_fee_used = Fin 1,
      sc_parent_data = [], sc_spent = False\<rparr>)) st"

definition empty_store :: store where
  "empty_store = \<lparr>st_txs = Map.empty, st_news = [], st_speedup_list = [], st_pending_parents = [],
                  st_funding_list = [], st_funding = Map.empty\<rparr>"

definition sorted_scan :: scan where
  "sorted_scan m = sorted_list_of_set (dom m)"

lemma sorted_scan_spec: "scan_spec sorted_scan"
  by (simp add: scan_spec_def sorted_scan_def)

end
