(* ===== verification/Engine_Cascade.thy ===== *)
theory Engine_Cascade
  imports Engine Store_Facts
begin

text \<open>
  What happens after a failed dispatch (\<open>settle_failed_dispatch\<close> and \<open>fail_and_cascade\<close> of
  \<open>src/engines/common.rs\<close>): the recursion ends, no step of it fails, and the transactions
  it fails are exactly the origin and the waiting speedups that depend on it, directly or
  through others.
\<close>

section \<open>The parts of settling keep the relation\<close>

lemma release_marks_only_fails:
  "only_fails s (release_marks coordinator_funding_storage us s)"
  unfolding release_marks_def
  by (rule failing.fold_related) (simp add: coordinator_funding_storage_def only_fails_set_spent)

lemma tx_state_release_marks:
  "keyed s \<Longrightarrow> tx_state (release_marks coordinator_funding_storage us s) = tx_state s"
  unfolding release_marks_def
proof (induction us arbitrary: s)
  case (Cons u us)
  have "keyed (set_spent (utxo_outpoint u) False s)"
    using only_failsD(1) [OF only_fails_set_spent Cons.prems] .
  with Cons show ?case by (simp add: coordinator_funding_storage_def tx_state_set_spent)
qed simp

lemma erase_set_replaced_by [simp]: "erase_flags (set_replaced_by r c) = erase_flags c"
  by (simp add: erase_flags_def set_replaced_by_def)

lemma clear_replaced_by_cases:
  obtains (flag) t k where "st_txs s x = Some t" "ct_kind t = Speedup k"
      "clear_replaced_by x s = update_tx (t\<lparr>ct_kind := Speedup (map_context (set_replaced_by None) k)\<rparr>) s"
  | (same) "clear_replaced_by x s = s"
  by (cases "st_txs s x"; cases "\<exists>k. ct_kind (the (st_txs s x)) = Speedup k")
    (auto simp: clear_replaced_by_def get_tx_by_id_def update_context_def split: tx_kind.splits)

lemma clear_replaced_by_effect:
  assumes "keyed s"
  shows "only_fails s (clear_replaced_by x s)" "tx_state (clear_replaced_by x s) = tx_state s"
proof (atomize (full), cases rule: clear_replaced_by_cases [of s x])
  case (flag t k)
  have id: "st_txs s (ct_txid t) = Some t" using flag(1) keyedD [OF assms flag(1)] by simp
  have "fails_to t (t\<lparr>ct_kind := Speedup (map_context (set_replaced_by None) k)\<rparr>)"
    by (rule fails_to_flags [OF flag(2)]) simp
  with id show "only_fails s (clear_replaced_by x s) \<and> tx_state (clear_replaced_by x s) = tx_state s"
    unfolding flag(3) by (auto intro!: only_fails_update tx_state_update_same [of _ _ t])
qed (simp add: failing.step_refl)

text \<open>The states after \<open>x\<close> failed where the lifecycle allows it.\<close>

definition failed_at :: "txid \<Rightarrow> store \<Rightarrow> txid \<Rightarrow> transaction_state option" where
  "failed_at x s = (\<lambda>y. if y = x \<and> tx_state s x \<in> {Some ToDispatch, Some InMempool}
                       then Some Failed else tx_state s y)"

text \<open>Settling a transaction as failed never returns an error.\<close>

lemma settle_tx_Failed:
  assumes "keyed s"
  shows "\<exists>s'. settle_tx x Failed h s = (Inr (), s') \<and> only_fails s s' \<and> tx_state s' = failed_at x s"
proof (cases "st_txs s x")
  case None
  then have "settle_tx x Failed h s = (Inr (), note_news (TxNotFound x) s)"
    by (simp add: settle_tx_def update_tx_state_impl_def get_tx_by_id_def)
  moreover have "tx_state s = failed_at x s"
    using None by (auto simp: failed_at_def tx_state_def)
  ultimately show ?thesis by (intro exI conjI) (assumption, rule only_fails_same_txs, simp_all)
next
  case (Some t)
  have id: "ct_txid t = x" using keyedD [OF assms Some] .
  show ?thesis
  proof (cases "can_transition_to (ct_state t) Failed")
    case False
    then have "settle_tx x Failed h s = (Inr (), note_news (InvalidStateTransition x (ct_state t) Failed) s)"
      using Some by (simp add: settle_tx_def update_tx_state_impl_def get_tx_by_id_def)
    moreover have "tx_state s = failed_at x s"
      using Some False by (auto simp: failed_at_def tx_state_def can_transition_into_Failed)
    ultimately show ?thesis by (intro exI conjI) (assumption, rule only_fails_same_txs, simp_all)
  next
    case True
    let ?t = "t\<lparr>ct_settled_block_height := Some h, ct_state := Failed\<rparr>"
    have f: "fails_to t ?t"
      using True by (auto simp: fails_to_def skeleton_def failable_def can_transition_into_Failed)
    have "settle_tx x Failed h s = (Inr (), update_tx ?t s)"
      using True Some by (simp add: settle_tx_def update_tx_state_impl_def get_tx_by_id_def)
    moreover have "only_fails s (update_tx ?t s)"
      using Some id f by (intro only_fails_update) simp_all
    moreover have "tx_state (update_tx ?t s) = failed_at x s"
      using True Some id by (auto simp: tx_state_def update_tx_def failed_at_def can_transition_into_Failed)
    ultimately show ?thesis by blast
  qed
qed

text \<open>The steps after the first of \<open>settle_failed_dispatch\<close> change flags and lists only.\<close>

definition quiet_step :: "store \<Rightarrow> store \<Rightarrow> bool" where
  "quiet_step s s' \<longleftrightarrow> only_fails s s' \<and> (keyed s \<longrightarrow> tx_state s' = tx_state s)"

interpretation quieter: step_relation quiet_step
proof
  show "quiet_step s s" for s by (simp add: quiet_step_def failing.step_refl)
  show "quiet_step s u" if st: "quiet_step s t" and tu: "quiet_step t u" for s t u
  proof -
    have "only_fails s u" using st tu unfolding quiet_step_def by (blast intro: only_fails_trans)
    moreover have "tx_state u = tx_state s" if "keyed s"
      using st tu only_failsD(1) [of s t] that unfolding quiet_step_def by metis
    ultimately show ?thesis unfolding quiet_step_def by blast
  qed
qed

lemma quiet_same_txs:
  "st_txs s' = st_txs s \<Longrightarrow> st_speedup_list s' = st_speedup_list s \<Longrightarrow> quiet_step s s'"
  unfolding quiet_step_def by (blast intro: only_fails_same_txs tx_state_same_txs)

lemma quiet_release: "quiet_step s (release_marks coordinator_funding_storage us s)"
  by (simp add: quiet_step_def release_marks_only_fails tx_state_release_marks)

lemma quiet_clear: "quiet_step s (clear_replaced_by x s)"
proof (cases "keyed s")
  case True
  then show ?thesis by (simp add: quiet_step_def clear_replaced_by_effect)
qed (simp add: quiet_step_def, simp add: only_fails_def)

lemma settle_failed_dispatch_run:
  assumes "keyed s"
  shows "\<exists>s'. settle_failed_dispatch t h fm s = (Inr (), s') \<and> only_fails s s'
    \<and> tx_state s' = failed_at (ct_txid t) s"
proof -
  obtain s1 where s1: "settle_tx (ct_txid t) Failed h s = (Inr (), s1)" "only_fails s s1"
    "tx_state s1 = failed_at (ct_txid t) s"
    using settle_tx_Failed [OF assms] by blast
  define s2 where "s2 = note_news (dispatch_error_news t (ct_txid t)) s1"
  define s3 where "s3 = (case ct_kind t of
      Speedup (CPFP _ c) \<Rightarrow> release_marks coordinator_funding_storage (sc_funding_inputs c) s2
    | Speedup (RBF r us _) \<Rightarrow> clear_replaced_by r (release_marks coordinator_funding_storage us s2)
    | _ \<Rightarrow> s2)"
  define s4 where "s4 = (if fm then requeue_protocol_parents t s3 else s3)"
  have "quiet_step s1 s2" unfolding s2_def by (rule quiet_same_txs) simp_all
  moreover have "quiet_step s2 s3"
    unfolding s3_def
    by (auto split: tx_kind.split speedup_kind.split
        intro: quieter.step_refl quiet_release quieter.step_trans [OF quiet_release quiet_clear])
  moreover have "quiet_step s3 s4"
    unfolding s4_def by (auto intro: quiet_same_txs quieter.step_refl)
  ultimately have q: "quiet_step s1 s4" by (meson quieter.step_trans)
  have "settle_failed_dispatch t h fm s = (Inr (), s4)"
    unfolding settle_failed_dispatch_def s4_def s3_def s2_def
    by (simp add: prog_simps s1(1) mark_parents_unspent_def speedup_kind_of_def
        split: tx_kind.split speedup_kind.split)
  moreover have "only_fails s s4"
    using s1(2) q only_fails_trans unfolding quiet_step_def by blast
  moreover have "tx_state s4 = tx_state s1"
    using q only_failsD(1) [OF s1(2) assms] by (simp add: quiet_step_def)
  ultimately show ?thesis using s1(3) by metis
qed

section \<open>Waiting speedups and what they depend on\<close>

definition waiting :: "store \<Rightarrow> txid \<Rightarrow> coordinated_tx \<Rightarrow> bool" where
  "waiting s x d \<longleftrightarrow> x \<in> set (st_speedup_list s) \<and> st_txs s x = Some d \<and> ct_state d = ToDispatch"

text \<open>No waiting speedup depends on \<open>p\<close>.\<close>

definition no_dependent :: "store \<Rightarrow> txid \<Rightarrow> bool" where
  "no_dependent s p \<longleftrightarrow> (\<forall>x d. waiting s x d \<longrightarrow> \<not> depends_on_tx d p)"

text \<open>
  The origin of a cascade is doomed, and so is every waiting speedup that is funded by, or
  covers, a doomed transaction.
\<close>

inductive doomed :: "store \<Rightarrow> txid \<Rightarrow> txid \<Rightarrow> bool" for s origin where
  origin: "doomed s origin origin"
| dependent: "doomed s origin p \<Longrightarrow> waiting s x d \<Longrightarrow> depends_on_tx d p \<Longrightarrow> doomed s origin x"

lemma doomed_trans: "doomed s p x \<Longrightarrow> doomed s origin p \<Longrightarrow> doomed s origin x"
  by (induction rule: doomed.induct) (auto intro: doomed.dependent)

lemma depends_on_tx_map_context [simp]:
  "depends_on_tx (t\<lparr>ct_state := st, ct_settled_block_height := h, ct_kind := erase_kind (ct_kind t)\<rparr>) p
    = depends_on_tx t p"
proof (cases "ct_kind t")
  case (Speedup k)
  then show ?thesis by (cases k) (simp_all add: depends_on_tx_def speedup_kind_of_def erase_flags_def)
qed (simp_all add: depends_on_tx_def speedup_kind_of_def)

lemma depends_on_tx_skeleton: "skeleton t' = skeleton t \<Longrightarrow> depends_on_tx t' p = depends_on_tx t p"
  unfolding skeleton_def using depends_on_tx_map_context by metis

lemma waiting_before:
  assumes "only_fails s s'" "keyed s" "waiting s' x d'"
  shows "\<exists>d. waiting s x d \<and> (\<forall>p. depends_on_tx d p = depends_on_tx d' p)"
proof -
  have "rel_option fails_to (st_txs s x) (st_txs s' x)" using only_failsD(3) [OF assms(1,2)] .
  then obtain d where d: "st_txs s x = Some d" "fails_to d d'"
    using assms(3) by (auto simp: waiting_def option_rel_Some2)
  then have "waiting s x d"
    using assms(3) only_failsD(2) [OF assms(1,2)] by (auto simp: waiting_def fails_to_def)
  moreover have "\<forall>p. depends_on_tx d p = depends_on_tx d' p"
    using d(2) depends_on_tx_skeleton [of d d'] by (simp add: fails_to_def)
  ultimately show ?thesis by blast
qed

lemma no_dependent_later: "only_fails s s' \<Longrightarrow> keyed s \<Longrightarrow> no_dependent s p \<Longrightarrow> no_dependent s' p"
  unfolding no_dependent_def using waiting_before by metis

lemma doomed_before: "doomed s' origin x \<Longrightarrow> only_fails s s' \<Longrightarrow> keyed s \<Longrightarrow> doomed s origin x"
proof (induction rule: doomed.induct)
  case origin
  show ?case by (rule doomed.origin)
next
  case (dependent p x d)
  then show ?case using waiting_before [of s s' x d] doomed.dependent by metis
qed

lemma tx_state_only_fails:
  assumes "only_fails s s'" "keyed s"
  shows "tx_state s' x = tx_state s x \<or>
    tx_state s x \<in> {Some ToDispatch, Some InMempool} \<and> tx_state s' x = Some Failed"
  using only_failsD(3) [OF assms, of x]
  by (cases "st_txs s x"; cases "st_txs s' x") (auto simp: tx_state_def fails_to_def failable_def)

lemma waiting_tx_state: "waiting s x d \<Longrightarrow> tx_state s x = Some ToDispatch"
  by (simp add: waiting_def tx_state_def)

section \<open>The recursion ends\<close>

definition waiting_count :: "store \<Rightarrow> nat" where
  "waiting_count s = length (filter (\<lambda>x. tx_state s x = Some ToDispatch) (st_speedup_list s))"

lemma waiting_count_decreases:
  assumes "only_fails s s'" "keyed s" "waiting s x d" "tx_state s' x \<noteq> Some ToDispatch"
  shows "waiting_count s' < waiting_count s"
  unfolding waiting_count_def only_failsD(2) [OF assms(1,2)]
proof (rule length_filter_less_at [of _ _ x])
  show "tx_state s y = Some ToDispatch" if "tx_state s' y = Some ToDispatch" for y
    using tx_state_only_fails [OF assms(1,2), of y] that by auto
qed (use assms(3,4) in \<open>auto simp: waiting_def tx_state_def\<close>)

lemma waiting_count_le: "waiting_count s \<le> length (st_speedup_list s)"
  by (simp add: waiting_count_def)

section \<open>What a cascade does\<close>

definition cascade_post :: "store \<Rightarrow> txid \<Rightarrow> store \<Rightarrow> bool" where
  "cascade_post s origin s' \<longleftrightarrow> only_fails s s' \<and> no_dependent s' origin
     \<and> tx_state s' origin \<notin> {Some ToDispatch, Some InMempool}
     \<and> (\<forall>x. tx_state s' x \<noteq> tx_state s x \<longrightarrow> doomed s origin x \<and> no_dependent s' x)"

text \<open>The loop over the waiting speedups, given what the recursive calls do.\<close>

lemma cascade_loop:
  assumes call: "\<And>d si. d \<in> set ds \<Longrightarrow> depends_on_tx d origin \<Longrightarrow> only_fails s1 si \<Longrightarrow>
      \<exists>s'. f d si = (Inr (), s') \<and> cascade_post si (ct_txid d) s'"
    and s1: "keyed s1" and ds: "\<And>d. d \<in> set ds \<Longrightarrow> waiting s1 (ct_txid d) d"
    and si: "only_fails s1 si"
  shows "\<exists>s'. pfor ds (\<lambda>d. if depends_on_tx d origin then f d else pret ()) si = (Inr (), s')
    \<and> only_fails si s'
    \<and> (\<forall>x. tx_state s' x \<noteq> tx_state si x \<longrightarrow> doomed s1 origin x \<and> no_dependent s' x)
    \<and> (\<forall>d \<in> set ds. depends_on_tx d origin \<longrightarrow> tx_state s' (ct_txid d) \<noteq> Some ToDispatch)"
  using call ds si
proof (induction ds arbitrary: si)
  case Nil
  then show ?case by (simp add: prog_simps failing.step_refl)
next
  case (Cons d ds)
  have ki: "keyed si" using only_failsD(1) [OF Cons.prems(3) s1] .
  show ?case
  proof (cases "depends_on_tx d origin")
    case False
    have "\<exists>s'. pfor ds (\<lambda>d. if depends_on_tx d origin then f d else pret ()) si = (Inr (), s')
        \<and> only_fails si s'
        \<and> (\<forall>x. tx_state s' x \<noteq> tx_state si x \<longrightarrow> doomed s1 origin x \<and> no_dependent s' x)
        \<and> (\<forall>d \<in> set ds. depends_on_tx d origin \<longrightarrow> tx_state s' (ct_txid d) \<noteq> Some ToDispatch)"
      using Cons.IH [OF Cons.prems(1) Cons.prems(2) Cons.prems(3)] by simp
    with False show ?thesis by (simp add: prog_simps)
  next
    case True
    obtain s2 where s2: "f d si = (Inr (), s2)" "cascade_post si (ct_txid d) s2"
      using Cons.prems(1) [OF _ True Cons.prems(3)] by auto
    note post = s2(2) [unfolded cascade_post_def]
    have o2: "only_fails si s2" using post by blast
    have k2: "keyed s2" using only_failsD(1) [OF o2 ki] .
    have o12: "only_fails s1 s2" using Cons.prems(3) o2 by (rule only_fails_trans)
    obtain s3 where s3: "pfor ds (\<lambda>d. if depends_on_tx d origin then f d else pret ()) s2 = (Inr (), s3)"
        "only_fails s2 s3"
        "\<And>x. tx_state s3 x \<noteq> tx_state s2 x \<Longrightarrow> doomed s1 origin x \<and> no_dependent s3 x"
        "\<And>d. d \<in> set ds \<Longrightarrow> depends_on_tx d origin \<Longrightarrow> tx_state s3 (ct_txid d) \<noteq> Some ToDispatch"
      using Cons.IH [OF Cons.prems(1) Cons.prems(2) o12] by auto
    have d: "doomed s1 origin (ct_txid d)"
      using Cons.prems(2) [of d] True by (auto intro: doomed.dependent doomed.origin)
    have change: "doomed s1 origin x \<and> no_dependent s3 x" if "tx_state s3 x \<noteq> tx_state si x" for x
    proof (cases "tx_state s3 x = tx_state s2 x")
      case True
      then have "doomed si (ct_txid d) x \<and> no_dependent s2 x" using post that by metis
      then show ?thesis
        using doomed_before [OF _ Cons.prems(3) s1] doomed_trans [OF _ d] no_dependent_later [OF s3(2) k2]
        by blast
    qed (rule s3(3))
    have "tx_state s3 (ct_txid d) \<noteq> Some ToDispatch"
      using tx_state_only_fails [OF s3(2) k2, of "ct_txid d"] post by auto
    moreover have "only_fails si s3" using o2 s3(2) by (rule only_fails_trans)
    ultimately show ?thesis using True s2(1) s3(1,4) change
      by (intro exI [of _ s3]) (auto simp: prog_simps)
  qed
qed

lemma get_speedups_waiting:
  assumes "keyed s"
  shows "d \<in> set (filter (\<lambda>t. ct_state t = ToDispatch) (get_speedups_ordered s)) \<longleftrightarrow> waiting s (ct_txid d) d"
proof -
  have "d \<in> set (get_speedups_ordered s) \<longleftrightarrow> (\<exists>x \<in> set (st_speedup_list s). st_txs s x = Some d)"
    by (simp add: get_speedups_ordered_def mem_map_filter)
  also have "\<dots> \<longleftrightarrow> ct_txid d \<in> set (st_speedup_list s) \<and> st_txs s (ct_txid d) = Some d"
    using keyedD [OF assms] by metis
  finally show ?thesis by (simp add: waiting_def)
qed

lemma cascade_run:
  assumes "keyed s" "waiting_count (snd (settle_failed_dispatch t h fm s)) < fuel"
  shows "\<exists>s'. cascade fuel t h fm s = (Inr (), s') \<and> cascade_post s (ct_txid t) s'"
  using assms
proof (induction fuel arbitrary: t fm s)
  case 0
  then show ?case by simp
next
  case (Suc fuel)
  let ?origin = "ct_txid t"
  obtain s1 where s1: "settle_failed_dispatch t h fm s = (Inr (), s1)" "only_fails s s1"
    "tx_state s1 = failed_at ?origin s"
    using settle_failed_dispatch_run [OF Suc.prems(1)] by blast
  have k1: "keyed s1" using only_failsD(1) [OF s1(2) Suc.prems(1)] .
  let ?ds = "filter (\<lambda>t. ct_state t = ToDispatch) (get_speedups_ordered s1)"
  have ds: "waiting s1 (ct_txid d) d" if "d \<in> set ?ds" for d
    using get_speedups_waiting [OF k1] that by blast
  have call: "\<exists>s'. cascade fuel d h True si = (Inr (), s') \<and> cascade_post si (ct_txid d) s'"
    if "d \<in> set ?ds" "depends_on_tx d ?origin" "only_fails s1 si" for d si
  proof (rule Suc.IH)
    show ki: "keyed si" using only_failsD(1) [OF that(3) k1] .
    obtain s2 where s2: "settle_failed_dispatch d h True si = (Inr (), s2)" "only_fails si s2"
      "tx_state s2 = failed_at (ct_txid d) si"
      using settle_failed_dispatch_run [OF ki] by blast
    have "tx_state s2 (ct_txid d) \<noteq> Some ToDispatch" by (simp add: s2(3) failed_at_def)
    with waiting_count_decreases [OF only_fails_trans [OF that(3) s2(2)] k1 ds [OF that(1)]]
    have "waiting_count s2 < waiting_count s1" by blast
    then show "waiting_count (snd (settle_failed_dispatch d h True si)) < fuel"
      using Suc.prems(2) s1(1) s2(1) by simp
  qed
  obtain s' where s': "pfor ?ds (\<lambda>d. if depends_on_tx d ?origin then cascade fuel d h True else pret ()) s1
        = (Inr (), s')" "only_fails s1 s'"
      "\<And>x. tx_state s' x \<noteq> tx_state s1 x \<Longrightarrow> doomed s1 ?origin x \<and> no_dependent s' x"
      "\<And>d. d \<in> set ?ds \<Longrightarrow> depends_on_tx d ?origin \<Longrightarrow> tx_state s' (ct_txid d) \<noteq> Some ToDispatch"
    using cascade_loop [of ?ds ?origin s1 "\<lambda>d. cascade fuel d h True" s1, OF call k1 ds failing.step_refl]
    by blast
  have run: "cascade (Suc fuel) t h fm s = (Inr (), s')" by (simp add: prog_simps s1(1) s'(1))
  have quiet: "no_dependent s' ?origin"
    unfolding no_dependent_def
  proof (intro allI impI)
    fix x d' assume w: "waiting s' x d'"
    obtain d where d: "waiting s1 x d" "\<forall>p. depends_on_tx d p = depends_on_tx d' p"
      using waiting_before [OF s'(2) k1 w] by blast
    have id: "ct_txid d = x" using d(1) keyedD [OF k1] by (simp add: waiting_def)
    have "d \<in> set ?ds" using get_speedups_waiting [OF k1] d(1) id by blast
    then show "\<not> depends_on_tx d' ?origin" using s'(4) [of d] d(2) id waiting_tx_state [OF w] by auto
  qed
  have origin: "tx_state s' ?origin \<notin> {Some ToDispatch, Some InMempool}"
    using tx_state_only_fails [OF s'(2) k1, of ?origin] by (auto simp: s1(3) failed_at_def split: if_splits)
  have change: "doomed s ?origin x \<and> no_dependent s' x" if "tx_state s' x \<noteq> tx_state s x" for x
  proof (cases "tx_state s' x = tx_state s1 x")
    case True
    then have "x = ?origin" using that by (auto simp: s1(3) failed_at_def split: if_splits)
    then show ?thesis using quiet doomed.origin by blast
  next
    case False
    then show ?thesis using s'(3) [of x] doomed_before [OF _ s1(2) Suc.prems(1)] by blast
  qed
  have "only_fails s s'" using s1(2) s'(2) by (rule only_fails_trans)
  then show ?case using run quiet origin change unfolding cascade_post_def by blast
qed

lemma doomed_failed:
  assumes k: "keyed s" and post: "cascade_post s origin s'" and x: "doomed s origin x"
  shows "no_dependent s' x \<and> tx_state s' x \<notin> {Some ToDispatch, Some InMempool}"
  using x
proof (induction rule: doomed.induct)
  case origin
  then show ?case using post by (simp add: cascade_post_def)
next
  case (dependent p x d)
  have o: "only_fails s s'" using post by (simp add: cascade_post_def)
  note st = tx_state_only_fails [OF o k, of x] waiting_tx_state [OF dependent.hyps(2)]
  have "tx_state s' x \<noteq> Some ToDispatch"
  proof
    assume "tx_state s' x = Some ToDispatch"
    moreover have "x \<in> set (st_speedup_list s')"
      using dependent.hyps(2) only_failsD(2) [OF o k] by (simp add: waiting_def)
    ultimately obtain d' where d': "waiting s' x d'" by (auto simp: waiting_def tx_state_def)
    obtain d2 where "waiting s x d2" "\<forall>p. depends_on_tx d2 p = depends_on_tx d' p"
      using waiting_before [OF o k d'] by blast
    then have "depends_on_tx d' p" using dependent.hyps(2,3) by (simp add: waiting_def)
    then show False using dependent.IH d' by (auto simp: no_dependent_def)
  qed
  with st have f: "tx_state s' x = Some Failed" by auto
  then have "no_dependent s' x" using post st(2) by (simp add: cascade_post_def)
  with f show ?case by simp
qed

lemma fail_and_cascade_run:
  assumes "keyed s"
  shows "\<exists>s'. fail_and_cascade t h fm s = (Inr (), s') \<and> cascade_post s (ct_txid t) s'"
proof -
  obtain s1 where s1: "settle_failed_dispatch t h fm s = (Inr (), s1)" "only_fails s s1"
    using settle_failed_dispatch_run [OF assms] by blast
  have "waiting_count s1 < Suc (length (st_speedup_list s))"
    using waiting_count_le [of s1] only_failsD(2) [OF s1(2) assms] by simp
  then have "waiting_count (snd (settle_failed_dispatch t h fm s)) < Suc (length (st_speedup_list s))"
    by (simp add: s1(1))
  from cascade_run [OF assms this] show ?thesis unfolding fail_and_cascade_def .
qed

lemma fail_and_cascade_keeps: "keeps only_fails (fail_and_cascade t h fm)"
  unfolding keeps_def
proof
  fix s
  show "only_fails s (snd (fail_and_cascade t h fm s))"
    using fail_and_cascade_run [of s t h fm]
    by (cases "keyed s") (auto simp: cascade_post_def, simp add: only_fails_def)
qed

text \<open>
  C1. \<open>fail_and_cascade\<close> always returns, without an error, and settles exactly the right
  transactions: after it, a transaction is \<open>Failed\<close> that was not before exactly when it was
  not yet mined and it is the failed transaction itself or a waiting speedup that depends on
  it, directly or through other waiting speedups, by its primary funding input or by
  covering it. Every other transaction keeps its state. The recursion of the code over a
  stale list of speedups may visit a speedup twice, and still ends.
\<close>

theorem fail_and_cascade_exact:
  assumes "keyed s"
  shows "\<exists>s'. fail_and_cascade t current_height funding_missing s = (Inr (), s')
    \<and> tx_state s' = (\<lambda>x. if doomed s (ct_txid t) x \<and> tx_state s x \<in> {Some ToDispatch, Some InMempool}
                         then Some Failed else tx_state s x)"
proof -
  obtain s' where s': "fail_and_cascade t current_height funding_missing s = (Inr (), s')"
      "cascade_post s (ct_txid t) s'"
    using fail_and_cascade_run [OF assms] by blast
  have o: "only_fails s s'" using s'(2) by (simp add: cascade_post_def)
  have "tx_state s' x = (if doomed s (ct_txid t) x \<and> tx_state s x \<in> {Some ToDispatch, Some InMempool}
                         then Some Failed else tx_state s x)" for x
  proof (cases "tx_state s' x = tx_state s x")
    case True
    then show ?thesis using doomed_failed [OF assms s'(2), of x] by auto
  next
    case False
    then have "doomed s (ct_txid t) x" using s'(2) by (simp add: cascade_post_def)
    then show ?thesis using tx_state_only_fails [OF o assms, of x] False by auto
  qed
  then show ?thesis using s'(1) by blast
qed

text \<open>
  An instance: a waiting CPFP with id 10 that covers the parent 2, a waiting boost 11 that
  is funded by the change of 10, and a waiting CPFP 12 with funding of its own.
\<close>

definition cascade_store :: store where
  "cascade_store =
     empty_store\<lparr>st_txs := [2 \<mapsto> plain_record 2 Normal InMempool, 10 \<mapsto> plain_cpfp 10 [2] 90 ToDispatch,
          11 \<mapsto> plain_cpfp 11 [10] 10 ToDispatch, 12 \<mapsto> plain_cpfp 12 [2] 91 ToDispatch],
        st_speedup_list := [10, 11, 12]\<rparr>"

lemma cascade_store_keyed: "keyed cascade_store"
  by (simp add: keyed_def cascade_store_def plain_cpfp_def plain_record_def)

lemma depends_on_plain_cpfp: "depends_on_tx (plain_cpfp x parents fund st) p \<longleftrightarrow> p = fund \<or> p \<in> set parents"
  by (auto simp: depends_on_tx_def speedup_kind_of_def plain_cpfp_def plain_record_def plain_utxo_def)

lemma cascade_store_waiting:
  "waiting cascade_store x d \<longleftrightarrow>
     x = 10 \<and> d = plain_cpfp 10 [2] 90 ToDispatch \<or> x = 11 \<and> d = plain_cpfp 11 [10] 10 ToDispatch
     \<or> x = 12 \<and> d = plain_cpfp 12 [2] 91 ToDispatch"
  by (auto simp: waiting_def cascade_store_def plain_cpfp_def plain_record_def)

lemma cascade_store_doomed: "doomed cascade_store 10 x \<longleftrightarrow> x = 10 \<or> x = 11"
proof
  show "doomed cascade_store 10 x \<Longrightarrow> x = 10 \<or> x = 11"
    by (induction rule: doomed.induct) (auto simp: cascade_store_waiting depends_on_plain_cpfp)
  have "doomed cascade_store 10 11"
    by (rule doomed.dependent [OF doomed.origin, of _ _ "plain_cpfp 11 [10] 10 ToDispatch"])
      (simp_all add: cascade_store_waiting depends_on_plain_cpfp)
  then show "x = 10 \<or> x = 11 \<Longrightarrow> doomed cascade_store 10 x" by (auto intro: doomed.origin)
qed

theorem fail_and_cascade_exact_witness:
  "\<exists>s'. fail_and_cascade (plain_cpfp 10 [2] 90 ToDispatch) 120 False cascade_store = (Inr (), s')
    \<and> tx_state s' 10 = Some Failed \<and> tx_state s' 11 = Some Failed
    \<and> tx_state s' 12 = Some ToDispatch \<and> tx_state s' 2 = Some InMempool"
proof -
  have id: "ct_txid (plain_cpfp 10 [2] 90 ToDispatch) = 10" by (simp add: plain_cpfp_def plain_record_def)
  have st: "tx_state cascade_store 10 = Some ToDispatch" "tx_state cascade_store 11 = Some ToDispatch"
    "tx_state cascade_store 12 = Some ToDispatch" "tx_state cascade_store 2 = Some InMempool"
    by (simp_all add: tx_state_def cascade_store_def plain_cpfp_def plain_record_def)
  obtain s' where s': "fail_and_cascade (plain_cpfp 10 [2] 90 ToDispatch) 120 False cascade_store = (Inr (), s')"
    "tx_state s' = (\<lambda>x. if (x = 10 \<or> x = 11) \<and> tx_state cascade_store x \<in> {Some ToDispatch, Some InMempool}
                       then Some Failed else tx_state cascade_store x)"
    using fail_and_cascade_exact [OF cascade_store_keyed, of "plain_cpfp 10 [2] 90 ToDispatch" 120 False]
    unfolding id cascade_store_doomed by blast
  then show ?thesis by (simp add: s'(2) st)
qed

end
