(* ===== verification/Funding_Facts.thy ===== *)
theory Funding_Facts
  imports Funding Store_Facts
begin

text \<open>
  The contract between the funding manager and its storage, as a locale, its discharge by
  the funding queue of the coordinator's store, and what follows for reservations: no
  output is reserved twice, a released reservation leaves no trace, and a second input is
  never a speedup's change.
\<close>

section \<open>The contract\<close>

text \<open>The queue after the reservation of the record at an outpoint changed.\<close>

definition mark_record :: "out_point \<Rightarrow> bool \<Rightarrow> funding_data \<Rightarrow> funding_data" where
  "mark_record op b r = (if utxo_outpoint (fd_utxo r) = op then r\<lparr>fd_spent := b\<rparr> else r)"

definition mark_records :: "out_point \<Rightarrow> bool \<Rightarrow> funding_data list \<Rightarrow> funding_data list" where
  "mark_records op b rs = map (mark_record op b) rs"

lemma mark_record_sel [simp]:
  "fd_utxo (mark_record op b r) = fd_utxo r" "fd_from_speedup (mark_record op b r) = fd_from_speedup r"
  by (simp_all add: mark_record_def)

lemma mark_record_spent: "utxo_outpoint (fd_utxo r) = op \<Longrightarrow> fd_spent (mark_record op b r) = b"
  by (simp add: mark_record_def)

lemma mark_records_spent:
  "r \<in> set (mark_records op True rs) \<Longrightarrow> utxo_outpoint (fd_utxo r) = op \<Longrightarrow> fd_spent r"
  unfolding mark_records_def set_map by (elim imageE) (simp add: mark_record_spent)

locale funding_store =
  fixes fs :: "'s funding_storage" and ok :: "'s \<Rightarrow> bool"
  assumes ok_set_spent: "ok s \<Longrightarrow> ok (fs_set_spent fs op b s)"
    and read_set_spent: "ok s \<Longrightarrow>
      fs_read_funding_records fs (fs_set_spent fs op b s) = mark_records op b (fs_read_funding_records fs s)"
    and ok_append: "ok s \<Longrightarrow> ok (fs_append_funding fs u s)"
    and read_append: "ok s \<Longrightarrow> utxo_outpoint u \<notin> (\<lambda>r. utxo_outpoint (fd_utxo r)) ` set (fs_read_funding_records fs s) \<Longrightarrow>
      fs_read_funding_records fs (fs_append_funding fs u s) =
        fs_read_funding_records fs s @ [\<lparr>fd_utxo = u, fd_spent = False, fd_from_speedup = False\<rparr>]"
    and ok_clear: "ok s \<Longrightarrow> ok (fs_clear_funding_records fs s)"
    and read_clear: "ok s \<Longrightarrow> fs_read_funding_records fs (fs_clear_funding_records fs s) = []"
begin

text \<open>A second input is the first record of the queue that is free and not a speedup's change.\<close>

lemma combine_first_free:
  assumes "ok s" and run: "get_combine_funding fs s = (Some u, s')"
  shows "\<exists>pre r post. fs_read_funding_records fs s = pre @ r # post \<and> fd_utxo r = u
    \<and> \<not> fd_from_speedup r \<and> \<not> fd_spent r \<and> (\<forall>q \<in> set pre. fd_from_speedup q \<or> fd_spent q)
    \<and> fs_read_funding_records fs s' = mark_records (utxo_outpoint u) True (fs_read_funding_records fs s)
    \<and> ok s'"
proof -
  obtain r where r: "find (\<lambda>r. \<not> (fd_from_speedup r \<or> fd_spent r)) (fs_read_funding_records fs s) = Some r"
      "u = fd_utxo r" "s' = fs_set_spent fs (utxo_outpoint u) True s"
    using run by (auto simp: get_combine_funding_def split: option.splits)
  then obtain i where i: "i < length (fs_read_funding_records fs s)" "fs_read_funding_records fs s ! i = r"
      "\<not> (fd_from_speedup r \<or> fd_spent r)"
      "\<forall>j<i. fd_from_speedup (fs_read_funding_records fs s ! j) \<or> fd_spent (fs_read_funding_records fs s ! j)"
    by (auto simp: find_Some_iff)
  have "fs_read_funding_records fs s =
      take i (fs_read_funding_records fs s) @ r # drop (Suc i) (fs_read_funding_records fs s)"
    using id_take_nth_drop [OF i(1)] i(2) by simp
  moreover have free: "\<forall>q \<in> set (take i (fs_read_funding_records fs s)). fd_from_speedup q \<or> fd_spent q"
  proof
    fix q assume "q \<in> set (take i (fs_read_funding_records fs s))"
    then obtain j where "j < i" "q = fs_read_funding_records fs s ! j"
      by (auto simp: in_set_conv_nth)
    then show "fd_from_speedup q \<or> fd_spent q" using i(4) by blast
  qed
  ultimately show ?thesis
    using i(3) r(2,3) read_set_spent [OF assms(1)] ok_set_spent [OF assms(1)] by metis
qed

lemma combine_none:
  "get_combine_funding fs s = (None, s') \<Longrightarrow>
     s' = s \<and> (\<forall>r \<in> set (fs_read_funding_records fs s). fd_from_speedup r \<or> fd_spent r)"
  by (auto simp: get_combine_funding_def find_None_iff split: option.splits)

text \<open>An output that is reserved is not offered again by the queue.\<close>

lemma reserved_not_offered:
  assumes "ok s" "find (\<lambda>r. \<not> fd_spent r) (fs_read_funding_records fs (fs_set_spent fs op True s)) = Some r"
  shows "utxo_outpoint (fd_utxo r) \<noteq> op"
  using assms(2) mark_records_spent [of r op "fs_read_funding_records fs s"]
  by (auto simp: read_set_spent [OF assms(1)] find_Some_iff)

text \<open>Funding that validation accepts is queued last and free; what it refuses changes nothing.\<close>

lemma set_funding_appends:
  assumes "ok s" "utxo_outpoint u \<notin> (\<lambda>r. utxo_outpoint (fd_utxo r)) ` set (fs_read_funding_records fs s)"
  shows "(case set_funding settings fs u s of
      (None, s') \<Rightarrow> min_funding_amount_sats settings \<le> u_amount u \<and> ok s'
         \<and> fs_read_funding_records fs s' =
             fs_read_funding_records fs s @ [\<lparr>fd_utxo = u, fd_spent = False, fd_from_speedup = False\<rparr>]
    | (Some n, s') \<Rightarrow> u_amount u < min_funding_amount_sats settings \<and> s' = s
         \<and> n = InvalidFundingUtxo (u_amount u) (min_funding_amount_sats settings))"
  using assms by (auto simp: set_funding_def validate_funding_def ok_append read_append not_less)

lemma cleared_has_no_funding: "ok s \<Longrightarrow> \<not> has_funding fs (clear_funding fs s)"
  by (simp add: has_funding_def clear_funding_def read_clear)

end

section \<open>The queue of the store\<close>

definition queue_ok :: "store \<Rightarrow> bool" where
  "queue_ok s \<longleftrightarrow> (\<forall>op r. st_funding s op = Some r \<longrightarrow> utxo_outpoint (fd_utxo r) = op)
     \<and> dom (st_funding s) = set (st_funding_list s)"

lemma queue_okD: "queue_ok s \<Longrightarrow> st_funding s op = Some r \<Longrightarrow> utxo_outpoint (fd_utxo r) = op"
  by (simp add: queue_ok_def)

lemma update_tx_queue [simp]:
  "st_funding (update_tx t s) = st_funding s" "st_funding_list (update_tx t s) = st_funding_list s"
  by (simp_all add: update_tx_def)

lemma set_spent_queue:
  "st_funding_list (set_spent op b s) = st_funding_list s"
  "st_funding (set_spent op b s) = (case st_funding s op of
     Some r \<Rightarrow> (st_funding s)(op \<mapsto> r\<lparr>fd_spent := b\<rparr>) | None \<Rightarrow> st_funding s)"
  by (cases rule: set_spent_cases [of s op b]; simp)+

lemma mark_records_map_filter:
  assumes "\<And>op r. m op = Some r \<Longrightarrow> utxo_outpoint (fd_utxo r) = op"
  shows "List.map_filter (case m op of Some r \<Rightarrow> m(op \<mapsto> r\<lparr>fd_spent := b\<rparr>) | None \<Rightarrow> m) xs
    = mark_records op b (List.map_filter m xs)"
proof (cases "m op")
  case None
  have "mark_records op b (List.map_filter m xs) = List.map_filter m xs"
  proof (induction xs)
    case (Cons x xs)
    then show ?case using assms [of x] None
      by (cases "m x") (auto simp: mark_records_def mark_record_def List.map_filter_simps)
  qed (simp add: mark_records_def List.map_filter_simps)
  with None show ?thesis by simp
next
  case (Some q)
  have "List.map_filter (m(op \<mapsto> q\<lparr>fd_spent := b\<rparr>)) xs = mark_records op b (List.map_filter m xs)"
  proof (induction xs)
    case (Cons x xs)
    then show ?case using assms [of x] Some
      by (cases "m x"; cases "x = op") (auto simp: mark_records_def mark_record_def List.map_filter_simps)
  qed (simp add: mark_records_def List.map_filter_simps)
  with Some show ?thesis by simp
qed

lemma append_funding_queue:
  "st_funding (append_funding u s) =
     (st_funding s)(utxo_outpoint u \<mapsto> \<lparr>fd_utxo = u, fd_spent = False, fd_from_speedup = False\<rparr>)"
  "st_funding_list (append_funding u s) = push_new (utxo_outpoint u) (st_funding_list s)"
  by (simp_all add: append_funding_def put_funding_record_def set_funding_list_def push_new_def Let_def)

lemma drop_records_queue:
  "st_funding (fold drop_funding_record ops s) = (st_funding s) |` (- set ops)"
  "st_funding_list (fold drop_funding_record ops s) = st_funding_list s"
  by (induction ops arbitrary: s) (auto simp: drop_funding_record_def restrict_map_def fun_eq_iff)

lemma clear_funding_queue:
  "st_funding (clear_funding_records s) = (st_funding s) |` (- set (st_funding_list s))"
  "st_funding_list (clear_funding_records s) = []"
  by (simp_all add: clear_funding_records_def set_funding_list_def drop_records_queue)

interpretation queue: funding_store coordinator_funding_storage queue_ok
proof
  fix s op b u
  assume ok: "queue_ok s"
  show "queue_ok (fs_set_spent coordinator_funding_storage op b s)"
    using ok by (auto simp: coordinator_funding_storage_def queue_ok_def set_spent_queue split: option.splits)
  show "fs_read_funding_records coordinator_funding_storage (fs_set_spent coordinator_funding_storage op b s)
      = mark_records op b (fs_read_funding_records coordinator_funding_storage s)"
    using mark_records_map_filter [OF queue_okD [OF ok]]
    by (simp add: coordinator_funding_storage_def read_funding_records_def set_spent_queue)
  show "queue_ok (fs_append_funding coordinator_funding_storage u s)"
    using ok by (auto simp: coordinator_funding_storage_def queue_ok_def append_funding_queue)
  show "queue_ok (fs_clear_funding_records coordinator_funding_storage s)"
    using ok by (auto simp: coordinator_funding_storage_def queue_ok_def clear_funding_queue restrict_map_def
        fun_eq_iff dom_def)
  show "fs_read_funding_records coordinator_funding_storage (fs_clear_funding_records coordinator_funding_storage s) = []"
    by (simp add: coordinator_funding_storage_def read_funding_records_def clear_funding_queue List.map_filter_simps)
next
  fix s u
  assume ok: "queue_ok s" and new: "utxo_outpoint u \<notin> (\<lambda>r. utxo_outpoint (fd_utxo r)) `
    set (fs_read_funding_records coordinator_funding_storage s)"
  have u: "utxo_outpoint u \<notin> set (st_funding_list s)"
  proof
    assume m: "utxo_outpoint u \<in> set (st_funding_list s)"
    then obtain r where r: "st_funding s (utxo_outpoint u) = Some r"
      using ok unfolding queue_ok_def by blast
    have "r \<in> set (fs_read_funding_records coordinator_funding_storage s)"
      using m r by (auto simp: coordinator_funding_storage_def read_funding_records_def mem_map_filter)
    then show False using new queue_okD [OF ok r] by (metis image_eqI)
  qed
  let ?r = "\<lparr>fd_utxo = u, fd_spent = False, fd_from_speedup = False\<rparr>"
  have "List.map_filter ((st_funding s)(utxo_outpoint u \<mapsto> ?r)) (st_funding_list s)
      = List.map_filter (st_funding s) (st_funding_list s)"
    by (rule map_filter_cong) (use u in auto)
  then show "fs_read_funding_records coordinator_funding_storage (fs_append_funding coordinator_funding_storage u s) =
      fs_read_funding_records coordinator_funding_storage s @ [?r]"
    using u by (simp add: coordinator_funding_storage_def read_funding_records_def append_funding_queue push_new_def
        map_filter_append List.map_filter_simps)
qed

section \<open>Reservations\<close>

text \<open>
  The outputs of listed speedups are not in the queue: a speedup's change is queued when the
  speedup leaves the list.
\<close>

definition tips_not_queued :: "store \<Rightarrow> bool" where
  "tips_not_queued s \<longleftrightarrow> (\<forall>op. op_txid op \<in> set (st_speedup_list s) \<longrightarrow> st_funding s op = None)"

text \<open>A free output: the change of a speedup, or a record. The manager offers records and changes of listed speedups.\<close>

definition free_output :: "store \<Rightarrow> out_point \<Rightarrow> bool" where
  "free_output s op \<longleftrightarrow>
     (case st_funding s op of
        Some r \<Rightarrow> \<not> fd_spent r
      | None \<Rightarrow> (case st_txs s (op_txid op) of
          Some t \<Rightarrow> (case ct_kind t of Speedup k \<Rightarrow> \<not> sc_spent (context_of k) | _ \<Rightarrow> False)
        | None \<Rightarrow> False))"

definition offered :: "store \<Rightarrow> out_point \<Rightarrow> bool" where
  "offered s op \<longleftrightarrow> free_output s op \<and> (st_funding s op = None \<longrightarrow> op_txid op \<in> set (st_speedup_list s))"

lemma live_chain_tip_Some:
  "live_chain_tip all ts = Inr (Some u) \<Longrightarrow> \<exists>t k. t \<in> set ts \<and> ct_kind t = Speedup k
     \<and> \<not> sc_spent (context_of k) \<and> speedup_change_utxo t = Inr u"
  by (induction ts) (auto simp: speedup_kind_of_Inr split: if_splits sum.splits)

lemma get_funding_offers:
  assumes k: "keyed s" and q: "queue_ok s" and d: "tips_not_queued s"
    and run: "get_funding coordinator_funding_storage (get_speedups_ordered s) s = (Inr (Some (u, b)), s')"
  shows "offered s (utxo_outpoint u) \<and> s' = set_spent (utxo_outpoint u) True s"
proof (cases "live_chain_tip (get_speedups_ordered s) (rev (get_speedups_ordered s))")
  case (Inl e)
  then show ?thesis using run by (simp add: get_funding_def prog_simps)
next
  case (Inr tip)
  show ?thesis
  proof (cases tip)
    case (Some v)
    with run Inr have v: "v = u" "s' = set_spent (utxo_outpoint u) True s"
      by (auto simp: get_funding_def prog_simps coordinator_funding_storage_def)
    obtain t c where t: "t \<in> set (get_speedups_ordered s)" "ct_kind t = Speedup c" "\<not> sc_spent (context_of c)"
        "speedup_change_utxo t = Inr u"
      using live_chain_tip_Some Inr Some v(1) by fastforce
    then obtain x where x: "x \<in> set (st_speedup_list s)" "st_txs s x = Some t"
      by (auto simp: get_speedups_ordered_def mem_map_filter)
    have "u_txid u = x" using speedup_change_utxo_txid [OF t(4)] keyedD [OF k x(2)] by simp
    then show ?thesis using x t(2,3) d v(2) by (simp add: offered_def free_output_def tips_not_queued_def)
  next
    case None
    with run Inr obtain r where r: "find (\<lambda>r. \<not> fd_spent r) (read_funding_records s) = Some r"
        "u = fd_utxo r" "s' = set_spent (utxo_outpoint u) True s"
      by (auto simp: get_funding_def prog_simps coordinator_funding_storage_def split: option.splits)
    then have m: "r \<in> set (read_funding_records s)" "\<not> fd_spent r" by (auto simp: find_Some_iff)
    then obtain op where op: "st_funding s op = Some r" by (auto simp: read_funding_records_def mem_map_filter)
    with queue_okD [OF q op] r m show ?thesis by (simp add: offered_def free_output_def)
  qed
qed

lemma get_funding_picks:
  assumes "keyed s" "queue_ok s" "tips_not_queued s"
    and "get_funding coordinator_funding_storage (get_speedups_ordered s) s = (Inr (Some (u, b)), s')"
  shows "free_output s (utxo_outpoint u) \<and> s' = set_spent (utxo_outpoint u) True s"
  using get_funding_offers [OF assms] by (simp add: offered_def)

lemma set_spent_not_free:
  assumes "keyed s"
  shows "\<not> free_output (set_spent op True s) op"
proof (cases rule: set_spent_cases [of s op True])
  case (flag t k)
  have "ct_txid t = op_txid op" using keyedD [OF assms flag(2)] .
  then show ?thesis using flag by (simp add: free_output_def update_tx_def set_context_spent_def)
next
  case same
  then show ?thesis by (auto simp: free_output_def split: option.split tx_kind.split)
qed (simp add: free_output_def)

lemma set_spent_tips: "keyed s \<Longrightarrow> tips_not_queued s \<Longrightarrow> tips_not_queued (set_spent op b s)"
  using only_failsD(2) [OF only_fails_set_spent]
  by (auto simp: tips_not_queued_def set_spent_queue split: option.split)

text \<open>Taking back a reservation of a free output restores the store.\<close>

lemma map_context_set_spent:
  "\<not> sc_spent (context_of k) \<Longrightarrow> map_context (set_context_spent False) (map_context (set_context_spent True) k) = k"
  by (cases k) (simp_all add: set_context_spent_def)

lemma release_after_reserve:
  assumes k: "keyed s" and free: "free_output s op"
  shows "set_spent op False (set_spent op True s) = s"
proof (cases "st_funding s op")
  case (Some r)
  then have "\<not> fd_spent r" using free by (simp add: free_output_def)
  then have "r\<lparr>fd_spent := False\<rparr> = r" "set_spent op True s = s\<lparr>st_funding := (st_funding s)(op \<mapsto> r\<lparr>fd_spent := True\<rparr>)\<rparr>"
    using Some by (simp_all add: set_spent_def get_funding_record_def put_funding_record_def)
  then show ?thesis using Some
    by (simp add: set_spent_def get_funding_record_def put_funding_record_def fun_upd_idem)
next
  case None
  then obtain t c where t: "st_txs s (op_txid op) = Some t" "ct_kind t = Speedup c" "\<not> sc_spent (context_of c)"
    using free by (auto simp: free_output_def split: option.splits tx_kind.splits)
  have id: "ct_txid t = op_txid op" using keyedD [OF k t(1)] .
  let ?t = "t\<lparr>ct_kind := Speedup (map_context (set_context_spent True) c)\<rparr>"
  have "set_spent op True s = s\<lparr>st_txs := (st_txs s)(op_txid op \<mapsto> ?t)\<rparr>"
    using None t id by (simp add: set_spent_def get_funding_record_def get_tx_by_id_def update_tx_def)
  moreover have "?t\<lparr>ct_kind := Speedup (map_context (set_context_spent False) (map_context (set_context_spent True) c))\<rparr> = t"
    using t(2) map_context_set_spent [OF t(3)] by simp
  ultimately show ?thesis using None t id
    by (simp add: set_spent_def get_funding_record_def get_tx_by_id_def update_tx_def set_context_spent_def
        fun_upd_idem)
qed

text \<open>
  A live CPFP 10 with a free change, and one free funding record: the first call takes the
  change, the second the record.
\<close>

definition funded_store :: store where
  "funded_store =
     empty_store\<lparr>st_txs := [10 \<mapsto> plain_cpfp 10 [2] 90 InMempool], st_speedup_list := [10],
        st_funding_list := [OutPoint 91 0],
        st_funding := [OutPoint 91 0 \<mapsto> \<lparr>fd_utxo = plain_utxo 91, fd_spent = False, fd_from_speedup = False\<rparr>]\<rparr>"

lemmas funded_defs = funded_store_def plain_cpfp_def plain_record_def plain_tx_def plain_utxo_def
  empty_store_def utxo_outpoint_def

lemma funded_store_ok: "keyed funded_store" "queue_ok funded_store" "tips_not_queued funded_store"
  by (auto simp: keyed_def queue_ok_def tips_not_queued_def funded_defs split: if_splits)

section \<open>Finalization\<close>

primrec matched :: "out_point set \<Rightarrow> nat \<Rightarrow> out_point list \<Rightarrow> nat list" where
  "matched C n [] = []"
| "matched C n (x # xs) = (if x \<in> C then n # matched C (Suc n) xs else matched C (Suc n) xs)"

lemma matched_empty: "matched C n xs = [] \<longleftrightarrow> (\<forall>x \<in> set xs. x \<notin> C)"
  by (induction xs arbitrary: n) auto

lemma matched_hd:
  "matched C n xs \<noteq> [] \<Longrightarrow> hd (matched C n xs) = n + length (takeWhile (\<lambda>x. x \<notin> C) xs)"
  by (induction xs arbitrary: n) auto

lemma collect_fold_Some:
  "p < n \<Longrightarrow> fold (collect_step cs) (enumerate n xs) (acc, Some p) = (acc @ matched (set cs) n xs, Some p)"
  by (induction xs arbitrary: n acc) (simp_all add: collect_step_def)

lemma collect_fold_None:
  "fold (collect_step cs) (enumerate n xs) (acc, None) =
     (acc @ matched (set cs) n xs,
      if matched (set cs) n xs = [] then None else Some (hd (matched (set cs) n xs)))"
proof (induction xs arbitrary: n acc)
  case (Cons x xs)
  then show ?case
    by (cases "x \<in> set cs") (simp_all add: collect_step_def collect_fold_Some [unfolded collect_step_def])
qed simp

lemma collect_consumed_eq:
  "collect_consumed cs xs = (matched (set cs) 0 xs,
     if matched (set cs) 0 xs = [] then None else Some (length (takeWhile (\<lambda>x. x \<notin> set cs) xs)))"
  by (simp add: collect_consumed_def collect_fold_None matched_hd)

lemma remove_matched_append:
  "remove_matched (is @ js) xs s =
     (case remove_matched is xs s of (Inl e, s') \<Rightarrow> (Inl e, s') | (Inr ys, s') \<Rightarrow> remove_matched js ys s')"
  by (induction "is" arbitrary: xs s) (simp_all add: prog_simps split: sum.split prod.split)

text \<open>Removing the matched positions from the last to the first never goes out of range.\<close>

lemma remove_matched_run:
  "length ys = n \<Longrightarrow> remove_matched (rev (matched C n xs)) (ys @ xs) s =
     (Inr (ys @ filter (\<lambda>x. x \<notin> C) xs), s\<lparr>st_funding := (st_funding s) |` (- (C \<inter> set xs))\<rparr>)"
proof (induction xs arbitrary: n ys s)
  case Nil
  then show ?case by (simp add: prog_simps restrict_map_def)
next
  case (Cons x xs)
  have IH: "remove_matched (rev (matched C (Suc n) xs)) (ys @ x # xs) s =
      (Inr ((ys @ [x]) @ filter (\<lambda>x. x \<notin> C) xs), s\<lparr>st_funding := (st_funding s) |` (- (C \<inter> set xs))\<rparr>)"
    using Cons.IH [of "ys @ [x]" "Suc n" s] Cons.prems by simp
  have drop: "drop_funding_record x (s\<lparr>st_funding := (st_funding s) |` (- (C \<inter> set xs))\<rparr>)
      = s\<lparr>st_funding := (st_funding s) |` (- (C \<inter> set (x # xs)))\<rparr>" if "x \<in> C"
  proof -
    have "((st_funding s) |` (- (C \<inter> set xs)))(x := None) = (st_funding s) |` (- (C \<inter> set (x # xs)))"
      using that by (auto simp: restrict_map_def fun_eq_iff)
    then show ?thesis by (simp only: drop_funding_record_def) simp
  qed
  have same: "C \<inter> set (x # xs) = C \<inter> set xs" if "x \<notin> C" using that by auto
  show ?case
  proof (cases "x \<in> C")
    case True
    have "rev (matched C n (x # xs)) = rev (matched C (Suc n) xs) @ [n]" using True by simp
    moreover have "vec_remove n ((ys @ [x]) @ filter (\<lambda>x. x \<notin> C) xs) = Inr (x, ys @ filter (\<lambda>x. x \<notin> C) xs)"
      using Cons.prems by (simp add: vec_remove_def nth_append)
    ultimately show ?thesis using True
      by (simp only: remove_matched_append IH remove_matched.simps prog_simps prod.case sum.case drop [OF True])
        simp
  next
    case False
    then show ?thesis unfolding same [OF False] using IH by simp
  qed
qed

lemma filter_takeWhile_dropWhile:
  "filter P xs = takeWhile P xs @ filter P (dropWhile P xs)"
  by (induction xs) auto

lemma finalize_run:
  assumes "st_txs s x = Some t" and "ct_txid t = x" and "ct_kind t = Speedup k"
    and "speedup_change_utxo t = Inr change"
  shows "replace_on_finalize coordinator_funding_storage x s =
    (let consumed = set (map utxo_outpoint (sc_funding_inputs (context_of k)));
         queue = st_funding_list s
     in (Inr (),
         if set queue \<inter> consumed = {} then s
         else s\<lparr>st_funding_list := takeWhile (\<lambda>op. op \<notin> consumed) queue @ utxo_outpoint change
                  # filter (\<lambda>op. op \<notin> consumed) (dropWhile (\<lambda>op. op \<notin> consumed) queue),
                st_funding := ((st_funding s) |` (- (consumed \<inter> set queue)))(utxo_outpoint change \<mapsto>
                  \<lparr>fd_utxo = change, fd_spent = sc_spent (context_of k), fd_from_speedup = True\<rparr>),
                st_speedup_list := filter (\<lambda>y. y \<noteq> x) (st_speedup_list s)\<rparr>))"
proof -
  let ?cs = "map utxo_outpoint (sc_funding_inputs (context_of k))"
  let ?q = "st_funding_list s"
  let ?P = "\<lambda>op. op \<notin> set ?cs"
  have none: "matched (set ?cs) 0 ?q = [] \<longleftrightarrow> set ?q \<inter> set ?cs = {}"
    unfolding matched_empty by blast
  have start: "replace_on_finalize coordinator_funding_storage x s = replace_funding_on_finalize x s"
    by (simp add: replace_on_finalize_def coordinator_funding_storage_def)
  note unfold = replace_funding_on_finalize_def get_tx_by_id_def assms collect_consumed_eq prog_simps Let_def
  show ?thesis
  proof (cases "set ?q \<inter> set ?cs = {}")
    case True
    then have "matched (set ?cs) 0 ?q = []" by (simp only: none)
    then show ?thesis using True unfolding start by (simp add: unfold del: set_map)
  next
    case False
    then have m: "matched (set ?cs) 0 ?q \<noteq> []" by (simp only: none) simp
    have run: "remove_matched (rev (matched (set ?cs) 0 ?q)) ?q s =
        (Inr (filter ?P ?q), s\<lparr>st_funding := (st_funding s) |` (- (set ?cs \<inter> set ?q))\<rparr>)"
      using remove_matched_run [of "[]" 0 "set ?cs" ?q s] by simp
    have len: "min (length (takeWhile ?P ?q)) (length (filter ?P ?q)) = length (takeWhile ?P ?q)"
      using filter_takeWhile_dropWhile [of ?P ?q] by (metis length_append min.absorb1 le_add1)
    have ins: "vec_insert (length (takeWhile ?P ?q)) op (filter ?P ?q)
        = takeWhile ?P ?q @ op # filter ?P (dropWhile ?P ?q)" for op
      unfolding vec_insert_def by (subst (1 2) filter_takeWhile_dropWhile) simp
    show ?thesis using False m unfolding start
      by (simp add: unfold run len ins put_funding_record_def set_funding_list_def remove_speedup_from_list_def
          retain_ne_def del: set_map)
  qed
qed

text \<open>
  C27. Finalization moves a speedup's change into the queue: when a finalized speedup consumed
  queued outputs, their records and entries disappear from the queue, and in the place of
  the first of them stands the change output, as speedup-derived funding that is spent
  exactly if the change was already reserved; the order of the rest is kept and the speedup
  leaves the list. When it consumed none, nothing changes. There is no index panic.
\<close>

theorem replace_funding_on_finalize_exact:
  assumes "st_txs s x = Some t" and "ct_txid t = x" and "ct_kind t = Speedup k"
    and "speedup_change_utxo t = Inr change"
  shows "replace_on_finalize coordinator_funding_storage x s =
    (let consumed = set (map utxo_outpoint (sc_funding_inputs (context_of k)));
         queue = st_funding_list s
     in (Inr (),
         if set queue \<inter> consumed = {} then s
         else s\<lparr>st_funding_list := takeWhile (\<lambda>op. op \<notin> consumed) queue @ utxo_outpoint change
                  # filter (\<lambda>op. op \<notin> consumed) (dropWhile (\<lambda>op. op \<notin> consumed) queue),
                st_funding := ((st_funding s) |` (- (consumed \<inter> set queue)))(utxo_outpoint change \<mapsto>
                  \<lparr>fd_utxo = change, fd_spent = sc_spent (context_of k), fd_from_speedup = True\<rparr>),
                st_speedup_list := filter (\<lambda>y. y \<noteq> x) (st_speedup_list s)\<rparr>))"
  by (rule finalize_run [OF assms])

text \<open>
  An instance: CPFP 10 was funded by the record at 90 and its change is not yet reserved; the
  queue holds 91, 90 and 92.
\<close>

definition finalized_store :: store where
  "finalized_store =
     empty_store\<lparr>st_txs := [10 \<mapsto> plain_cpfp 10 [2] 90 Finalized], st_speedup_list := [10],
        st_funding_list := [OutPoint 91 0, OutPoint 90 0, OutPoint 92 0],
        st_funding := (\<lambda>op. if op \<in> {OutPoint 91 0, OutPoint 90 0, OutPoint 92 0}
          then Some \<lparr>fd_utxo = plain_utxo (op_txid op), fd_spent = (op = OutPoint 90 0), fd_from_speedup = False\<rparr>
          else None)\<rparr>"

theorem replace_funding_on_finalize_exact_witness:
  "\<exists>s'. replace_on_finalize coordinator_funding_storage 10 finalized_store = (Inr (), s')
     \<and> st_funding_list s' = [OutPoint 91 0, OutPoint 10 0, OutPoint 92 0]
     \<and> st_funding s' (OutPoint 90 0) = None
     \<and> st_funding s' (OutPoint 10 0) = Some \<lparr>fd_utxo = \<lparr>u_txid = 10, u_vout = 0, u_amount = 5000, u_pub_key = 0\<rparr>,
          fd_spent = False, fd_from_speedup = True\<rparr>
     \<and> st_speedup_list s' = []"
proof -
  let ?t = "plain_cpfp 10 [2] 90 Finalized"
  let ?c = "\<lparr>sc_funding_inputs = [plain_utxo 90], sc_replaced_by = None, sc_bump_fee_used = Fin 1,
      sc_parent_data = [], sc_spent = False\<rparr>"
  have t: "st_txs finalized_store 10 = Some ?t" "ct_txid ?t = 10" "ct_kind ?t = Speedup (CPFP [2] ?c)"
    by (simp_all add: finalized_store_def plain_cpfp_def plain_record_def)
  have change: "speedup_change_utxo ?t = Inr \<lparr>u_txid = 10, u_vout = 0, u_amount = 5000, u_pub_key = 0\<rparr>"
    by (simp add: speedup_change_utxo_def speedup_kind_of_def last_output_def funded_defs)
  show ?thesis
    unfolding replace_funding_on_finalize_exact [OF t change] Let_def
    by (simp add: finalized_store_def plain_utxo_def utxo_outpoint_def empty_store_def)
qed

end
