(* ===== verification/Dispatcher_Facts.thy ===== *)
theory Dispatcher_Facts
  imports Dispatcher Store_Facts
begin

text \<open>
  What the dispatcher promises: batches are consecutive runs of the parents within the
  weight limit, and only a transaction that passed the checks is given to the node.
\<close>

section \<open>Batches\<close>

definition weight_of :: "coordinated_tx list \<Rightarrow> nat" where
  "weight_of ts = sum_list (map (\<lambda>t. unat (tx_weight (ct_tx t))) ts)"

lemma weight_of_simps [simp]:
  "weight_of [] = 0" "weight_of (t # ts) = unat (tx_weight (ct_tx t)) + weight_of ts"
  "weight_of (ts @ us) = weight_of ts + weight_of us"
  by (simp_all add: weight_of_def)

text \<open>A batch is within the limit, or it is a single transaction.\<close>

definition batch_ok :: "u64 \<Rightarrow> coordinated_tx list \<Rightarrow> bool" where
  "batch_ok max_weight b \<longleftrightarrow> b \<noteq> [] \<and> (weight_of b \<le> unat max_weight \<or> length b = 1)"

text \<open>A batch was closed because the next transaction did not fit.\<close>

definition closed_by :: "u64 \<Rightarrow> coordinated_tx list \<Rightarrow> coordinated_tx list \<Rightarrow> bool" where
  "closed_by max_weight b rest \<longleftrightarrow> (\<exists>t ts. rest = t # ts \<and> unat max_weight < weight_of b + unat (tx_weight (ct_tx t)))"

fun greedy :: "u64 \<Rightarrow> coordinated_tx list list \<Rightarrow> coordinated_tx list \<Rightarrow> bool" where
  "greedy max_weight [] rest = True"
| "greedy max_weight (b # bs) rest =
     (batch_ok max_weight b \<and> (closed_by max_weight b (concat bs @ rest) \<or> bs = [] \<and> rest = [])
      \<and> greedy max_weight bs rest)"

lemma greedy_append:
  "greedy m bs (b @ rest) \<Longrightarrow> batch_ok m b \<Longrightarrow> closed_by m b rest \<or> rest = [] \<Longrightarrow> greedy m (bs @ [b]) rest"
  by (induction bs) (auto simp: batch_ok_def)

text \<open>
  The loop, as long as the weights and the number of batches are within their words: \<open>rest\<close>
  is what it has not taken when it breaks.
\<close>

definition batch_post ::
    "u64 \<Rightarrow> u32 \<Rightarrow> nat \<Rightarrow> coordinated_tx list \<Rightarrow> nat \<Rightarrow> coordinated_tx list list \<times> coordinated_tx list \<Rightarrow> bool" where
  "batch_post m n start all bound = (\<lambda>(bs, cur).
     (\<exists>rest. all = concat bs @ cur @ rest \<and> (cur = [] \<or> batch_ok m cur) \<and> greedy m bs (cur @ rest)
        \<and> (rest = [] \<or> n \<le> of_nat (length bs)) \<and> length bs \<le> bound
        \<and> (start \<le> unat n \<longrightarrow> length bs \<le> unat n)))"

lemma batch_loop_run:
  assumes "weight_of cur + weight_of ps < 2 ^ 64" "w = of_nat (weight_of cur)"
    and "length bs + length ps + 1 < 2 ^ 32"
    and "cur = [] \<or> batch_ok m cur" and "greedy m bs (cur @ ps)"
  shows "batch_post m n (length bs) (concat bs @ cur @ ps) (length bs + length ps) (batch_loop m n ps (bs, cur, w))"
  using assms
proof (induction ps arbitrary: bs cur w)
  case Nil
  then show ?case by (simp add: batch_post_def)
next
  case (Cons p ps)
  show ?case
  proof (cases "n \<le> (of_nat (length bs) :: u32)")
    case True
    then show ?thesis using Cons.prems by (auto simp: batch_post_def)
  next
    case below: False
    let ?w = "tx_weight (ct_tx p)"
    have fits: "unat (of_nat (weight_of cur) :: u64) = weight_of cur"
      using Cons.prems(1) by (simp add: unsigned_of_nat take_bit_nat_eq_self)
    have sum: "unat (of_nat (weight_of cur) + ?w) = weight_of cur + unat ?w"
      using Cons.prems(1) by (subst unat_add_exact) (simp_all add: fits)
    have bs: "unat (of_nat (length bs) :: u32) = length bs"
      using Cons.prems(3) by (simp add: unsigned_of_nat take_bit_nat_eq_self)
    have less: "length bs < unat n" using below bs by (simp add: word_le_nat_alt)
    show ?thesis
    proof (cases "cur \<noteq> [] \<and> m < w + ?w")
      case True
      have closed: "closed_by m cur (p # ps)"
        using True by (simp add: closed_by_def word_less_nat_alt Cons.prems(2) sum)
      have gr: "greedy m (bs @ [cur]) ([p] @ ps)"
        using Cons.prems(4,5) True closed by (intro greedy_append) auto
      have one: "batch_ok m [p]" by (simp add: batch_ok_def)
      have "batch_post m n (length (bs @ [cur])) (concat (bs @ [cur]) @ [p] @ ps)
          (length (bs @ [cur]) + length ps) (batch_loop m n ps (bs @ [cur], [p], ?w))"
      proof (rule Cons.IH)
        show "weight_of [p] + weight_of ps < 2 ^ 64" using Cons.prems(1) by simp
        show "length (bs @ [cur]) + length ps + 1 < 2 ^ 32" using Cons.prems(3) by simp
      qed (use gr one in simp_all)
      then have "batch_post m n (length (bs @ [cur])) (concat bs @ cur @ p # ps)
          (length bs + length (p # ps)) (batch_loop m n (p # ps) (bs, cur, w))"
        using True below by simp
      then show ?thesis using less by (auto simp: batch_post_def)
    next
      case False
      have "weight_of (cur @ [p]) \<le> unat m" if "cur \<noteq> []"
        using that False by (simp add: word_less_nat_alt Cons.prems(2) sum not_less)
      then have ok: "batch_ok m (cur @ [p])" by (cases cur) (auto simp: batch_ok_def)
      have wt: "w + ?w = of_nat (weight_of (cur @ [p]))" by (simp add: Cons.prems(2))
      have "batch_post m n (length bs) (concat bs @ (cur @ [p]) @ ps) (length bs + length ps)
          (batch_loop m n ps (bs, cur @ [p], w + ?w))"
      proof (rule Cons.IH)
        show "weight_of (cur @ [p]) + weight_of ps < 2 ^ 64" using Cons.prems(1) by simp
        show "length bs + length ps + 1 < 2 ^ 32" using Cons.prems(3) by simp
        show "greedy m bs ((cur @ [p]) @ ps)" using Cons.prems(5) by simp
      qed (use ok wt in blast)+
      then have "batch_post m n (length bs) (concat bs @ cur @ p # ps) (length bs + length ps)
          (batch_loop m n (p # ps) (bs, cur, w))"
        using False below by (auto simp: Let_def)
      then show ?thesis by (auto simp: batch_post_def)
    qed
  qed
qed

text \<open>
  C34. \<open>batch_by_weight\<close> cuts the parents greedily: the batches are consecutive runs of the list of
  parents from its start, at most \<open>max_batches\<close> of them; each is non-empty and within the
  weight limit, except that a transaction heavier than the limit is a batch of its own; each but the last is followed by a
  parent that did not fit into it; and if fewer than \<open>max_batches\<close> came out, they cover all
  parents. The weights add up within 64 bits and there are fewer than \<open>2 ^ 32 - 1\<close> parents.
\<close>

theorem batch_by_weight_greedy:
  assumes "weight_of parents < 2 ^ 64" and "length parents + 1 < 2 ^ 32"
  shows "\<exists>rest. parents = concat (batch_by_weight settings parents max_batches) @ rest
    \<and> greedy (max_tx_weight settings) (batch_by_weight settings parents max_batches) rest
    \<and> length (batch_by_weight settings parents max_batches) \<le> unat max_batches
    \<and> (length (batch_by_weight settings parents max_batches) < unat max_batches \<longrightarrow> rest = [])"
proof -
  let ?m = "max_tx_weight settings"
  have "batch_post ?m max_batches 0 parents (length parents) (batch_loop ?m max_batches parents ([], [], 0))"
    using batch_loop_run [of "[]" parents 0 "[]" ?m max_batches] assms by simp
  moreover obtain bs cur where loop: "batch_loop ?m max_batches parents ([], [], 0) = (bs, cur)" by fastforce
  ultimately obtain rest where run: "batch_loop ?m max_batches parents ([], [], 0) = (bs, cur)"
      "parents = concat bs @ cur @ rest" "cur = [] \<or> batch_ok ?m cur" "greedy ?m bs (cur @ rest)"
      "rest = [] \<or> max_batches \<le> of_nat (length bs)" "length bs \<le> length parents" "length bs \<le> unat max_batches"
    unfolding batch_post_def loop prod.case by blast
  have bs: "unat (of_nat (length bs) :: u32) = length bs"
    using run(6) assms(2) by (simp add: unsigned_of_nat take_bit_nat_eq_self)
  show ?thesis
  proof (cases "cur \<noteq> [] \<and> (of_nat (length bs) :: u32) < max_batches")
    case True
    then have "rest = []" using run(5) by (simp add: not_le [symmetric])
    moreover have "greedy ?m (bs @ [cur]) rest"
      using run(3,4) True \<open>rest = []\<close> by (intro greedy_append) auto
    moreover have "length bs < unat max_batches" using True bs by (simp add: word_less_nat_alt)
    ultimately show ?thesis using True run(1,2) by (simp add: batch_by_weight_def)
  next
    case False
    then have res: "batch_by_weight settings parents max_batches = bs"
      using run(1) by (auto simp: batch_by_weight_def)
    have "cur @ rest = []" if "length bs < unat max_batches"
    proof -
      have "(of_nat (length bs) :: u32) < max_batches" using that bs by (simp add: word_less_nat_alt)
      then show ?thesis using False run(5) by (auto simp: not_le [symmetric])
    qed
    then show ?thesis unfolding res using run(2,4,7) by (intro exI [of _ "cur @ rest"]) simp
  qed
qed

theorem batch_by_weight_greedy_witness:
  "batch_by_weight \<lparr>max_tx_weight = 1300\<rparr> (map (\<lambda>x. plain_record x Normal InMempool) [2, 3, 4]) 1
     = [map (\<lambda>x. plain_record x Normal InMempool) [2, 3]]
   \<and> (\<exists>rest. map (\<lambda>x. plain_record x Normal InMempool) [2, 3, 4]
        = concat (batch_by_weight \<lparr>max_tx_weight = 1300\<rparr> (map (\<lambda>x. plain_record x Normal InMempool) [2, 3, 4]) 1)
          @ rest
        \<and> greedy 1300 [map (\<lambda>x. plain_record x Normal InMempool) [2, 3]] rest)"
proof -
  let ?ps = "map (\<lambda>x. plain_record x Normal InMempool) [2, 3, 4]"
  have w: "weight_of ?ps < 2 ^ 64" "length ?ps + 1 < 2 ^ 32" by (simp_all add: plain_record_def plain_tx_def)
  have b: "batch_by_weight \<lparr>max_tx_weight = 1300\<rparr> ?ps 1 = [map (\<lambda>x. plain_record x Normal InMempool) [2, 3]]"
    by (simp add: batch_by_weight_def plain_record_def plain_tx_def)
  show ?thesis using batch_by_weight_greedy [OF w, of "\<lparr>max_tx_weight = 1300\<rparr>" 1] unfolding b by auto
qed

section \<open>An outside to evaluate on\<close>

text \<open>
  A node that accepts and records every transaction, at block 120, with an index that knows
  what \<open>found\<close> holds to be in the mempool, and a builder whose transactions have 150 vB and one
  output, what the fee leaves of the inputs.
\<close>

definition demo_status :: "bool \<Rightarrow> tx_status" where
  "demo_status b = \<lparr>is_in_mempool = b, is_not_found = \<not> b, is_finalized = (\<lambda>m. False), is_confirmed = False,
                    is_orphan = False\<rparr>"

definition demo_build :: "utxo list \<Rightarrow> u64 \<Rightarrow> transaction" where
  "demo_build us fee =
     \<lparr>tx_input = map utxo_outpoint us, tx_output = [saturating_sub (sum_list (map u_amount us)) fee],
      tx_vsize = 150, tx_weight = 600, tx_compute_txid = 70\<rparr>"

definition demo_services :: "(txid \<Rightarrow> bool) \<Rightarrow> transaction list services" where
  "demo_services found =
     \<lparr>sv_send_transaction = (\<lambda>tx log. (Inr (), log @ [tx])),
      sv_get_tx_status = (\<lambda>x m. pret (demo_status (found x))),
      sv_get_tx_confirmations = (\<lambda>x. pret (if found x then Some 0 else None)),
      sv_is_utxo_unspent_rpc = (\<lambda>x v m. pret True),
      sv_get_estimated_fee_rate = pret 10,
      sv_monitor = (\<lambda>d m. pret ()),
      sv_cancel = (\<lambda>d. pret ()),
      sv_monitor_tick = pret (),
      sv_is_ready = pret True,
      sv_get_monitor_height = pret 120,
      sv_get_monitor_news = pret [],
      sv_ack_monitor_news = (\<lambda>n. pret ()),
      sv_now_secs = (\<lambda>log. (1000, log)),
      sv_speedup_transactions = (\<lambda>d us k fee. pret (demo_build us fee))\<rparr>"

section \<open>What reaches the node\<close>

text \<open>A transaction that passes the checks made before the parents are looked up.\<close>

definition sendable :: "dispatcher_settings \<Rightarrow> 's dispatcher_storage \<Rightarrow> 's \<Rightarrow> coordinated_tx \<Rightarrow> bool" where
  "sendable settings ds st t \<longleftrightarrow> validate_failure settings t = None \<and> failed_parent ds st t = None"

lemma validate_fold:
  "fold (validate_step settings) txs (vs, fs) =
     (vs @ filter (\<lambda>t. validate_failure settings t = None) txs,
      fs @ List.map_filter (\<lambda>t. map_option (Pair (ct_txid t)) (validate_failure settings t)) txs)"
  by (induction txs arbitrary: vs fs) (auto simp: validate_step_def List.map_filter_simps split: option.split)

lemma validate_txs_eq:
  "validate_txs settings txs =
     (filter (\<lambda>t. validate_failure settings t = None) txs,
      List.map_filter (\<lambda>t. map_option (Pair (ct_txid t)) (validate_failure settings t)) txs)"
  by (simp add: validate_txs_def validate_fold)

lemma parents_ready_loop_send [simp]:
  "parents_ready_loop ds st (sv\<lparr>sv_send_transaction := f\<rparr>) mc is = parents_ready_loop ds st sv mc is"
  by (induction "is") (simp_all cong: if_cong)

lemma parents_ready_send [simp]:
  "parents_ready ds st (sv\<lparr>sv_send_transaction := f\<rparr>) mc t = parents_ready ds st sv mc t"
  by (simp add: parents_ready_def)

lemma dispatch_loop_send:
  assumes "\<And>t. t \<in> set ts \<Longrightarrow> failed_parent ds st t = None \<Longrightarrow> f (ct_tx t) = g (ct_tx t)"
  shows "dispatch_loop ds st (sv\<lparr>sv_send_transaction := f\<rparr>) mc ts rs =
    dispatch_loop ds st (sv\<lparr>sv_send_transaction := g\<rparr>) mc ts rs"
  using assms
proof (induction ts arbitrary: rs)
  case (Cons t ts)
  have IH: "dispatch_loop ds st (sv\<lparr>sv_send_transaction := f\<rparr>) mc ts rs =
      dispatch_loop ds st (sv\<lparr>sv_send_transaction := g\<rparr>) mc ts rs" for rs
    using Cons by simp
  show ?case
  proof (cases "failed_parent ds st t")
    case None
    then have "f (ct_tx t) = g (ct_tx t)" using Cons.prems by simp
    then have "send_outcome (sv\<lparr>sv_send_transaction := f\<rparr>) t = send_outcome (sv\<lparr>sv_send_transaction := g\<rparr>) t"
      by (simp add: send_outcome_def)
    then show ?thesis using None IH by (simp cong: if_cong)
  qed (simp add: IH)
qed simp

text \<open>The report of one transaction that goes with its checks.\<close>

definition report_ok ::
    "dispatcher_settings \<Rightarrow> 's dispatcher_storage \<Rightarrow> 's \<Rightarrow> coordinated_tx \<Rightarrow> dispatch_outcome \<Rightarrow> bool" where
  "report_ok settings ds st t outcome \<longleftrightarrow>
     (case outcome of
        Fatal m \<Rightarrow> validate_failure settings t = Some (Fatal m)
      | ParentFailed p \<Rightarrow> validate_failure settings t = None \<and> failed_parent ds st t = Some p
      | _ \<Rightarrow> sendable settings ds st t)"

lemma dispatch_loop_reports:
  assumes "dispatch_loop ds st sv mc ts rs e = (Inr results, e')"
    and "\<forall>t \<in> set ts. validate_failure settings t = None"
  shows "\<exists>new. results = rs @ new
    \<and> (\<forall>(x, o') \<in> set new. \<exists>t \<in> set ts. ct_txid t = x \<and> report_ok settings ds st t o')
    \<and> (\<forall>t \<in> set ts. \<forall>p. failed_parent ds st t = Some p \<longrightarrow> (ct_txid t, ParentFailed p) \<in> set new)"
  using assms
proof (induction ts arbitrary: rs e)
  case Nil
  then show ?case by (simp add: prog_simps)
next
  case (Cons t ts)
  have step: ?case
    if run: "dispatch_loop ds st sv mc ts (rs @ mine) e2 = (Inr results, e')"
      and sound: "\<forall>(x, o') \<in> set mine. ct_txid t = x \<and> report_ok settings ds st t o'"
      and complete: "\<forall>p. failed_parent ds st t = Some p \<longrightarrow> (ct_txid t, ParentFailed p) \<in> set mine" for mine e2
  proof -
    obtain new where new: "results = (rs @ mine) @ new"
        "\<forall>(x, o') \<in> set new. \<exists>t \<in> set ts. ct_txid t = x \<and> report_ok settings ds st t o'"
        "\<forall>t \<in> set ts. \<forall>p. failed_parent ds st t = Some p \<longrightarrow> (ct_txid t, ParentFailed p) \<in> set new"
      using Cons.IH [OF run] Cons.prems(2) by auto
    then show ?thesis using sound complete by (intro exI [of _ "mine @ new"]) fastforce
  qed
  show ?case
  proof (cases "failed_parent ds st t")
    case (Some p)
    then show ?thesis using Cons.prems
      by (intro step [of "[(ct_txid t, ParentFailed p)]" e]) (auto simp: report_ok_def)
  next
    case None
    obtain r e1 where ready: "parents_ready ds st sv mc t e = (r, e1)" by fastforce
    show ?thesis
    proof (cases r)
      case (Inl a)
      then show ?thesis using Cons.prems None ready by (simp add: prog_simps)
    next
      case (Inr b)
      show ?thesis
      proof (cases b)
        case False
        then show ?thesis using Cons.prems None ready Inr
          by (intro step [of "[]" e1]) (auto simp: prog_simps)
      next
        case True
        obtain out e2 where out: "send_outcome sv t e1 = (Inr out, e2)"
            "out = Success \<or> (\<exists>m. out = DispatchErr m)"
          by (cases "fst (sv_send_transaction sv (ct_tx t) e1)") (simp_all add: send_outcome_def prog_simps)
        then show ?thesis using Cons.prems None ready Inr True
          by (intro step [of "[(ct_txid t, out)]" e2]) (auto simp: prog_simps report_ok_def sendable_def)
      qed
    qed
  qed
qed

text \<open>
  C30. The report of a dispatch is sound and complete for what is decided before sending: every
  entry is about a transaction of the list and agrees with its checks (a fatal entry with
  what validation found, a failed parent with that parent, and success or an error of the
  node only for a transaction that passed); and every transaction that fails validation or
  has a failed tracked parent has its entry. A transaction whose tracked parents are not
  yet on the chain or in the mempool may have none: it is left for a later tick.
\<close>

theorem dispatch_report:
  assumes "dispatch settings ds st sv max_confs txs e = (Inr results, e')"
  shows "(\<forall>(x, outcome) \<in> set results. \<exists>t \<in> set txs. ct_txid t = x \<and> report_ok settings ds st t outcome)
    \<and> (\<forall>t \<in> set txs. case validate_failure settings t of
         Some f \<Rightarrow> (ct_txid t, f) \<in> set results
       | None \<Rightarrow> \<forall>p. failed_parent ds st t = Some p \<longrightarrow> (ct_txid t, ParentFailed p) \<in> set results)"
proof -
  let ?valid = "filter (\<lambda>t. validate_failure settings t = None) txs"
  let ?fatal = "List.map_filter (\<lambda>t. map_option (Pair (ct_txid t)) (validate_failure settings t)) txs"
  have "dispatch_loop ds st sv max_confs ?valid ?fatal e = (Inr results, e')"
    using assms by (simp add: dispatch_def validate_txs_eq)
  from dispatch_loop_reports [OF this, of settings]
  obtain new where new: "results = ?fatal @ new"
      "\<forall>(x, o') \<in> set new. \<exists>t \<in> set ?valid. ct_txid t = x \<and> report_ok settings ds st t o'"
      "\<forall>t \<in> set ?valid. \<forall>p. failed_parent ds st t = Some p \<longrightarrow> (ct_txid t, ParentFailed p) \<in> set new"
    by auto
  have fatal: "(x, f) \<in> set ?fatal \<longleftrightarrow> (\<exists>t \<in> set txs. ct_txid t = x \<and> validate_failure settings t = Some f)" for x f
    by (auto simp: mem_map_filter)
  have isfatal: "\<exists>m. f = Fatal m" if "validate_failure settings t = Some f" for t f
    using that by (auto simp: validate_failure_def split: if_splits)
  show ?thesis
  proof
    show "\<forall>(x, outcome) \<in> set results. \<exists>t \<in> set txs. ct_txid t = x \<and> report_ok settings ds st t outcome"
    proof safe
      fix x f assume "(x, f) \<in> set results"
      then consider "(x, f) \<in> set ?fatal" | "(x, f) \<in> set new" using new(1) by auto
      then show "\<exists>t \<in> set txs. ct_txid t = x \<and> report_ok settings ds st t f"
      proof cases
        case 1
        then obtain t where t: "t \<in> set txs" "ct_txid t = x" "validate_failure settings t = Some f"
          using fatal by blast
        then show ?thesis using isfatal [OF t(3)] by (auto simp: report_ok_def)
      next
        case 2
        then show ?thesis using new(2) by auto
      qed
    qed
    show "\<forall>t \<in> set txs. case validate_failure settings t of
         Some f \<Rightarrow> (ct_txid t, f) \<in> set results
       | None \<Rightarrow> \<forall>p. failed_parent ds st t = Some p \<longrightarrow> (ct_txid t, ParentFailed p) \<in> set results"
      using fatal new(1,3) by (auto split: option.split)
  qed
qed

text \<open>
  An instance: 5 has no inputs, 6 spends an output of the failed transaction 3, and 7, which
  spends an output nobody tracks, is sent.
\<close>

theorem dispatch_report_witness:
  "let st = empty_store\<lparr>st_txs := [3 \<mapsto> plain_record 3 Normal Failed]\<rparr>;
       txs = [(plain_record 5 Normal ToDispatch)\<lparr>ct_tx := (plain_tx 5)\<lparr>tx_input := []\<rparr>\<rparr>,
              (plain_record 6 Normal ToDispatch)\<lparr>ct_tx := (plain_tx 6)\<lparr>tx_input := [OutPoint 3 0]\<rparr>\<rparr>,
              plain_record 7 Normal ToDispatch]
   in \<exists>results. dispatch \<lparr>max_tx_weight = 1000\<rparr> coordinator_dispatcher_storage st (demo_services (\<lambda>x. False)) 10
        txs [] = (Inr results, [plain_tx 7])
      \<and> (5, Fatal ''transaction has no inputs'') \<in> set results \<and> (6, ParentFailed 3) \<in> set results
      \<and> (7, Success) \<in> set results"
proof -
  let ?st = "empty_store\<lparr>st_txs := [3 \<mapsto> plain_record 3 Normal Failed]\<rparr>"
  let ?a = "(plain_record 5 Normal ToDispatch)\<lparr>ct_tx := (plain_tx 5)\<lparr>tx_input := []\<rparr>\<rparr>"
  let ?b = "(plain_record 6 Normal ToDispatch)\<lparr>ct_tx := (plain_tx 6)\<lparr>tx_input := [OutPoint 3 0]\<rparr>\<rparr>"
  let ?c = "plain_record 7 Normal ToDispatch"
  have st: "validate_failure \<lparr>max_tx_weight = 1000\<rparr> ?a = Some (Fatal ''transaction has no inputs'')"
    "validate_failure \<lparr>max_tx_weight = 1000\<rparr> ?b = None" "validate_failure \<lparr>max_tx_weight = 1000\<rparr> ?c = None"
    "failed_parent coordinator_dispatcher_storage ?st ?b = Some 3"
    "failed_parent coordinator_dispatcher_storage ?st ?c = None" and id: "ct_txid ?a = 5" "ct_txid ?b = 6" "ct_txid ?c = 7"
    by (simp_all add: validate_failure_def plain_record_def plain_tx_def failed_parent_def
        coordinator_dispatcher_storage_def is_tx_known_def is_tx_failed_def get_tx_by_id_def empty_store_def)
  have run: "dispatch \<lparr>max_tx_weight = 1000\<rparr> coordinator_dispatcher_storage ?st (demo_services (\<lambda>x. False)) 10
      [?a, ?b, ?c] [] = (Inr [(5, Fatal ''transaction has no inputs''), (6, ParentFailed 3), (7, Success)], [plain_tx 7])"
    by (simp add: dispatch_def validate_txs_eq st id List.map_filter_simps prog_simps parents_ready_def)
      (simp add: plain_record_def plain_tx_def prog_simps coordinator_dispatcher_storage_def is_tx_known_def
        get_tx_by_id_def empty_store_def send_outcome_def demo_services_def)
  show ?thesis using dispatch_report [OF run] run by (simp add: st id Let_def)
qed

end
