(* ===== verification/Engine_Facts.thy ===== *)
theory Engine_Facts
  imports Engine_Cascade Funding_Facts Dispatcher_Facts
begin

text \<open>
  What the shared engine context does with the result of a dispatch: who may fail, what a
  success writes, and which retries are let through.
\<close>

section \<open>Parts of the world\<close>

lemma on_store_run [prog_simps]: "on_store m w = (fst (m (w_store w)), w\<lparr>w_store := snd (m (w_store w))\<rparr>)"
  by (simp add: on_store_def pzoom_run)

lemma on_ext_run [prog_simps]: "on_ext m w = (fst (m (w_ext w)), w\<lparr>w_ext := snd (m (w_ext w))\<rparr>)"
  by (simp add: on_ext_def pzoom_run)

text \<open>Calls to the outside leave the store alone.\<close>

definition same_store :: "'e world \<Rightarrow> 'e world \<Rightarrow> bool" where
  "same_store w w' \<longleftrightarrow> w_store w' = w_store w"

interpretation same_store: step_relation same_store
  by unfold_locales (simp_all add: same_store_def)

lemma same_store_ext: "keeps same_store (on_ext m)"
  by (simp add: keeps_def same_store_def on_ext_run)

lemma same_store_call: "keeps same_store (call_monitor m)"
  by (simp add: call_monitor_def same_store_ext)

lemma some_input_missing_store: "keeps same_store (some_input_missing cx ops)"
  by (induction ops) (auto intro!: same_store.keeps_rules same_store_call keeps_intros)

lemma missing_input_kind_store: "keeps same_store (missing_input_kind cx t)"
  unfolding missing_input_kind_def
  by (auto intro!: same_store.keeps_rules some_input_missing_store keeps_intros)

text \<open>A relation on stores, read on worlds.\<close>

definition store_rel :: "(store \<Rightarrow> store \<Rightarrow> bool) \<Rightarrow> 'e world \<Rightarrow> 'e world \<Rightarrow> bool" where
  "store_rel R w w' \<longleftrightarrow> R (w_store w) (w_store w')"

lemma store_rel_step_relation: "step_relation R \<Longrightarrow> step_relation (store_rel R)"
  unfolding step_relation_def store_rel_def by blast

lemma store_rel_on_store: "keeps R m \<Longrightarrow> keeps (store_rel R) (on_store m)"
  by (simp add: keeps_def store_rel_def on_store_run)

lemma store_rel_same: "step_relation R \<Longrightarrow> keeps same_store m \<Longrightarrow> keeps (store_rel R) m"
  by (simp add: keeps_def store_rel_def same_store_def step_relation_def)

section \<open>Who may fail\<close>

text \<open>No transaction fails.\<close>

definition none_fails :: "store \<Rightarrow> store \<Rightarrow> bool" where
  "none_fails s s' \<longleftrightarrow> (keyed s \<longrightarrow> keyed s' \<and> (\<forall>x. tx_state s' x = Some Failed \<longrightarrow> tx_state s x = Some Failed))"

interpretation spared: step_relation none_fails
  by unfold_locales (auto simp: none_fails_def)

interpretation spared_world: step_relation "store_rel none_fails"
  by (rule store_rel_step_relation) unfold_locales

lemmas spared_outside = store_rel_same [OF spared.step_relation_axioms]

lemma spared_call: "keeps (store_rel none_fails) (call_monitor m)"
  by (rule spared_outside [OF same_store_call])

lemma spared_missing: "keeps (store_rel none_fails) (missing_input_kind cx t)"
  by (rule spared_outside [OF missing_input_kind_store])

lemma none_fails_update:
  "(keyed s \<Longrightarrow> ct_state t' \<noteq> Failed \<or> tx_state s (ct_txid t') = Some Failed) \<Longrightarrow> none_fails s (update_tx t' s)"
  by (auto simp: none_fails_def keyed_def update_tx_def tx_state_def)

lemma none_fails_mark_as_retry: "none_fails s (mark_as_retry x s)"
proof (cases "st_txs s x")
  case None
  then show ?thesis by (simp add: mark_as_retry_def get_tx_by_id_def none_fails_def keyed_def)
next
  case (Some t)
  then show ?thesis
    by (auto simp: mark_as_retry_def get_tx_by_id_def intro!: none_fails_update)
      (simp add: none_fails_def keyed_def)
qed

lemma none_fails_predecessor: "keeps none_fails (mark_predecessor t x)"
  unfolding keeps_def
proof
  fix s
  show "none_fails s (snd (mark_predecessor t x s))"
  proof (cases "\<exists>r ins c p. ct_kind t = Speedup (RBF r ins c) \<and> st_txs s r = Some p")
    case False
    then have "snd (mark_predecessor t x s) = s"
      by (auto simp: mark_predecessor_def prog_simps get_tx_by_id_def split: tx_kind.splits speedup_kind.splits option.splits)
    then show ?thesis by (simp add: spared.step_refl)
  next
    case True
    then obtain r ins c p where p: "ct_kind t = Speedup (RBF r ins c)" "st_txs s r = Some p" by blast
    show ?thesis
    proof (cases "update_context (set_replaced_by (Some x)) p")
      case (Inl e)
      then show ?thesis using p by (simp add: mark_predecessor_def prog_simps get_tx_by_id_def spared.step_refl)
    next
      case (Inr q)
      have "none_fails s (update_tx q s)"
        using Inr p(2) keyedD [of s r p]
        by (intro none_fails_update) (auto simp: update_context_Inr tx_state_def)
      then show ?thesis using p Inr by (simp add: mark_predecessor_def prog_simps get_tx_by_id_def)
    qed
  qed
qed

lemma none_fails_accepted: "keeps (store_rel none_fails) (mark_accepted cx t x h fi)"
  unfolding mark_accepted_def monitor_again_def
  by (intro spared_world.keeps_rules store_rel_on_store none_fails_predecessor spared.keeps_modify
      spared_call none_fails_update) simp

lemma none_fails_confirmed: "keeps (store_rel none_fails) (mark_already_confirmed cx t x h)"
  unfolding mark_already_confirmed_def monitor_again_def
  by (intro spared_world.keeps_rules store_rel_on_store none_fails_predecessor spared.keeps_modify
      spared_call none_fails_update) simp

text \<open>
  C2. The reorg guard and the retry budget protect: when the node rejects the broadcast of a
  transaction whose retry budget is not spent, and the current block is before the deadline
  of its fail guard, then no transaction fails in consequence, whatever the node answers to
  the probes that follow (that it knows the transaction, that inputs are missing or spent,
  or an error). A consumed input counts as final only after the guard.
\<close>

theorem guarded_rejection_fails_nothing:
  assumes "keyed (w_store w)"
    and "within_fail_guard t current_height"
    and "ct_retry_count t + 1 < retry_attempts_sending_tx (bs_coordinator (cx_settings cx))"
    and "handle_dispatch_result cx t txid (DispatchErr raw) current_height fee_info w = (r, w')"
  shows "tx_state (w_store w) x = Some Failed \<or> tx_state (w_store w') x \<noteq> Some Failed"
proof -
  have "keeps (store_rel none_fails) (classify_dispatch_error cx t txid current_height fee_info)"
    unfolding classify_dispatch_error_def
    using assms(2,3)
    by (auto intro!: spared_world.keeps_rules keeps_intros none_fails_accepted none_fails_confirmed
        spared_call spared_missing
        store_rel_on_store spared.keeps_modify none_fails_mark_as_retry simp: not_le [symmetric])
  then have "keeps (store_rel none_fails) (handle_dispatch_result cx t txid (DispatchErr raw) current_height fee_info)"
    unfolding handle_dispatch_result_def by (auto intro: spared_world.keeps_rules)
  then have "none_fails (w_store w) (w_store w')"
    using assms(4) unfolding keeps_def store_rel_def by (metis snd_conv)
  then show ?thesis using assms(1) unfolding none_fails_def by blast
qed

definition demo_context :: "transaction list services \<Rightarrow> transaction list engine_context" where
  "demo_context sv = \<lparr>cx_services = sv, cx_settings = default_bitcoin_settings 6, cx_scan = sorted_scan,
                      cx_hash_iter = sorted_list_of_set, cx_max_dust_limit = 546\<rparr>"

definition demo_world :: "store \<Rightarrow> transaction list world" where
  "demo_world s = \<lparr>w_store = s, w_last_retry_at = None, w_ext = []\<rparr>"

lemmas demo_defs = demo_context_def demo_world_def demo_services_def default_bitcoin_settings_def
  default_coordinator_settings_def settings_constants

text \<open>A transaction whose input is spent, 80 blocks before its guard ends: it is retried.\<close>

theorem guarded_rejection_fails_nothing_witness:
  "let t = (plain_record 5 Normal ToDispatch)\<lparr>ct_fail_guard_until := Some 200\<rparr>;
       sv = (demo_services (\<lambda>x. False))\<lparr>sv_is_utxo_unspent_rpc := (\<lambda>x v m. pret False)\<rparr>;
       w' = snd (handle_dispatch_result (demo_context sv) t 5 (DispatchErr ''rejected'') 120 (ct_fee_info t)
              (demo_world (empty_store\<lparr>st_txs := [5 \<mapsto> t]\<rparr>)))
   in tx_state (w_store w') 5 = Some ToDispatch \<and> \<not> tx_state (w_store w') 5 = Some Failed"
proof -
  let ?t = "(plain_record 5 Normal ToDispatch)\<lparr>ct_fail_guard_until := Some 200\<rparr>"
  let ?cx = "demo_context ((demo_services (\<lambda>x. False))\<lparr>sv_is_utxo_unspent_rpc := (\<lambda>x v m. pret False)\<rparr>)"
  let ?w = "demo_world (empty_store\<lparr>st_txs := [5 \<mapsto> ?t]\<rparr>)"
  let ?run = "handle_dispatch_result ?cx ?t 5 (DispatchErr ''rejected'') 120 (ct_fee_info ?t)"
  have k: "keyed (w_store ?w)" by (simp add: keyed_def demo_world_def plain_record_def)
  have g: "within_fail_guard ?t 120" by (simp add: within_fail_guard_def)
  have b: "ct_retry_count ?t + 1 < retry_attempts_sending_tx (bs_coordinator (cx_settings ?cx))"
    by (simp add: demo_defs plain_record_def)
  have n: "tx_state (w_store ?w) 5 = Some ToDispatch"
    by (simp add: tx_state_def demo_world_def plain_record_def)
  have miss: "missing_input_kind ?cx ?t ?w = (Inr (Some False), ?w)"
    by (simp add: missing_input_kind_def prog_simps funding_outpoints_def speedup_kind_of_def plain_record_def
        plain_tx_def demo_context_def demo_services_def non_funding_inputs_def call_monitor_def demo_world_def)
  have conf: "sv_get_tx_confirmations (cx_services ?cx) 5 = pret None"
    by (simp add: demo_context_def demo_services_def)
  have "snd (?run ?w) = ?w\<lparr>w_store := mark_as_retry 5 (w_store ?w)\<rparr>"
    by (simp add: handle_dispatch_result_def classify_dispatch_error_def prog_simps conf miss g call_monitor_def
        verify_tx_id_def) (simp add: plain_record_def prog_simps)
  then have "tx_state (w_store (snd (?run ?w))) 5 = Some ToDispatch"
    by (simp add: plain_record_def demo_world_def mark_as_retry_def get_tx_by_id_def tx_state_def update_tx_def)
  moreover have "\<not> tx_state (w_store (snd (?run ?w))) 5 = Some Failed"
    using guarded_rejection_fails_nothing [OF k g b, of 5 "''rejected''" "ct_fee_info ?t"
        "fst (?run ?w)" "snd (?run ?w)" 5] n
    by simp
  ultimately show ?thesis unfolding Let_def by (rule conjI)
qed

section \<open>Reservations after a failure\<close>

definition reserved :: "store \<Rightarrow> out_point \<Rightarrow> bool" where
  "reserved s op \<longleftrightarrow>
     (case st_funding s op of
        Some r \<Rightarrow> fd_spent r
      | None \<Rightarrow> (case st_txs s (op_txid op) of
          Some t \<Rightarrow> (case ct_kind t of Speedup k \<Rightarrow> sc_spent (context_of k) | _ \<Rightarrow> False)
        | None \<Rightarrow> False))"

definition releases :: "store \<Rightarrow> store \<Rightarrow> bool" where
  "releases s s' \<longleftrightarrow> (keyed s \<longrightarrow> keyed s' \<and> (\<forall>op. reserved s' op \<longrightarrow> reserved s op))"

interpretation releasing: step_relation releases
  by unfold_locales (auto simp: releases_def)

lemma releases_same:
  "st_txs s' = st_txs s \<Longrightarrow> st_funding s' = st_funding s \<Longrightarrow> releases s s'"
  by (simp add: releases_def reserved_def keyed_def cong: option.case_cong)

text \<open>Writing back a record whose reservation flag is the old one.\<close>

lemma releases_update:
  assumes "st_txs s (ct_txid t) = Some t" "ct_txid t' = ct_txid t"
    and "\<And>k'. ct_kind t' = Speedup k' \<Longrightarrow> \<exists>k. ct_kind t = Speedup k \<and> sc_spent (context_of k') = sc_spent (context_of k)"
  shows "releases s (update_tx t' s)"
  unfolding releases_def
proof (intro impI conjI allI)
  assume k: "keyed s"
  then show "keyed (update_tx t' s)" by (simp add: keyed_def update_tx_def)
  fix op
  assume r: "reserved (update_tx t' s) op"
  show "reserved s op"
  proof (cases "st_funding s op = None \<and> op_txid op = ct_txid t")
    case True
    then obtain k' where k': "ct_kind t' = Speedup k'" "sc_spent (context_of k')"
      using r assms(2) by (auto simp: reserved_def update_tx_def split: tx_kind.splits)
    then show ?thesis using True assms(1,3) by (auto simp: reserved_def)
  next
    case False
    then show ?thesis using r assms(2)
      by (auto simp: reserved_def update_tx_def split: option.splits if_splits)
  qed
qed

lemma release_one:
  assumes "keyed s"
  shows "releases s (set_spent op False s)" "\<not> reserved (set_spent op False s) op"
proof (atomize (full), cases rule: set_spent_cases [of s op False])
  case (funding r)
  then show "releases s (set_spent op False s) \<and> \<not> reserved (set_spent op False s) op"
    by (auto simp: releases_def reserved_def keyed_def split: option.splits if_splits)
next
  case (flag t k)
  have id: "ct_txid t = op_txid op" using keyedD [OF assms flag(2)] .
  let ?t = "t\<lparr>ct_kind := Speedup (map_context (set_context_spent False) k)\<rparr>"
  have "reserved (update_tx ?t s) x \<longrightarrow> reserved s x" for x
    using flag(2) id by (auto simp: reserved_def update_tx_def set_context_spent_def split: option.splits if_splits)
  moreover have "keyed (update_tx ?t s)" using assms by (simp add: keyed_def update_tx_def)
  moreover have "\<not> reserved (update_tx ?t s) op"
    using flag(1) id by (simp add: reserved_def update_tx_def set_context_spent_def)
  ultimately show "releases s (set_spent op False s) \<and> \<not> reserved (set_spent op False s) op"
    unfolding flag(4) releases_def by blast
next
  case same
  then show "releases s (set_spent op False s) \<and> \<not> reserved (set_spent op False s) op"
    by (auto simp: releasing.step_refl reserved_def split: option.split tx_kind.split)
qed

lemma release_marks_releases:
  "releases s (release_marks coordinator_funding_storage us s)"
  unfolding release_marks_def
  by (rule releasing.fold_related)
    (metis (no_types, lifting) coordinator_funding_storage_def funding_storage.select_convs(3) release_one(1) releases_def)

lemma release_marks_frees:
  assumes "keyed s" "u \<in> set us"
  shows "\<not> reserved (release_marks coordinator_funding_storage us s) (utxo_outpoint u)"
  using assms
proof (induction us arbitrary: s)
  case (Cons v us)
  let ?s = "set_spent (utxo_outpoint v) False s"
  have k: "keyed ?s" using release_one(1) [OF Cons.prems(1)] Cons.prems(1) by (simp add: releases_def)
  have step: "release_marks coordinator_funding_storage (v # us) s = release_marks coordinator_funding_storage us ?s"
    by (simp add: release_marks_def coordinator_funding_storage_def)
  show ?case
  proof (cases "u \<in> set us")
    case True
    then show ?thesis unfolding step by (rule Cons.IH [OF k])
  next
    case False
    then have "\<not> reserved ?s (utxo_outpoint u)" using release_one(2) [OF Cons.prems(1)] Cons.prems(2) by auto
    then show ?thesis unfolding step using release_marks_releases [of ?s us] k by (auto simp: releases_def)
  qed
qed simp

lemma releases_settle: "keeps releases (settle_tx x st h)"
  unfolding keeps_def
proof
  fix s
  show "releases s (snd (settle_tx x st h s))"
  proof (cases "keyed s")
    case True
    show ?thesis
    proof (cases "st_txs s x")
      case None
      then show ?thesis
        by (auto simp: settle_tx_def update_tx_state_impl_def get_tx_by_id_def releasing.step_refl intro: releases_same)
    next
      case (Some t)
      have id: "ct_txid t = x" using keyedD [OF True Some] .
      have "releases s (update_tx (t'\<lparr>ct_state := st\<rparr>) s)" if "t' = t \<or> t' = t\<lparr>ct_settled_block_height := Some h\<rparr>" for t'
        using that Some id by (intro releases_update [of s t]) auto
      then show ?thesis using Some
        by (auto simp: settle_tx_def update_tx_state_impl_def get_tx_by_id_def releasing.step_refl Let_def
            intro: releases_same)
    qed
  qed (simp add: releases_def)
qed

lemma releases_clear: "releases s (clear_replaced_by x s)"
proof (cases "keyed s")
  case True
  show ?thesis
  proof (cases rule: clear_replaced_by_cases [of s x])
    case (flag t k)
    have "st_txs s (ct_txid t) = Some t" using flag(1) keyedD [OF True flag(1)] by simp
    then show ?thesis unfolding flag(3)
      by (rule releases_update) (auto simp: flag(2) set_replaced_by_def)
  qed (simp add: releasing.step_refl)
qed (simp add: releases_def)

lemma note_news_funding [simp]: "st_funding (requeue_protocol_parents t s) = st_funding s"
  by (simp add: requeue_protocol_parents_def prepend_pending_speedup_parents_def Let_def
      split: tx_kind.split speedup_kind.split)

lemma releases_settle_failed_dispatch: "keeps releases (settle_failed_dispatch t h fm)"
  unfolding settle_failed_dispatch_def mark_parents_unspent_def
  by (auto intro!: releasing.keeps_rules releases_settle releasing.keeps_modify releases_same
      release_marks_releases releases_clear keeps_intros split: tx_kind.split speedup_kind.split)

lemma releases_cascade: "keeps releases (cascade fuel t h fm)"
proof (induction fuel arbitrary: t fm)
  case 0
  show ?case by (simp add: releasing.keeps_throw)
next
  case (Suc fuel)
  then show ?case
    by (auto intro!: releasing.keeps_rules releases_settle_failed_dispatch keeps_intros)
qed

lemma releases_fail_and_cascade: "keeps releases (fail_and_cascade t h fm)"
  unfolding keeps_def fail_and_cascade_def using releases_cascade unfolding keeps_def by blast

lemma settle_failed_dispatch_frees:
  assumes "keyed s" "ct_kind t = Speedup k"
    and "u \<in> set (case k of CPFP ps c \<Rightarrow> sc_funding_inputs c | RBF r us c \<Rightarrow> us)"
  shows "\<not> reserved (snd (settle_failed_dispatch t h fm s)) (utxo_outpoint u)"
proof -
  obtain s1 where s1: "settle_tx (ct_txid t) Failed h s = (Inr (), s1)" "only_fails s s1"
    using settle_tx_Failed [OF assms(1)] by blast
  define s2 where "s2 = note_news (dispatch_error_news t (ct_txid t)) s1"
  define us where "us = (case k of CPFP ps c \<Rightarrow> sc_funding_inputs c | RBF r us c \<Rightarrow> us)"
  have k2: "keyed s2"
    unfolding s2_def using only_failsD(1) [OF s1(2) assms(1)] by (simp add: keyed_def)
  have free: "\<not> reserved (release_marks coordinator_funding_storage us s2) (utxo_outpoint u)"
    using release_marks_frees [OF k2] assms(3) by (simp add: us_def)
  define s4 where "s4 = snd (settle_failed_dispatch t h fm s)"
  have "releases (release_marks coordinator_funding_storage us s2) s4"
  proof -
    have requeue: "releases a (if fm then requeue_protocol_parents t a else a)" for a
      by (simp add: releasing.step_refl releases_same)
    show ?thesis
    proof (cases k)
      case (CPFP ps c)
      have "s4 = (if fm then requeue_protocol_parents t (release_marks coordinator_funding_storage us s2)
          else release_marks coordinator_funding_storage us s2)"
        using assms(2) CPFP
        by (simp add: s4_def settle_failed_dispatch_def prog_simps s1(1) s2_def us_def mark_parents_unspent_def
            speedup_kind_of_def)
      then show ?thesis using requeue by simp
    next
      case (RBF r added c)
      let ?a = "clear_replaced_by r (release_marks coordinator_funding_storage us s2)"
      have "s4 = (if fm then requeue_protocol_parents t ?a else ?a)"
        using assms(2) RBF
        by (simp add: s4_def settle_failed_dispatch_def prog_simps s1(1) s2_def us_def)
      moreover have "releases (release_marks coordinator_funding_storage us s2) ?a" by (rule releases_clear)
      ultimately show ?thesis using releasing.step_trans [OF _ requeue] by simp
    qed
  qed
  moreover have "keyed (release_marks coordinator_funding_storage us s2)"
    using release_marks_releases [of s2 us] k2 by (simp add: releases_def)
  ultimately show ?thesis using free unfolding s4_def releases_def by blast
qed

text \<open>
  C12. A failure gives its funding back: after \<open>fail_and_cascade\<close> of a CPFP none of its funding
  inputs is reserved, and after that of an RBF none of the inputs it added itself; and nothing
  that was free becomes reserved, also not by the failures it causes. Inputs that an RBF
  inherited are left to the speedup it replaced.
\<close>

theorem failure_frees_funding:
  assumes "keyed s" and "ct_kind t = Speedup k"
    and "u \<in> set (case k of CPFP ps c \<Rightarrow> sc_funding_inputs c | RBF r added c \<Rightarrow> added)"
    and "fail_and_cascade t current_height funding_missing s = (Inr (), s')"
  shows "\<not> reserved s' (utxo_outpoint u) \<and> \<not> (reserved s' op \<and> \<not> reserved s op)"
proof -
  let ?s1 = "snd (settle_failed_dispatch t current_height funding_missing s)"
  obtain s1 where s1: "settle_failed_dispatch t current_height funding_missing s = (Inr (), s1)" "only_fails s s1"
    using settle_failed_dispatch_run [OF assms(1)] by blast
  have free: "\<not> reserved s1 (utxo_outpoint u)"
    using settle_failed_dispatch_frees [OF assms(1-3)] s1(1) by (metis snd_conv)
  have "keeps releases (pbind (pget get_speedups_ordered) (\<lambda>speedups.
      pfor (filter (\<lambda>s. ct_state s = ToDispatch) speedups)
        (\<lambda>d. if depends_on_tx d (ct_txid t) then cascade n d current_height True else pret ())))" for n
    by (auto intro!: releasing.keeps_rules releases_cascade keeps_intros)
  then have "releases s1 (snd (pbind (pget get_speedups_ordered) (\<lambda>speedups.
      pfor (filter (\<lambda>s. ct_state s = ToDispatch) speedups)
        (\<lambda>d. if depends_on_tx d (ct_txid t) then cascade (length (st_speedup_list s)) d current_height True
              else pret ())) s1))" unfolding keeps_def by blast
  then have "releases s1 s'"
    using assms(4) s1(1) by (simp add: fail_and_cascade_def pseq_run)
  then have "\<not> reserved s' (utxo_outpoint u)"
    using free only_failsD(1) [OF s1(2) assms(1)] unfolding releases_def by blast
  moreover have "releases s s'" using releases_fail_and_cascade assms(4) unfolding keeps_def by (metis snd_conv)
  ultimately show ?thesis using assms(1) unfolding releases_def by blast
qed

definition reserving_store :: store where
  "reserving_store =
     empty_store\<lparr>st_txs := [10 \<mapsto> plain_cpfp 10 [2] 90 ToDispatch], st_speedup_list := [10],
        st_funding_list := [OutPoint 90 0],
        st_funding := [OutPoint 90 0 \<mapsto> \<lparr>fd_utxo = plain_utxo 90, fd_spent = True, fd_from_speedup = False\<rparr>]\<rparr>"

theorem failure_frees_funding_witness:
  "\<exists>s'. fail_and_cascade (plain_cpfp 10 [2] 90 ToDispatch) 120 False reserving_store = (Inr (), s')
    \<and> reserved reserving_store (OutPoint 90 0) \<and> \<not> reserved s' (OutPoint 90 0)"
proof -
  let ?t = "plain_cpfp 10 [2] 90 ToDispatch"
  let ?k = "CPFP [2] \<lparr>sc_funding_inputs = [plain_utxo 90], sc_replaced_by = None, sc_bump_fee_used = Fin 1,
      sc_parent_data = [], sc_spent = False\<rparr>"
  have k: "keyed reserving_store" by (simp add: keyed_def reserving_store_def plain_cpfp_def plain_record_def)
  have kind: "ct_kind ?t = Speedup ?k" by (simp add: plain_cpfp_def plain_record_def)
  have u: "plain_utxo 90 \<in> set (case ?k of CPFP ps c \<Rightarrow> sc_funding_inputs c | RBF r added c \<Rightarrow> added)" by simp
  have op: "utxo_outpoint (plain_utxo 90) = OutPoint 90 0" by (simp add: utxo_outpoint_def plain_utxo_def)
  obtain s' where s': "fail_and_cascade ?t 120 False reserving_store = (Inr (), s')"
    using fail_and_cascade_run [OF k] by blast
  moreover have "reserved reserving_store (OutPoint 90 0)" by (simp add: reserved_def reserving_store_def)
  ultimately show ?thesis using failure_frees_funding [OF k kind u s'] op by auto
qed

section \<open>Retries\<close>

text \<open>One call, with the clock spelled out.\<close>

lemma limit_run:
  "apply_retry_rate_limit cx txs w =
     (let (ready, e1) = (case w_last_retry_at w of
            None \<Rightarrow> (True, w_ext w)
          | Some l \<Rightarrow> (let (now, e) = sv_now_secs (cx_services cx) (w_ext w) in
              (unat (retry_interval_seconds (bs_coordinator (cx_settings cx))) \<le> unat now - unat l, e)))
      in if ready \<and> (\<exists>t \<in> set txs. is_retry t)
         then (let (now, e2) = sv_now_secs (cx_services cx) e1 in
               (Inr txs, w\<lparr>w_last_retry_at := Some now, w_ext := e2\<rparr>))
         else (Inr (filter (\<lambda>t. \<not> is_retry t) txs), w\<lparr>w_ext := e1\<rparr>))"
proof -
  have all: "filter (\<lambda>t. is_retry t \<longrightarrow> True) txs = txs" "filter (\<lambda>t. is_retry t \<longrightarrow> False) txs = filter (\<lambda>t. \<not> is_retry t) txs"
    by simp_all
  have none: "filter (\<lambda>t. \<not> is_retry t) txs = txs" if "\<not> (\<exists>t \<in> set txs. is_retry t)"
    using that by (auto intro!: filter_True)
  show ?thesis
  proof (cases "w_last_retry_at w")
    case None
    then show ?thesis
      by (auto simp: apply_retry_rate_limit_def retry_ready_def prog_simps read_clock_def Let_def none split: prod.split)
  next
    case (Some l)
    obtain now e where c: "sv_now_secs (cx_services cx) (w_ext w) = (now, e)" by fastforce
    show ?thesis using Some
      by (auto simp: apply_retry_rate_limit_def retry_ready_def prog_simps read_clock_def Let_def c none
          word_le_nat_alt unat_saturating_sub split: prod.split)
  qed
qed

text \<open>
  Calls in a row: each with the transactions it is given, and with the store and the outside as they are then, since between
  two calls everything may change except the time of the last retry. The result is what each lets through, with the time of the last
  retry after it.
\<close>

fun limit_calls ::
    "'e engine_context \<Rightarrow> (store \<times> 'e \<times> coordinated_tx list) list \<Rightarrow> u64 option \<Rightarrow> (coordinated_tx list \<times> u64 option) list" where
  "limit_calls cx [] l = []"
| "limit_calls cx ((s, e, ts) # calls) l =
     (let (r, w) = apply_retry_rate_limit cx ts \<lparr>w_store = s, w_last_retry_at = l, w_ext = e\<rparr>
      in (case r of Inr passed \<Rightarrow> passed | Inl _ \<Rightarrow> [], w_last_retry_at w) # limit_calls cx calls (w_last_retry_at w))"

definition lets_retry :: "coordinated_tx list \<times> u64 option \<Rightarrow> bool" where
  "lets_retry c \<longleftrightarrow> (\<exists>t \<in> set (fst c). is_retry t)"

text \<open>A call reads the clock once or twice, from the outside \<open>e\<close> it starts in.\<close>

definition readings :: "'e engine_context \<Rightarrow> 'e \<Rightarrow> 'e set" where
  "readings cx e = {e, snd (sv_now_secs (cx_services cx) e)}"

definition limit_ok ::
    "'e engine_context \<Rightarrow> store \<times> 'e \<times> coordinated_tx list \<Rightarrow> u64 option \<Rightarrow> coordinated_tx list \<times> u64 option \<Rightarrow> bool" where
  "limit_ok cx call before c \<longleftrightarrow>
     fst c = (if lets_retry c then snd (snd call) else filter (\<lambda>t. \<not> is_retry t) (snd (snd call)))
   \<and> (\<not> lets_retry c \<longrightarrow> snd c = before)
   \<and> (lets_retry c \<longrightarrow> (\<exists>e \<in> readings cx (fst (snd call)). snd c = Some (fst (sv_now_secs (cx_services cx) e)))
        \<and> (\<forall>l. before = Some l \<longrightarrow> unat (retry_interval_seconds (bs_coordinator (cx_settings cx)))
             \<le> unat (fst (sv_now_secs (cx_services cx) (fst (snd call)))) - unat l))"

lemma limit_calls_Cons:
  "\<exists>c. limit_calls cx (call # calls) l = c # limit_calls cx calls (snd c) \<and> limit_ok cx call l c"
proof -
  obtain s e ts where call: "call = (s, e, ts)" by (cases call)
  define r where "r = apply_retry_rate_limit cx ts \<lparr>w_store = s, w_last_retry_at = l, w_ext = e\<rparr>"
  let ?c = "(case fst r of Inr passed \<Rightarrow> passed | Inl _ \<Rightarrow> [], w_last_retry_at (snd r))"
  have "limit_ok cx call l ?c"
    unfolding r_def call limit_run
    by (auto simp: limit_ok_def lets_retry_def readings_def Let_def split: prod.split option.splits)
  moreover have "limit_calls cx (call # calls) l = ?c # limit_calls cx calls (snd ?c)"
    by (simp add: call r_def case_prod_unfold Let_def)
  ultimately show ?thesis by blast
qed

lemma limit_nth:
  "j < length calls \<Longrightarrow> limit_ok cx (calls ! j) (case j of 0 \<Rightarrow> l | Suc i \<Rightarrow> snd (limit_calls cx calls l ! i)) (limit_calls cx calls l ! j)"
proof (induction calls arbitrary: j l)
  case (Cons call calls)
  obtain c where c: "limit_calls cx (call # calls) l = c # limit_calls cx calls (snd c)" "limit_ok cx call l c"
    using limit_calls_Cons by blast
  show ?case
  proof (cases j)
    case (Suc i)
    then show ?thesis using Cons.IH [of i "snd c"] Cons.prems unfolding c(1) by (cases i) simp_all
  qed (use c in \<open>simp del: limit_calls.simps\<close>)
qed simp

text \<open>
  C36. Retries are spaced: in any sequence of calls of the retry limit, with whatever transactions, and whatever happens to
  the store and the clock in between, a call lets through all its transactions or exactly those that never failed to be sent. Let
  one call let a retry through and let the next that does so come later. Then the clock that the later call reads is at
  least \<open>retry_interval_seconds\<close> past the time that the earlier one recorded, which it read from the clock itself.
\<close>

theorem retries_are_spaced:
  assumes "results = limit_calls cx calls l" and "i < j" and "j < length calls"
    and "lets_retry (results ! i)" and "lets_retry (results ! j)" and "\<forall>k. i < k \<and> k < j \<longrightarrow> \<not> lets_retry (results ! k)"
  shows "(\<exists>e \<in> readings cx (fst (snd (calls ! i))). \<exists>recorded. snd (results ! i) = Some recorded
      \<and> recorded = fst (sv_now_secs (cx_services cx) e)
      \<and> unat (retry_interval_seconds (bs_coordinator (cx_settings cx)))
        \<le> unat (fst (sv_now_secs (cx_services cx) (fst (snd (calls ! j))))) - unat recorded)
    \<and> (\<forall>k < length calls. fst (results ! k) = (if lets_retry (results ! k) then snd (snd (calls ! k))
        else filter (\<lambda>t. \<not> is_retry t) (snd (snd (calls ! k)))))"
proof -
  note nth = limit_nth [of _ calls cx l, folded assms(1), unfolded limit_ok_def]
  have "i < length calls" using assms(2,3) by simp
  from nth [OF this] assms(4) obtain n e where n: "snd (results ! i) = Some n" "n = fst (sv_now_secs (cx_services cx) e)"
    "e \<in> readings cx (fst (snd (calls ! i)))" by blast
  have same: "k < j \<Longrightarrow> snd (results ! k) = Some n" if "i \<le> k" for k
    using that
  proof (induction k rule: dec_induct)
    case (step k)
    then show ?case using nth [of "Suc k"] assms(3,6) by simp
  qed (simp add: n)
  obtain m where m: "j = Suc m" using assms(2) by (cases j) simp_all
  then have "snd (results ! m) = Some n" using same [of m] assms(2) by simp
  then have "unat (retry_interval_seconds (bs_coordinator (cx_settings cx)))
        \<le> unat (fst (sv_now_secs (cx_services cx) (fst (snd (calls ! j))))) - unat n"
    using nth [OF assms(3)] assms(5) m by simp
  then show ?thesis using n nth by blast
qed

text \<open>
  A clock that reads 1000, 1003 and 1006 with an interval of 5 seconds: the retry of the first call is let through, the second call
  holds it back, the third lets it through.
\<close>

definition ticking :: "transaction list engine_context" where
  "ticking = demo_context ((demo_services (\<lambda>x. False))\<lparr>sv_now_secs := (\<lambda>log. (1000 + 3 * of_nat (length log), log))\<rparr>)"

definition retry_calls :: "(store \<times> transaction list \<times> coordinated_tx list) list" where
  "retry_calls = map (\<lambda>log. (empty_store, log, [plain_record 6 Normal ToDispatch, (plain_record 5 Normal ToDispatch)\<lparr>ct_retry_count := 1\<rparr>]))
     [[], [plain_tx 7], [plain_tx 7, plain_tx 8]]"

theorem retries_are_spaced_witness:
  "map (map ct_txid \<circ> fst) (limit_calls ticking retry_calls None) = [[6, 5], [6], [6, 5]]
   \<and> (\<exists>recorded. snd (limit_calls ticking retry_calls None ! 0) = Some recorded \<and> 5 \<le> unat (1006 :: u64) - unat recorded)"
proof -
  let ?t = "(plain_record 5 Normal ToDispatch)\<lparr>ct_retry_count := 1\<rparr>" and ?f = "plain_record 6 Normal ToDispatch"
  have run: "limit_calls ticking retry_calls None = [([?f, ?t], Some 1000), ([?f], Some 1000), ([?f, ?t], Some 1006)]"
    by (simp add: retry_calls_def ticking_def limit_run is_retry_def plain_record_def demo_defs)
  let ?r = "limit_calls ticking retry_calls None"
  have lets: "lets_retry (?r ! 0)" "lets_retry (?r ! 2)" "\<forall>k. 0 < k \<and> k < 2 \<longrightarrow> \<not> lets_retry (?r ! k)"
    unfolding run by (auto simp: lets_retry_def is_retry_def plain_record_def less_Suc_eq numeral_2_eq_2)
  have calls: "2 < length retry_calls" "fst (sv_now_secs (cx_services ticking) (fst (snd (retry_calls ! 2)))) = 1006"
    "retry_interval_seconds (bs_coordinator (cx_settings ticking)) = 5"
    by (simp_all add: retry_calls_def ticking_def demo_defs)
  show ?thesis
    using retries_are_spaced [OF refl _ calls(1) lets] by (auto simp: calls(2,3)) (simp add: run plain_record_def)
qed

end
