(* ===== verification/Program_Logic.thy ===== *)
theory Program_Logic
  imports Engine_Facts
begin

text \<open>
  A logic of invariants and results for programs: \<open>runs I m P\<close> says that from a state where
  \<open>I\<close> holds the program \<open>m\<close> leaves a state where \<open>I\<close> holds, also when it fails, that a
  value it returns satisfies \<open>P\<close>, and that it does not panic.
\<close>

named_theorems runs_intros \<open>programs that keep the invariant and do not panic\<close>

fun is_panic :: "failure \<Rightarrow> bool" where
  "is_panic (Panic msg) = True"
| "is_panic (Err e) = False"
| "is_panic NoReturn = False"

definition runs :: "('s \<Rightarrow> bool) \<Rightarrow> ('s, failure, 'a) prog \<Rightarrow> ('a \<Rightarrow> bool) \<Rightarrow> bool" where
  "runs I m P \<longleftrightarrow>
     (\<forall>s. I s \<longrightarrow> I (snd (m s)) \<and> (case fst (m s) of Inr x \<Rightarrow> P x | Inl e \<Rightarrow> \<not> is_panic e))"

section \<open>Rules\<close>

lemma runsI:
  assumes "\<And>s r s'. I s \<Longrightarrow> m s = (r, s') \<Longrightarrow> I s' \<and> (\<forall>x. r = Inr x \<longrightarrow> P x) \<and> (\<forall>e. r = Inl e \<longrightarrow> \<not> is_panic e)"
  shows "runs I m P"
  unfolding runs_def
proof (intro allI impI)
  fix s assume "I s"
  from assms [OF this, of "fst (m s)" "snd (m s)"]
  show "I (snd (m s)) \<and> (case fst (m s) of Inr x \<Rightarrow> P x | Inl e \<Rightarrow> \<not> is_panic e)"
    by (simp split: sum.split)
qed

lemma runsD:
  assumes "runs I m P" "I s" "m s = (r, s')"
  shows "I s'" "r = Inr x \<Longrightarrow> P x" "r = Inl e \<Longrightarrow> \<not> is_panic e"
  using assms unfolding runs_def by (metis fst_conv snd_conv sum.simps(5) sum.simps(6))+

lemma runs_weaken: "runs I m P \<Longrightarrow> (\<And>x. P x \<Longrightarrow> P' x) \<Longrightarrow> runs I m P'"
  unfolding runs_def by (metis sum.case_eq_if)

lemma runs_any: "runs I m P \<Longrightarrow> runs I m (\<lambda>_. True)"
  by (erule runs_weaken) simp

lemma runs_ret: "P x \<Longrightarrow> runs I (pret x) P"
  by (simp add: runs_def pret_run)

lemma runs_throw: "\<not> is_panic e \<Longrightarrow> runs I (pthrow e) P"
  by (simp add: runs_def pthrow_run)

lemma runs_get: "(\<And>s. I s \<Longrightarrow> P (f s)) \<Longrightarrow> runs I (pget f) P"
  by (simp add: runs_def pget_run)

lemma runs_modify: "(\<And>s. I s \<Longrightarrow> I (f s)) \<Longrightarrow> P () \<Longrightarrow> runs I (pmodify f) P"
  by (simp add: runs_def pmodify_run)

lemma runs_step: "(\<And>s. I s \<Longrightarrow> I (snd (f s)) \<and> P (fst (f s))) \<Longrightarrow> runs I (pstep f) P"
  by (simp add: runs_def pstep_run)

lemma runs_lift: "(\<And>x. r = Inr x \<Longrightarrow> P x) \<Longrightarrow> (\<And>e. r = Inl e \<Longrightarrow> \<not> is_panic e) \<Longrightarrow> runs I (plift r) P"
  by (simp add: runs_def plift_run split: sum.split)

lemma runs_bind:
  assumes m: "runs I m P" and f: "\<And>x. P x \<Longrightarrow> runs I (f x) P'"
  shows "runs I (pbind m f) P'"
proof (rule runsI)
  fix s r s' assume s: "I s" and run: "pbind m f s = (r, s')"
  obtain a u where m': "m s = (a, u)" by fastforce
  note u = runsD [OF m s m']
  show "I s' \<and> (\<forall>x. r = Inr x \<longrightarrow> P' x) \<and> (\<forall>e. r = Inl e \<longrightarrow> \<not> is_panic e)"
  proof (cases a)
    case (Inl e)
    then show ?thesis using run u m' by (auto simp: pbind_run)
  next
    case (Inr x)
    then have "f x u = (r, s')" using run m' by (simp add: pbind_run)
    then show ?thesis using runsD [OF f [OF u(2) [OF Inr]] u(1)] by blast
  qed
qed

lemma runs_seq: "runs I m P \<Longrightarrow> runs I n P' \<Longrightarrow> runs I (pseq m n) P'"
  unfolding pseq_def by (rule runs_bind)

lemma runs_for: "(\<And>x. x \<in> set xs \<Longrightarrow> runs I (f x) (\<lambda>_. True)) \<Longrightarrow> P () \<Longrightarrow> runs I (pfor xs f) P"
  by (induction xs) (auto intro: runs_ret runs_seq)

lemma runs_map_err: "(\<And>e. \<not> is_panic (h e)) \<Longrightarrow> (\<And>s r s'. I s \<Longrightarrow> m s = (r, s') \<Longrightarrow> I s') \<Longrightarrow>
    runs I (pmap_err h m) (\<lambda>_. True)"
  by (rule runsI) (auto simp: pmap_err_run split: prod.splits sum.splits)

lemma runs_try: "(\<And>s r s'. I s \<Longrightarrow> m s = (r, s') \<Longrightarrow> I s') \<Longrightarrow> runs I (ptry m) (\<lambda>_. True)"
  by (rule runsI) (auto simp: ptry_run prod_eq_iff)

lemma runs_if: "(b \<Longrightarrow> runs I m P) \<Longrightarrow> (\<not> b \<Longrightarrow> runs I n P) \<Longrightarrow> runs I (if b then m else n) P"
  by simp

lemma runs_option: "(x = None \<Longrightarrow> runs I m P) \<Longrightarrow> (\<And>y. x = Some y \<Longrightarrow> runs I (n y) P) \<Longrightarrow>
   runs I (case x of None \<Rightarrow> m | Some y \<Rightarrow> n y) P"
  by (cases x) simp_all

lemma runs_prod: "(\<And>a b. x = (a, b) \<Longrightarrow> runs I (m a b) P) \<Longrightarrow> runs I (case x of (a, b) \<Rightarrow> m a b) P"
  by (cases x) simp

lemmas runs_control = runs_if runs_option runs_prod

section \<open>Parts of the world\<close>

abbreviation in_store :: "(store \<Rightarrow> bool) \<Rightarrow> 'e world \<Rightarrow> bool" where
  "in_store I \<equiv> \<lambda>w. I (w_store w)"

lemma runs_on_store: "runs I m P \<Longrightarrow> runs (in_store I) (on_store m) P"
  by (simp add: runs_def on_store_run)

lemma runs_on_ext: "runs (\<lambda>_. True) m P \<Longrightarrow> runs (in_store I) (on_ext m) P"
  by (simp add: runs_def on_ext_run)

lemma runs_call [runs_intros]: "runs (in_store I) (call_monitor m) (\<lambda>_. True)"
  unfolding call_monitor_def by (intro runs_on_ext runs_map_err) simp_all

lemma runs_height [runs_intros]: "runs (in_store I) (monitor_height cx) (\<lambda>_. True)"
  unfolding monitor_height_def by (rule runs_call)

lemma runs_clock [runs_intros]: "runs (in_store I) (read_clock cx) (\<lambda>_. True)"
  unfolding read_clock_def by (intro runs_on_ext runs_step) simp

lemma runs_network_rate [runs_intros]: "runs (in_store I) (network_fee_rate cx) (\<lambda>_. True)"
  unfolding network_fee_rate_def by (rule runs_bind [OF runs_on_ext [OF runs_try]]) (simp_all add: runs_ret)

lemma runs_input_missing [runs_intros]: "runs (in_store I) (some_input_missing cx ops) (\<lambda>_. True)"
  by (induction ops) (auto intro!: runs_ret runs_bind [OF runs_call])

lemma runs_missing_kind [runs_intros]: "runs (in_store I) (missing_input_kind cx t) (\<lambda>_. True)"
  unfolding missing_input_kind_def by (auto intro!: runs_ret runs_bind [OF runs_input_missing])

lemma runs_retry_ready: "runs (in_store I) (retry_ready cx) (\<lambda>_. True)"
  unfolding retry_ready_def
  by (auto intro!: runs_bind [OF runs_get] runs_bind [OF runs_clock] runs_ret runs_option)

lemma runs_rate_limit:
  "runs (in_store I) (apply_retry_rate_limit cx txs) (\<lambda>ts. set ts \<subseteq> set txs)"
  unfolding apply_retry_rate_limit_def Let_def
  by (auto intro!: runs_bind [OF runs_retry_ready] runs_bind [OF runs_clock] runs_if runs_ret
      runs_seq [OF runs_modify [where P = "\<lambda>_. True"]])

lemma runs_send: "runs (\<lambda>_. True) (send_outcome sv t) (\<lambda>_. True)"
  unfolding send_outcome_def by (intro runs_bind [OF runs_try] runs_ret) simp_all

lemma runs_parents_ready: "runs (\<lambda>_. True) (parents_ready_loop ds st sv mc ops) (\<lambda>_. True)"
  by (induction ops) (auto intro!: runs_ret runs_if runs_bind [OF runs_map_err])

lemma runs_dispatch_loop: "runs (\<lambda>_. True) (dispatch_loop ds st sv mc txs results) (\<lambda>_. True)"
  by (induction txs arbitrary: results)
    (auto intro!: runs_ret runs_option runs_if runs_bind [OF runs_parents_ready] runs_bind [OF runs_send]
      simp: parents_ready_def)

lemma runs_dispatcher [runs_intros]: "runs (in_store I) (run_dispatcher cx txs) (\<lambda>_. True)"
  unfolding run_dispatcher_def dispatch_def
  by (auto intro!: runs_bind [OF runs_get [where P = "\<lambda>_. True"]] runs_on_ext runs_dispatch_loop split: prod.split)

section \<open>Programs that return\<close>

text \<open>
  \<open>yields I m P\<close> is total: from a state where \<open>I\<close> holds the program \<open>m\<close> returns a value that satisfies \<open>P\<close>,
  without an error, and \<open>I\<close> holds afterwards.
\<close>

definition yields :: "('s \<Rightarrow> bool) \<Rightarrow> ('s, 'f, 'a) prog \<Rightarrow> ('a \<Rightarrow> bool) \<Rightarrow> bool" where
  "yields I m P \<longleftrightarrow> (\<forall>s. I s \<longrightarrow> (\<exists>x s'. m s = (Inr x, s') \<and> P x \<and> I s'))"

lemma yieldsE:
  assumes "yields I m P" "I s"
  obtains x s' where "m s = (Inr x, s')" "P x" "I s'"
  using assms unfolding yields_def by blast

lemma yields_weaken: "yields I m P \<Longrightarrow> (\<And>x. P x \<Longrightarrow> P' x) \<Longrightarrow> yields I m P'"
  unfolding yields_def by blast

lemma yields_ret: "P x \<Longrightarrow> yields I (pret x) P"
  by (simp add: yields_def prog_simps)

lemma yields_get: "(\<And>s. I s \<Longrightarrow> P (f s)) \<Longrightarrow> yields I (pget f) P"
  by (simp add: yields_def prog_simps)

lemma yields_modify: "(\<And>s. I s \<Longrightarrow> I (f s)) \<Longrightarrow> P () \<Longrightarrow> yields I (pmodify f) P"
  by (simp add: yields_def prog_simps)

lemma yields_lift: "r = Inr x \<Longrightarrow> P x \<Longrightarrow> yields I (plift r) P"
  by (simp add: yields_def prog_simps)

lemma yields_bind:
  assumes m: "yields I m P" and f: "\<And>x. P x \<Longrightarrow> yields I (f x) P'"
  shows "yields I (pbind m f) P'"
  unfolding yields_def
proof (intro allI impI)
  fix s assume "I s"
  with m obtain x s' where x: "m s = (Inr x, s')" "P x" "I s'" by (rule yieldsE)
  then show "\<exists>y u. pbind m f s = (Inr y, u) \<and> P' y \<and> I u"
    using f [OF x(2)] by (simp add: yields_def pbind_run)
qed

lemma yields_seq: "yields I m P \<Longrightarrow> yields I n P' \<Longrightarrow> yields I (pseq m n) P'"
  unfolding pseq_def by (rule yields_bind)

lemma yields_if: "(b \<Longrightarrow> yields I m P) \<Longrightarrow> (\<not> b \<Longrightarrow> yields I n P) \<Longrightarrow> yields I (if b then m else n) P"
  by simp

lemma yields_option: "(x = None \<Longrightarrow> yields I m P) \<Longrightarrow> (\<And>y. x = Some y \<Longrightarrow> yields I (n y) P) \<Longrightarrow>
   yields I (case x of None \<Rightarrow> m | Some y \<Rightarrow> n y) P"
  by (cases x) simp_all

lemma yields_for: "(\<And>x. x \<in> set xs \<Longrightarrow> yields I (f x) (\<lambda>_. True)) \<Longrightarrow> P () \<Longrightarrow> yields I (pfor xs f) P"
  by (induction xs) (auto intro: yields_ret yields_seq)

lemma yields_runs: "yields I m P \<Longrightarrow> runs J m Q \<Longrightarrow> yields (\<lambda>s. I s \<and> J s) m P"
  unfolding yields_def runs_def by (metis snd_conv)

lemma yields_on_store: "yields I m P \<Longrightarrow> yields (in_store I) (on_store m) P"
  by (fastforce simp: yields_def on_store_run)

text \<open>A call of the monitor that is answered; it does not change what \<open>I\<close> says of the coordinator.\<close>

lemma yields_call:
  assumes "\<And>e. \<exists>v. fst (m e) = Inr v \<and> P v" and "\<And>w e. I (w\<lparr>w_ext := e\<rparr>) = I w"
  shows "yields I (call_monitor m) P"
  unfolding yields_def
proof (intro allI impI)
  fix w assume w: "I w"
  obtain v e' where v: "m (w_ext w) = (Inr v, e')" "P v" using assms(1) by (metis prod.collapse)
  then have "call_monitor m w = (Inr v, w\<lparr>w_ext := e'\<rparr>)" by (simp add: call_monitor_def on_ext_run pmap_err_run)
  then show "\<exists>v w'. call_monitor m w = (Inr v, w') \<and> P v \<and> I w'" using w v(2) assms(2) by blast
qed

end
