(* ===== verification/Speedup_Engine.thy ===== *)
theory Speedup_Engine
  imports Engine
begin

text \<open>
  \<open>SpeedupEngine\<close> of \<open>src/engines/speedup_engine.rs\<close>: the review of the speedups in
  flight, the dispatch of those built in an earlier tick, the boost of a stale speedup and
  the CPFP for the parents that wait for one. Building a speedup is a loop whose number of
  rounds is bounded by a measure, so it is a total function here.
\<close>

section \<open>Review\<close>

text \<open>
  The loop of \<open>remove_replaced_rbf\<close> along the chain of replaced speedups. It has no end
  when the chain has a cycle; a chain without one has at most one link more than there are
  records, which is the fuel.
\<close>

definition older_replaced :: "txid \<Rightarrow> store \<Rightarrow> txid option" where
  "older_replaced txid s =
     (case get_tx_by_id txid s of
        Some prev \<Rightarrow> (case ct_kind prev of Speedup (RBF older _ _) \<Rightarrow> Some older | _ \<Rightarrow> None)
      | None \<Rightarrow> None)"

fun remove_replaced_loop ::
    "'e engine_context \<Rightarrow> nat \<Rightarrow> string \<Rightarrow> block_height \<Rightarrow> txid \<Rightarrow> ('e, unit) world_prog" where
  "remove_replaced_loop cx 0 context current_height current_id = pthrow NoReturn"
| "remove_replaced_loop cx (Suc fuel) context current_height current_id =
     pbind (on_store (pget (older_replaced current_id))) (\<lambda>next_id.
     pseq (call_monitor (sv_cancel (cx_services cx) (Transactions [current_id] context None)))
    (pseq (on_store (settle_tx current_id Failed current_height))
     (case next_id of
        Some older \<Rightarrow> remove_replaced_loop cx fuel context current_height older
      | None \<Rightarrow> pret ())))"

definition remove_replaced_rbf ::
    "'e engine_context \<Rightarrow> coordinated_tx \<Rightarrow> block_height \<Rightarrow> ('e, unit) world_prog" where
  "remove_replaced_rbf cx t current_height =
     (case ct_kind t of
        Speedup (RBF replaces _ _) \<Rightarrow>
          pbind (on_store (pget (\<lambda>s. length (cx_scan cx (st_txs s))))) (\<lambda>records.
          remove_replaced_loop cx (Suc records) (ct_context t) current_height replaces)
      | _ \<Rightarrow> pret ())"

definition review_speedup ::
    "'e engine_context \<Rightarrow> coordinated_tx list \<Rightarrow> block_height \<Rightarrow> coordinated_tx \<Rightarrow> ('e, unit) world_prog" where
  "review_speedup cx all_speedups current_height t =
     (let max_confs = max_monitoring_confirmations (cx_settings cx) in
      if ct_state t \<notin> {InMempool, Confirmed} then pret ()
      else pbind (call_monitor (sv_get_tx_status (cx_services cx) (ct_txid t) True)) (\<lambda>status.
        if is_in_mempool status then
          (if ct_state t = Confirmed then on_store (pmodify (mark_reorg t current_height)) else pret ())
        else if is_not_found status then
          (if has_live_replacement t all_speedups then pret ()
           else on_store (pmodify (requeue_not_found (ct_txid t) (current_height + max_confs))))
        else if is_finalized status max_confs then
          pseq (on_store (mark_finalized (ct_txid t) current_height))
         (pseq (remove_replaced_rbf cx t current_height)
          (on_store (replace_on_finalize coordinator_funding_storage (ct_txid t))))
        else if is_confirmed status then on_store (mark_confirmed (ct_txid t))
        else if is_orphan status then on_store (mark_orphan (ct_txid t))
        else pret ()))"

definition review_speedups :: "'e engine_context \<Rightarrow> ('e, unit) world_prog" where
  "review_speedups cx =
     pbind (monitor_height cx) (\<lambda>current_height.
     pbind (on_store (pget get_speedups_ordered)) (\<lambda>all_speedups.
     if all_speedups = [] then pret ()
     else pfor all_speedups (review_speedup cx all_speedups current_height)))"

section \<open>Dispatch\<close>

definition is_boost_tx :: "coordinated_tx \<Rightarrow> bool" where
  "is_boost_tx t = (case speedup_kind_of t of Inr k \<Rightarrow> is_boost k | Inl _ \<Rightarrow> False)"

definition dispatch_pending_speedups :: "'e engine_context \<Rightarrow> ('e, bool) world_prog" where
  "dispatch_pending_speedups cx =
     pbind (monitor_height cx) (\<lambda>current_height.
     pbind (on_store (pget get_speedups_ordered)) (\<lambda>all_speedups.
     let pending = filter (\<lambda>t. ct_state t = ToDispatch) all_speedups in
     if pending = [] then pret False
     else pbind (apply_retry_rate_limit cx pending) (\<lambda>dispatchable.
       if dispatchable = [] then pret False
       else let boost_txids = map ct_txid (filter is_boost_tx dispatchable) in
         pbind (run_dispatcher cx dispatchable) (\<lambda>results.
         pseq (pfor results (\<lambda>(txid, outcome).
                 case find (\<lambda>t. ct_txid t = txid) dispatchable of
                   Some t \<Rightarrow> handle_dispatch_result cx t txid outcome current_height (ct_fee_info t)
                 | None \<Rightarrow> pret ()))
         (on_store (pget (\<lambda>s. \<exists>id \<in> set boost_txids. is_tx_failed id s)))))))"

section \<open>Building\<close>

text \<open>\<open>SpeedupBuildResult\<close>.\<close>

record speedup_build_result =
  br_tx :: transaction
  br_fee :: u64
  br_capped :: bool
  br_funding_inputs :: "utxo list"

definition is_live_in_mempool :: "coordinated_tx \<Rightarrow> coordinated_tx list \<Rightarrow> bool" where
  "is_live_in_mempool t all_speedups = (ct_state t = InMempool \<and> \<not> has_live_replacement t all_speedups)"

definition amount_from_speedup_data :: "speedup_data \<Rightarrow> u64" where
  "amount_from_speedup_data d =
     (case sd_utxo d of
        Some u \<Rightarrow> u_amount u
      | None \<Rightarrow> (case sd_partial_utxo d of Some (_, _, a) \<Rightarrow> a | None \<Rightarrow> 0))"

definition make_speedup_context ::
    "utxo list \<Rightarrow> f64 \<Rightarrow> (speedup_data \<times> u64) list \<Rightarrow> speedup_context" where
  "make_speedup_context funding_inputs bump_fee parent_entries =
     \<lparr>sc_funding_inputs = funding_inputs, sc_replaced_by = None, sc_bump_fee_used = bump_fee,
      sc_parent_data = map (\<lambda>(sd, vs). (sd, amount_from_speedup_data sd, vs)) parent_entries,
      sc_spent = False\<rparr>"

fun ctx_for_kind :: "speedup_kind \<Rightarrow> string" where
  "ctx_for_kind (RBF _ _ _) = RBF_TRANSACTION_CONTEXT"
| "ctx_for_kind (CPFP _ _) = CPFP_TRANSACTION_CONTEXT"

text \<open>The slice \<open>xs[n..]\<close>, which panics when it starts beyond the end.\<close>

definition slice_from :: "nat \<Rightarrow> 'a list \<Rightarrow> 'a list result" where
  "slice_from n xs = (if n \<le> length xs then Inr (drop n xs) else Inl (Panic ''slice index out of range''))"

text \<open>The call of the transaction builder; the key of the first funding input gets the change.\<close>

definition build_tx ::
    "'e engine_context \<Rightarrow> speedup_data list \<Rightarrow> utxo list \<Rightarrow> u64 \<Rightarrow> ('e, transaction) world_prog" where
  "build_tx cx speedups_data funding_inputs fee =
     (case funding_inputs of
        [] \<Rightarrow> pthrow (Panic ''index out of bounds'')
      | fi # _ \<Rightarrow>
          on_ext (pmap_err (\<lambda>e. Err (ProtocolBuilderError e))
            (sv_speedup_transactions (cx_services cx) speedups_data funding_inputs (u_pub_key fi) fee)))"

definition emit_insufficient_funds :: "u64 \<Rightarrow> u64 \<Rightarrow> store \<Rightarrow> store" where
  "emit_insufficient_funds available required = note_news (InsufficientFunds available required)"

definition emit_funding_not_available :: "store \<Rightarrow> store" where
  "emit_funding_not_available = note_news FundingNotAvailable"

text \<open>What does not change in the loop of \<open>build_speedup\<close>.\<close>

record build_args =
  ba_parent_entries :: "(speedup_data \<times> u64) list"
  ba_bump_fee :: f64
  ba_fee_rate :: u64
  ba_is_rbf :: bool
  ba_chain_diff_fee :: u64
  ba_inherited_count :: nat
  ba_primary_is_speedup :: bool

text \<open>The exit without a transaction: release what this call reserved, and tell the operator.\<close>

definition give_up :: "'e engine_context \<Rightarrow> build_args \<Rightarrow> utxo list \<Rightarrow> u64 \<Rightarrow> u64
    \<Rightarrow> ('e, speedup_build_result option) world_prog" where
  "give_up cx a funding_inputs total_available fee =
     pbind (plift (slice_from (ba_inherited_count a) funding_inputs)) (\<lambda>mine.
     pseq (on_store (pmodify (release_marks coordinator_funding_storage mine)))
    (pseq (on_store (pmodify (emit_insufficient_funds total_available (fee + cx_max_dust_limit cx))))
     (pret None)))"

function build_loop ::
    "'e engine_context \<Rightarrow> build_args \<Rightarrow> utxo list \<Rightarrow> u64
      \<Rightarrow> 'e world \<Rightarrow> (failure + speedup_build_result option) \<times> 'e world" where
  "build_loop cx a funding_inputs child_vsize w =
     (let speedups_data = map fst (ba_parent_entries a);
          total_available = sum_list (map u_amount funding_inputs)
      in case build_tx cx speedups_data funding_inputs 1 w of
        (Inl e, w1) \<Rightarrow> (Inl e, w1)
      | (Inr dummy, w1) \<Rightarrow>
          let vsize = (if child_vsize = 0 then tx_vsize dummy else child_vsize);
              (fee, capped) = compute_speedup_fee (bs_fee (cx_settings cx))
                 (map snd (ba_parent_entries a)) vsize (ba_bump_fee a) (ba_fee_rate a)
                 (ba_is_rbf a) (ba_chain_diff_fee a)
          in if saturating_sub total_available fee < cx_max_dust_limit cx then
               (if length funding_inputs = 1 \<and> ba_primary_is_speedup a then
                  (case get_combine_funding coordinator_funding_storage (w_store w1) of
                     (Some extra, s) \<Rightarrow> build_loop cx a (funding_inputs @ [extra]) 0 (w1\<lparr>w_store := s\<rparr>)
                   | (None, s) \<Rightarrow> give_up cx a funding_inputs total_available fee (w1\<lparr>w_store := s\<rparr>))
                else give_up cx a funding_inputs total_available fee w1)
             else case build_tx cx speedups_data funding_inputs fee w1 of
               (Inl e, w2) \<Rightarrow> (Inl e, w2)
             | (Inr final_tx, w2) \<Rightarrow>
                 if tx_vsize final_tx \<le> vsize
                 then (Inr (Some \<lparr>br_tx = final_tx, br_fee = fee, br_capped = capped,
                                  br_funding_inputs = funding_inputs\<rparr>), w2)
                 else build_loop cx a funding_inputs (tx_vsize final_tx) w2)"
  by pat_completeness auto

text \<open>A second input is taken at most once; otherwise the size grows, and it is a 64-bit word.\<close>

termination build_loop
proof (relation "measures
    [\<lambda>(cx, a, ins, v, w). if length ins = 1 then 1 else 0, \<lambda>(cx, a, ins, v, w). 2 ^ 64 - unat v]",
    goal_cases)
  case 1
  then show ?case by simp
next
  case 2
  then show ?case by simp
next
  case (3 cx a ins v w data total r w1 dummy vsize fc fee capped r2 w2 final)
  then have "unat v < unat (tx_vsize final)"
    by (auto simp: word_less_nat_alt not_le split: if_splits)
  moreover have "unat (tx_vsize final) < 2 ^ 64"
    using unsigned_less [of "tx_vsize final"] by simp
  ultimately show ?case by simp
qed

declare build_loop.simps [simp del]

text \<open>The inputs to start with: those of the replaced speedup, or newly reserved funding.\<close>

definition build_speedup ::
    "'e engine_context \<Rightarrow> (speedup_data \<times> u64) list \<Rightarrow> utxo list option \<Rightarrow> f64 \<Rightarrow> u64 \<Rightarrow> u64
      \<Rightarrow> ('e, speedup_build_result option) world_prog" where
  "build_speedup cx parent_entries rbf_initial_inputs bump_fee fee_rate chain_diff_fee =
     (let args = (\<lambda>inherited primary.
            \<lparr>ba_parent_entries = parent_entries, ba_bump_fee = bump_fee, ba_fee_rate = fee_rate,
             ba_is_rbf = (rbf_initial_inputs \<noteq> None), ba_chain_diff_fee = chain_diff_fee,
             ba_inherited_count = inherited, ba_primary_is_speedup = primary\<rparr>)
      in case rbf_initial_inputs of
        Some inputs \<Rightarrow>
          pbind (on_store (pget (\<lambda>s. case inputs of
              fi # _ \<Rightarrow> is_speedup_derived (utxo_outpoint fi) s | [] \<Rightarrow> False))) (\<lambda>primary.
          build_loop cx (args (length inputs) primary) inputs 0)
      | None \<Rightarrow>
          pbind (on_store (pget get_speedups_ordered)) (\<lambda>all_speedups.
          pbind (on_store (get_funding coordinator_funding_storage all_speedups)) (\<lambda>funding.
          case funding of
            Some (u, primary) \<Rightarrow> build_loop cx (args 0 primary) [u] 0
          | None \<Rightarrow> pseq (on_store (pmodify emit_funding_not_available)) (pret None))))"

definition speedup_record ::
    "transaction \<Rightarrow> fee_info \<Rightarrow> speedup_kind \<Rightarrow> block_height \<Rightarrow> coordinated_tx" where
  "speedup_record tx fee_info kind current_height =
     \<lparr>ct_txid = tx_compute_txid tx, ct_tx = tx, ct_kind = Speedup kind, ct_state = ToDispatch,
      ct_target_block_height = current_height, ct_confirmation_trigger = None,
      ct_stuck_in_mempool_blocks = None, ct_settled_block_height = None,
      ct_broadcast_block_height = None, ct_fail_guard_until = None, ct_retry_count = 0,
      ct_fee_info = fee_info, ct_context = ctx_for_kind kind\<rparr>"

definition save_speedup ::
    "'e engine_context \<Rightarrow> transaction \<Rightarrow> fee_info \<Rightarrow> speedup_kind \<Rightarrow> block_height \<Rightarrow> ('e, unit) world_prog" where
  "save_speedup cx tx fee_info kind current_height =
     pseq (on_store (pmodify (insert_speedup (speedup_record tx fee_info kind current_height))))
     (call_monitor (sv_monitor (cx_services cx)
        (Transactions [tx_compute_txid tx] (ctx_for_kind kind) None) False))"

section \<open>Boosts\<close>

text \<open>
  What \<open>boost_if_stale\<close> decides from the speedups before it builds: nothing to do, or
  the speedup to boost, its context, and whether to replace it.
\<close>

definition boost_target ::
    "speedup_settings \<Rightarrow> fee_settings \<Rightarrow> block_height \<Rightarrow> coordinated_tx list
      \<Rightarrow> (coordinated_tx \<times> speedup_context \<times> bool) option" where
  "boost_target settings fees current_height all_speedups =
     (if \<exists>t \<in> set all_speedups. ct_state t = ToDispatch then None
      else case find (\<lambda>t. ct_state t = InMempool \<and> \<not> has_live_replacement t all_speedups)
                  (rev all_speedups) of
        None \<Rightarrow> None
      | Some tip \<Rightarrow>
          (case ct_broadcast_block_height tip of
             None \<Rightarrow> None
           | Some broadcast_height \<Rightarrow>
               if saturating_sub current_height broadcast_height < min_blocks_before_resend_speedup settings
               then None
               else if max_feerate_sat_vb fees \<le> fi_package_fee_rate (ct_fee_info tip) then None
               else case ct_kind tip of
                 Speedup k \<Rightarrow>
                   Some (tip, context_of k,
                     max_unconfirmed_speedups settings \<le>
                       word_of_nat (length (filter (\<lambda>t. is_live_in_mempool t all_speedups) all_speedups)))
               | _ \<Rightarrow> None))"

definition mark_at_cap :: "txid \<Rightarrow> u64 \<Rightarrow> store \<Rightarrow> store" where
  "mark_at_cap txid max_rate s =
     (case get_tx_by_id txid s of
        Some p \<Rightarrow> update_tx (p\<lparr>ct_fee_info := (ct_fee_info p)\<lparr>fi_package_fee_rate := max_rate\<rparr>\<rparr>) s
      | None \<Rightarrow> s)"

text \<open>Persisting a boost that was built.\<close>

definition save_boost ::
    "'e engine_context \<Rightarrow> block_height \<Rightarrow> coordinated_tx \<Rightarrow> speedup_context \<Rightarrow> bool \<Rightarrow> f64
      \<Rightarrow> (speedup_data \<times> u64) list \<Rightarrow> speedup_build_result \<Rightarrow> ('e, unit) world_prog" where
  "save_boost cx current_height tip last_context use_rbf next_bump parent_entries r =
     (let context = make_speedup_context (br_funding_inputs r) next_bump parent_entries;
          inherited = (if use_rbf then length (sc_funding_inputs last_context) else 0);
          fee_info = fee_info_for_paid_speedup (br_tx r) (br_fee r) (sum_list (map snd parent_entries))
      in pbind (if use_rbf
                then pbind (plift (slice_from inherited (br_funding_inputs r))) (\<lambda>new_inputs.
                     pret (RBF (ct_txid tip) new_inputs context))
                else pret (CPFP [ct_txid tip] context)) (\<lambda>kind.
         pseq (save_speedup cx (br_tx r) fee_info kind current_height)
         (if br_capped r
          then pseq (on_store (pmodify (note_news (MaxFeeRateReached (tx_compute_txid (br_tx r))
                       (fi_package_fee_rate fee_info) (ctx_for_kind kind)))))
               (if use_rbf
                then on_store (pmodify (mark_at_cap (ct_txid tip)
                       (max_feerate_sat_vb (bs_fee (cx_settings cx)))))
                else pret ())
          else pret ())))"

definition boost_if_stale :: "'e engine_context \<Rightarrow> bool \<Rightarrow> ('e, unit) world_prog" where
  "boost_if_stale cx skip_boost =
     (if skip_boost then pret ()
      else pbind (monitor_height cx) (\<lambda>current_height.
       pbind (on_store (pget get_speedups_ordered)) (\<lambda>all_speedups.
       case boost_target (bs_speedup (cx_settings cx)) (bs_fee (cx_settings cx))
              current_height all_speedups of
         None \<Rightarrow> pret ()
       | Some (tip, last_context, use_rbf) \<Rightarrow>
           let parent_entries = (if use_rbf then map (\<lambda>(sd, _, vs). (sd, vs)) (sc_parent_data last_context)
                                 else []);
               rbf_initial_inputs = (if use_rbf then Some (sc_funding_inputs last_context) else None);
               next_bump = f64_mul (sc_bump_fee_used last_context)
                             (bump_fee_percentage (bs_speedup (cx_settings cx)))
           in pbind (network_fee_rate_noted cx) (\<lambda>network_rate.
              let fee_rate = boost_fee_rate network_rate (fi_package_fee_rate (ct_fee_info tip));
                  unconfirmed = filter (\<lambda>t. is_live_in_mempool t all_speedups) all_speedups;
                  (chain_diff_fee, _) = chain_fee_diff fee_rate unconfirmed
              in pbind (build_speedup cx parent_entries rbf_initial_inputs next_bump fee_rate chain_diff_fee)
                 (\<lambda>built. case built of
                    None \<Rightarrow> pret ()
                  | Some r \<Rightarrow> save_boost cx current_height tip last_context use_rbf next_bump
                                parent_entries r)))))"

section \<open>CPFPs\<close>

definition parent_entries_of :: "coordinated_tx list \<Rightarrow> (speedup_data \<times> u64) list" where
  "parent_entries_of batch =
     List.map_filter (\<lambda>p. case ct_kind p of
         NeedsSpeedup sd \<Rightarrow> Some (sd, tx_vsize (ct_tx p)) | _ \<Rightarrow> None) batch"

text \<open>Persisting a CPFP that was built.\<close>

definition save_cpfp ::
    "'e engine_context \<Rightarrow> coordinated_tx list \<Rightarrow> (speedup_data \<times> u64) list \<Rightarrow> f64
      \<Rightarrow> speedup_build_result \<Rightarrow> ('e, unit) world_prog" where
  "save_cpfp cx batch parent_entries bump_fee r =
     (let parent_txids = map ct_txid batch;
          context = make_speedup_context (br_funding_inputs r) bump_fee parent_entries;
          fee_info = fee_info_for_paid_speedup (br_tx r) (br_fee r) (sum_list (map snd parent_entries));
          kind = CPFP parent_txids context
      in pseq (on_store (pmodify (fold remove_pending_speedup_parent parent_txids)))
        (pseq (if br_capped r
               then on_store (pmodify (note_news (MaxFeeRateReached (tx_compute_txid (br_tx r))
                       (fi_package_fee_rate fee_info) (ctx_for_kind kind))))
               else pret ())
         (pbind (monitor_height cx) (\<lambda>current_height.
          save_speedup cx (br_tx r) fee_info kind current_height))))"

definition create_cpfp_batch :: "'e engine_context \<Rightarrow> ('e, unit) world_prog" where
  "create_cpfp_batch cx =
     pbind (on_store (pstep get_pending_speedup_parents)) (\<lambda>parents.
     if parents = [] then pret ()
     else pbind (on_store (pget get_speedups_ordered)) (\<lambda>all_speedups.
       if \<exists>t \<in> set all_speedups. ct_state t = ToDispatch then pret ()
       else let unconfirmed = filter (\<lambda>t. is_live_in_mempool t all_speedups) all_speedups;
                available_slots = saturating_sub (max_unconfirmed_speedups (bs_speedup (cx_settings cx)))
                                    (word_of_nat (length unconfirmed))
            in if available_slots = 0 then pret ()
               else pbind (network_fee_rate_noted cx) (\<lambda>fee_rate.
                 let (chain_diff_fee, _) = chain_fee_diff fee_rate unconfirmed;
                     bump_fee = base_fee_multiplier (bs_fee (cx_settings cx));
                     batches = batch_by_weight (bs_dispatcher (cx_settings cx)) parents 1
                 in if batches = [] then pret ()
                    else let batch = last batches;
                             parent_entries = parent_entries_of batch
                         in if parent_entries = [] then pret ()
                            else pbind (build_speedup cx parent_entries None bump_fee fee_rate chain_diff_fee)
                              (\<lambda>built. case built of
                                 None \<Rightarrow> pret ()
                               | Some r \<Rightarrow> save_cpfp cx batch parent_entries bump_fee r))))"

end
