(* ===== verification/Build_Facts.thy ===== *)
theory Build_Facts
  imports Speedup_Engine Engine_Facts
begin

text \<open>
  What \<open>build_speedup\<close> returns. The loop is characterized once, by \<open>build_loop_outcome\<close>: for every
  property of inputs and state that the calls of its body keep, it ends in an error of the builder,
  in giving up, or in a transaction that was built for the fee and the inputs it reports.
\<close>

section \<open>How the loop ends\<close>

definition args_data :: "build_args \<Rightarrow> speedup_data list" where
  "args_data a = map fst (ba_parent_entries a)"

definition fee_for :: "'e engine_context \<Rightarrow> build_args \<Rightarrow> u64 \<Rightarrow> u64 \<times> bool" where
  "fee_for cx a vsize = compute_speedup_fee (bs_fee (cx_settings cx)) (map snd (ba_parent_entries a)) vsize
     (ba_bump_fee a) (ba_fee_rate a) (ba_is_rbf a) (ba_chain_diff_fee a)"

definition input_total :: "utxo list \<Rightarrow> u64" where
  "input_total ins = sum_list (map u_amount ins)"

text \<open>One round: with the size to pay for and the fee of the round.\<close>

lemma build_loop_round:
  assumes "build_tx cx (args_data a) ins 1 w = (Inr dummy, w1)"
    and "vsize = (if v = 0 then tx_vsize dummy else v)" and "fee_for cx a vsize = (fee, capped)"
  shows "build_loop cx a ins v w =
    (if saturating_sub (input_total ins) fee < cx_max_dust_limit cx then
       (if length ins = 1 \<and> ba_primary_is_speedup a then
          (case get_combine_funding coordinator_funding_storage (w_store w1) of
             (Some extra, s) \<Rightarrow> build_loop cx a (ins @ [extra]) 0 (w1\<lparr>w_store := s\<rparr>)
           | (None, s) \<Rightarrow> give_up cx a ins (input_total ins) fee (w1\<lparr>w_store := s\<rparr>))
        else give_up cx a ins (input_total ins) fee w1)
     else case build_tx cx (args_data a) ins fee w1 of
       (Inl e, w2) \<Rightarrow> (Inl e, w2)
     | (Inr final_tx, w2) \<Rightarrow>
         if tx_vsize final_tx \<le> vsize
         then (Inr (Some \<lparr>br_tx = final_tx, br_fee = fee, br_capped = capped, br_funding_inputs = ins\<rparr>), w2)
         else build_loop cx a ins (tx_vsize final_tx) w2)"
  using assms(1,3) unfolding args_data_def fee_for_def input_total_def assms(2)
  by (simp add: build_loop.simps [of cx a ins v w] Let_def split del: if_split cong: if_cong)

definition combine_step :: "utxo list \<Rightarrow> 'e world \<Rightarrow> utxo \<Rightarrow> 'e world \<Rightarrow> bool" where
  "combine_step ins w extra w' \<longleftrightarrow> length ins = 1
     \<and> (\<exists>s. get_combine_funding coordinator_funding_storage (w_store w) = (Some extra, s) \<and> w' = w\<lparr>w_store := s\<rparr>)"

definition build_outcome :: "'e engine_context \<Rightarrow> build_args \<Rightarrow> utxo list \<Rightarrow> 'e world
    \<Rightarrow> failure + speedup_build_result option \<Rightarrow> 'e world \<Rightarrow> bool" where
  "build_outcome cx a ins w r w' \<longleftrightarrow>
     (\<exists>f e. build_tx cx (args_data a) ins f w = (Inl e, w') \<and> r = Inl e)
   \<or> (\<exists>fee. saturating_sub (input_total ins) fee < cx_max_dust_limit cx
        \<and> give_up cx a ins (input_total ins) fee w = (r, w'))
   \<or> (\<exists>b vsize. r = Inr (Some b) \<and> br_funding_inputs b = ins
        \<and> build_tx cx (args_data a) ins (br_fee b) w = (Inr (br_tx b), w')
        \<and> cx_max_dust_limit cx \<le> saturating_sub (input_total ins) (br_fee b)
        \<and> tx_vsize (br_tx b) \<le> vsize \<and> fee_for cx a vsize = (br_fee b, br_capped b))"

lemma get_combine_None: "get_combine_funding fs s = (None, s') \<Longrightarrow> s' = s"
  by (auto simp: get_combine_funding_def split: option.splits)

lemma build_loop_outcome:
  assumes tx: "\<And>ins f w r w'. J ins w \<Longrightarrow> build_tx cx (args_data a) ins f w = (r, w') \<Longrightarrow> J ins w'"
    and combine: "\<And>ins w extra w'. J ins w \<Longrightarrow> combine_step ins w extra w' \<Longrightarrow> J (ins @ [extra]) w'"
    and start: "J ins w" and run: "build_loop cx a ins v w = (r, w')"
  shows "\<exists>ins' w1. J ins' w1 \<and> build_outcome cx a ins' w1 r w'"
  using start run
proof (induction "(if length ins = 1 then (1::nat) else 0, 2 ^ 64 - unat v)" arbitrary: ins v w
    rule: wf_induct_rule [OF wf_lex_prod [OF wf_less_than wf_less_than]])
  case 1
  note IH = "1.hyps" and J = "1.prems"(1) and eq = "1.prems"(2)
  obtain r1 w1 where b1: "build_tx cx (args_data a) ins 1 w = (r1, w1)" by fastforce
  note J1 = tx [OF J b1]
  show ?case
  proof (cases r1)
    case (Inl e)
    then have "r = Inl e" "w' = w1" using eq b1
      by (simp_all add: build_loop.simps [of cx a ins v w] args_data_def)
    then show ?thesis using J b1 Inl by (auto simp: build_outcome_def)
  next
    case (Inr dummy)
    define vsize where "vsize = (if v = 0 then tx_vsize dummy else v)"
    obtain fee capped where fee: "fee_for cx a vsize = (fee, capped)" by fastforce
    note round = build_loop_round [OF b1 [unfolded Inr] vsize_def fee]
    have give: ?thesis if "saturating_sub (input_total ins) fee < cx_max_dust_limit cx"
        "give_up cx a ins (input_total ins) fee w1 = (r, w')"
      using that J1 by (auto simp: build_outcome_def)
    show ?thesis
    proof (cases "saturating_sub (input_total ins) fee < cx_max_dust_limit cx")
      case low: True
      obtain c s where c: "get_combine_funding coordinator_funding_storage (w_store w1) = (c, s)" by fastforce
      show ?thesis
      proof (cases "length ins = 1 \<and> ba_primary_is_speedup a \<and> c \<noteq> None")
        case True
        then obtain extra where extra: "c = Some extra" by blast
        have "combine_step ins w1 extra (w1\<lparr>w_store := s\<rparr>)" using True c extra by (simp add: combine_step_def)
        then show ?thesis
          using IH [of "ins @ [extra]" 0, OF _ combine [OF J1]] eq round low True c extra by simp
      next
        case False
        have "w1\<lparr>w_store := s\<rparr> = w1" if "c = None"
          using get_combine_None [of coordinator_funding_storage "w_store w1" s] c that by simp
        then show ?thesis using False eq round low c give by (auto split: if_splits option.splits)
      qed
    next
      case False
      obtain r2 w2 where b2: "build_tx cx (args_data a) ins fee w1 = (r2, w2)" by fastforce
      show ?thesis
      proof (cases r2)
        case (Inl e)
        then have "build_outcome cx a ins w1 r w'" using eq round False b2 by (auto simp: build_outcome_def)
        then show ?thesis using J1 by blast
      next
        case (Inr final)
        show ?thesis
        proof (cases "tx_vsize final \<le> vsize")
          case True
          then show ?thesis using eq round False b2 J1 Inr fee
            by (intro exI [of _ ins] exI [of _ w1]) (auto simp: build_outcome_def not_less)
        next
          case grow: False
          then have "unat v < unat (tx_vsize final)"
            by (auto simp: vsize_def word_less_nat_alt not_le split: if_splits)
          moreover have "unat (tx_vsize final) < 2 ^ 64" using unsigned_less [of "tx_vsize final"] by simp
          ultimately show ?thesis
            using IH [of ins "tx_vsize final", OF _ tx [OF J1 b2]] eq round False b2 Inr grow by simp
        qed
      qed
    qed
  qed
qed

section \<open>Reservations of a build\<close>

text \<open>Marking a queued record does not disturb the mark of another output.\<close>

lemma set_spent_commute:
  assumes "st_funding s op = Some r" "op' \<noteq> op"
  shows "set_spent op' b (set_spent op c s) = set_spent op c (set_spent op' b s)"
proof -
  have op: "set_spent op c q = q\<lparr>st_funding := (st_funding q)(op \<mapsto> r\<lparr>fd_spent := c\<rparr>)\<rparr>"
    if "st_funding q op = Some r" for q
    using that by (cases rule: set_spent_cases [of q op c]) auto
  let ?s = "s\<lparr>st_funding := (st_funding s)(op \<mapsto> r\<lparr>fd_spent := c\<rparr>)\<rparr>"
  have keep: "st_funding (set_spent op' b s) op = Some r"
    using assms by (auto simp: set_spent_queue split: option.split)
  have "set_spent op' b ?s = (set_spent op' b s)\<lparr>st_funding := (st_funding (set_spent op' b s))(op \<mapsto> r\<lparr>fd_spent := c\<rparr>)\<rparr>"
    using assms(2)
    by (auto simp: set_spent_def get_funding_record_def put_funding_record_def get_tx_by_id_def update_tx_def
        fun_upd_twist split: option.split tx_kind.split)
  then show ?thesis using op [OF assms(1)] op [OF keep] by simp
qed

lemma release_marks_append:
  "release_marks fs (us @ vs) s = release_marks fs vs (release_marks fs us s)"
  by (simp add: release_marks_def)

lemma release_marks_other:
  assumes "st_funding s op = Some r" "op \<notin> utxo_outpoint ` set us"
  shows "release_marks coordinator_funding_storage us (set_spent op True s)
      = set_spent op True (release_marks coordinator_funding_storage us s)
    \<and> st_funding (release_marks coordinator_funding_storage us s) op = Some r"
  using assms
proof (induction us arbitrary: s)
  case (Cons u us)
  let ?s = "set_spent (utxo_outpoint u) False s"
  have "st_funding ?s op = Some r" using Cons.prems by (auto simp: set_spent_queue split: option.split)
  moreover have "set_spent (utxo_outpoint u) False (set_spent op True s) = set_spent op True ?s"
    using Cons.prems by (intro set_spent_commute) auto
  ultimately show ?case using Cons.IH [of ?s] Cons.prems(2)
    by (simp add: release_marks_def coordinator_funding_storage_def)
qed (simp add: release_marks_def)

text \<open>What a second input takes is given back with the rest.\<close>

lemma combine_restores:
  assumes "queue_ok s" "get_combine_funding coordinator_funding_storage s = (Some u, s')"
    and "release_marks coordinator_funding_storage us s = s0"
    and "\<forall>v \<in> set us. \<not> free_output s (utxo_outpoint v)"
  shows "release_marks coordinator_funding_storage (us @ [u]) s' = s0"
    and "\<forall>v \<in> set (us @ [u]). \<not> free_output s' (utxo_outpoint v)"
proof -
  obtain r where r: "find (\<lambda>r. \<not> (fd_from_speedup r \<or> fd_spent r)) (read_funding_records s) = Some r" "u = fd_utxo r"
      "s' = set_spent (utxo_outpoint u) True s"
    using assms(2) by (auto simp: get_combine_funding_def coordinator_funding_storage_def split: option.splits)
  then have m: "r \<in> set (read_funding_records s)" "\<not> fd_spent r" by (auto simp: find_Some_iff)
  then obtain op where "st_funding s op = Some r" by (auto simp: read_funding_records_def mem_map_filter)
  with queue_okD [OF assms(1) this] r(2) have op: "st_funding s (utxo_outpoint u) = Some r" by simp
  have ne: "utxo_outpoint u \<notin> utxo_outpoint ` set us"
    using assms(4) op m(2) by (force simp: free_output_def)
  have s0: "st_funding s0 (utxo_outpoint u) = Some r" using release_marks_other [OF op ne] assms(3) by simp
  have "r\<lparr>fd_spent := False\<rparr> = r" using m(2) by simp
  then have "set_spent (utxo_outpoint u) False (set_spent (utxo_outpoint u) True s0) = s0"
    using s0 m(2) by (simp add: set_spent_def get_funding_record_def put_funding_record_def fun_upd_idem)
  then show "release_marks coordinator_funding_storage (us @ [u]) s' = s0"
    using release_marks_other [OF op ne] assms(3) r(3)
    by (simp add: release_marks_append) (simp add: release_marks_def coordinator_funding_storage_def)
  show "\<forall>v \<in> set (us @ [u]). \<not> free_output s' (utxo_outpoint v)"
  proof
    fix v assume "v \<in> set (us @ [u])"
    then consider "v = u" | "v \<in> set us" by auto
    then show "\<not> free_output s' (utxo_outpoint v)"
    proof cases
      case 1
      then show ?thesis using op m(2)
        by (simp add: r(3) free_output_def set_spent_queue)
    next
      case 2
      then have "utxo_outpoint v \<noteq> utxo_outpoint u" using ne by (metis image_eqI)
      moreover have "st_txs s' = st_txs s"
        using op m(2) by (simp add: r(3) set_spent_def get_funding_record_def put_funding_record_def)
      ultimately show ?thesis using assms(4) 2 op
        by (auto simp: r(3) free_output_def set_spent_queue split: option.splits)
    qed
  qed
qed

section \<open>A built speedup, and giving up\<close>

lemma build_tx_store: "build_tx cx sds ins fee w = (r, w') \<Longrightarrow> w_store w' = w_store w"
  by (auto simp: build_tx_def prog_simps split: list.splits)

lemma give_up_run:
  assumes "give_up cx a ins available fee w = (r, w')" "ba_inherited_count a \<le> length ins"
  shows "r = Inr None" and "w_store w' = note_news (InsufficientFunds available (fee + cx_max_dust_limit cx))
    (release_marks coordinator_funding_storage (drop (ba_inherited_count a) ins) (w_store w))"
  using assms by (auto simp: give_up_def slice_from_def prog_simps emit_insufficient_funds_def)

lemma give_up_none: "give_up cx a ins available fee w = (Inr r, w') \<Longrightarrow> r = None"
  by (auto simp: give_up_def slice_from_def prog_simps split: if_splits)

text \<open>The inputs a build starts with: the inherited ones, or the one it reserves.\<close>

definition build_start ::
    "(speedup_data \<times> u64) list \<Rightarrow> utxo list option \<Rightarrow> f64 \<Rightarrow> u64 \<Rightarrow> u64 \<Rightarrow> store \<Rightarrow> utxo list \<Rightarrow> build_args \<Rightarrow> store \<Rightarrow> bool" where
  "build_start entries inherited bump rate diff s ins a s' \<longleftrightarrow>
     args_data a = map fst entries \<and> map snd (ba_parent_entries a) = map snd entries
   \<and> ba_bump_fee a = bump \<and> ba_fee_rate a = rate \<and> ba_is_rbf a = (inherited \<noteq> None) \<and> ba_chain_diff_fee a = diff
   \<and> (case inherited of
        Some xs \<Rightarrow> ins = xs \<and> ba_inherited_count a = length xs \<and> s' = s
      | None \<Rightarrow> ba_inherited_count a = 0 \<and> (\<exists>u b. ins = [u]
          \<and> get_funding coordinator_funding_storage (get_speedups_ordered s) s = (Inr (Some (u, b)), s')))"

lemma build_speedup_run:
  assumes "build_speedup cx entries inherited bump rate diff w = (Inr r, w')"
  shows "inherited = None \<and> r = None
      \<and> (\<exists>s'. get_funding coordinator_funding_storage (get_speedups_ordered (w_store w)) (w_store w) = (Inr None, s')
           \<and> w_store w' = note_news FundingNotAvailable s')
    \<or> (\<exists>ins a s'. build_start entries inherited bump rate diff (w_store w) ins a s'
         \<and> build_loop cx a ins 0 (w\<lparr>w_store := s'\<rparr>) = (Inr r, w'))"
proof (cases inherited)
  case (Some xs)
  let ?a = "\<lparr>ba_parent_entries = entries, ba_bump_fee = bump, ba_fee_rate = rate, ba_is_rbf = True,
             ba_chain_diff_fee = diff, ba_inherited_count = length xs, ba_primary_is_speedup =
               (case xs of fi # _ \<Rightarrow> is_speedup_derived (utxo_outpoint fi) (w_store w) | [] \<Rightarrow> False)\<rparr>"
  have "build_start entries inherited bump rate diff (w_store w) xs ?a (w_store w)"
    using Some by (simp add: build_start_def args_data_def)
  moreover have "build_loop cx ?a xs 0 (w\<lparr>w_store := w_store w\<rparr>) = (Inr r, w')"
    using assms Some by (simp add: build_speedup_def prog_simps)
  ultimately show ?thesis by blast
next
  case None
  obtain f s' where f: "get_funding coordinator_funding_storage (get_speedups_ordered (w_store w)) (w_store w) = (f, s')"
    by fastforce
  show ?thesis
  proof (cases f)
    case (Inl e)
    then show ?thesis using assms None f by (simp add: build_speedup_def prog_simps)
  next
    case (Inr funding)
    show ?thesis
    proof (cases funding)
      case None
      then show ?thesis using assms \<open>inherited = None\<close> f Inr
        by (auto simp: build_speedup_def prog_simps emit_funding_not_available_def)
    next
      case (Some y)
      obtain u b where y: "y = (u, b)" by fastforce
      let ?a = "\<lparr>ba_parent_entries = entries, ba_bump_fee = bump, ba_fee_rate = rate, ba_is_rbf = False,
             ba_chain_diff_fee = diff, ba_inherited_count = 0, ba_primary_is_speedup = b\<rparr>"
      have "build_start entries inherited bump rate diff (w_store w) [u] ?a s'"
        using None f Inr Some y by (simp add: build_start_def args_data_def)
      moreover have "build_loop cx ?a [u] 0 (w\<lparr>w_store := s'\<rparr>) = (Inr r, w')"
        using assms None f Inr Some y by (simp add: build_speedup_def prog_simps)
      ultimately show ?thesis by blast
    qed
  qed
qed

lemma build_loop_empty: "fst (build_loop cx a [] v w) \<noteq> Inr r"
  by (simp add: build_loop.simps [of cx a "[]"] build_tx_def prog_simps)

text \<open>A transaction that was built is one the builder returned.\<close>

definition built_by :: "'e engine_context \<Rightarrow> speedup_build_result option \<Rightarrow> bool" where
  "built_by cx r \<longleftrightarrow> (\<forall>b. r = Some b \<longrightarrow>
     (\<exists>ds us k fee e. fst (sv_speedup_transactions (cx_services cx) ds us k fee e) = Inr (br_tx b)))"

lemma build_tx_by: "build_tx cx ds us fee w = (Inr tx, w') \<Longrightarrow>
    \<exists>k e. fst (sv_speedup_transactions (cx_services cx) ds us k fee e) = Inr tx"
  by (cases us) (auto simp: build_tx_def prog_simps split: sum.splits prod.splits, metis fst_conv)

lemma build_speedup_built:
  assumes "fst (build_speedup cx entries inherited bump rate diff w) = Inr r"
  shows "built_by cx r"
  unfolding built_by_def
proof (intro allI impI)
  fix b assume r: "r = Some b"
  obtain w' where "build_speedup cx entries inherited bump rate diff w = (Inr (Some b), w')"
    using assms r by (metis prod.collapse)
  then obtain ins a s' where run: "build_loop cx a ins 0 (w\<lparr>w_store := s'\<rparr>) = (Inr (Some b), w')"
    using build_speedup_run by blast
  from build_loop_outcome [of "\<lambda>_ _. True", OF _ _ _ run]
  show "\<exists>ds us k fee e. fst (sv_speedup_transactions (cx_services cx) ds us k fee e) = Inr (br_tx b)"
    unfolding build_outcome_def using give_up_none build_tx_by by fastforce
qed

text \<open>
  C14. A speedup that is built is paid for: it was built from exactly the inputs and for exactly the fee
  that are recorded; the fee is the one \<open>compute_speedup_fee\<close> gives for a size that is at least
  the size of the transaction; the inputs cover the fee and leave a change above the dust limit;
  and they are the inherited ones, or one output handed out by \<open>get_funding\<close>, with at most one
  more, which is taken only when there was a single one.
\<close>

theorem build_speedup_paid_for:
  assumes "0 < cx_max_dust_limit cx"
    and "build_speedup cx entries inherited bump rate diff w = (Inr (Some r), w')"
  shows "(\<exists>w1. build_tx cx (map fst entries) (br_funding_inputs r) (br_fee r) w1 = (Inr (br_tx r), w'))
    \<and> (\<exists>vsize. tx_vsize (br_tx r) \<le> vsize \<and> compute_speedup_fee (bs_fee (cx_settings cx)) (map snd entries) vsize
         bump rate (inherited \<noteq> None) diff = (br_fee r, br_capped r))
    \<and> unat (br_fee r) + unat (cx_max_dust_limit cx) \<le> unat (input_total (br_funding_inputs r))
    \<and> (\<exists>start extra. br_funding_inputs r = start @ extra \<and> (extra = [] \<or> length start = 1 \<and> length extra = 1)
         \<and> (case inherited of Some xs \<Rightarrow> start = xs
            | None \<Rightarrow> \<exists>u b s'. start = [u] \<and> get_funding coordinator_funding_storage
                (get_speedups_ordered (w_store w)) (w_store w) = (Inr (Some (u, b)), s')))"
proof -
  obtain ins a s' where start: "build_start entries inherited bump rate diff (w_store w) ins a s'"
      "build_loop cx a ins 0 (w\<lparr>w_store := s'\<rparr>) = (Inr (Some r), w')"
    using build_speedup_run [OF assms(2)] by blast
  define J :: "utxo list \<Rightarrow> 'a world \<Rightarrow> bool" where
    "J xs v \<longleftrightarrow> (\<exists>extra. xs = ins @ extra \<and> (extra = [] \<or> length ins = 1 \<and> length extra = 1))" for xs v
  have "ins \<noteq> []" using start(2) build_loop_empty [of cx a 0 "w\<lparr>w_store := s'\<rparr>"] by (metis fst_conv)
  then have combine: "J (xs @ [u]) v'" if "J xs v" "combine_step xs v u v'" for xs v u v'
    using that by (auto simp: J_def combine_step_def length_Suc_conv)
  have "\<exists>ins' w1. J ins' w1 \<and> build_outcome cx a ins' w1 (Inr (Some r)) w'"
  proof (rule build_loop_outcome [of J cx a, OF _ _ _ start(2)])
    show "J xs v'" if "J xs v" for xs v v' using that by (simp add: J_def)
    show "J ins (w\<lparr>w_store := s'\<rparr>)" by (simp add: J_def)
  qed (rule combine)
  then obtain w1 vsize extra where out: "br_funding_inputs r = ins @ extra" "extra = [] \<or> length ins = 1 \<and> length extra = 1"
      "build_tx cx (args_data a) (br_funding_inputs r) (br_fee r) w1 = (Inr (br_tx r), w')"
      "cx_max_dust_limit cx \<le> saturating_sub (input_total (br_funding_inputs r)) (br_fee r)"
      "tx_vsize (br_tx r) \<le> vsize" "fee_for cx a vsize = (br_fee r, br_capped r)"
    unfolding build_outcome_def J_def using give_up_none by fastforce
  have "unat (br_fee r) + unat (cx_max_dust_limit cx) \<le> unat (input_total (br_funding_inputs r))"
    using out(4) assms(1) by (simp add: word_le_nat_alt word_less_nat_alt unat_saturating_sub)
  with out start(1) show ?thesis unfolding build_start_def fee_for_def
    by (intro conjI) (auto split: option.splits)
qed

text \<open>A node at 10 sat/vB and a funded queue: the CPFP of a parent of 150 vB.\<close>

definition build_world :: "transaction list world" where
  "build_world = demo_world (empty_store\<lparr>st_funding_list := [OutPoint 91 0],
     st_funding := [OutPoint 91 0 \<mapsto> \<lparr>fd_utxo = plain_utxo 91, fd_spent = False, fd_from_speedup = False\<rparr>]\<rparr>)"

definition one_parent :: "(speedup_data \<times> u64) list" where
  "one_parent = [(\<lparr>sd_utxo = None, sd_partial_utxo = Some (2, 1, 1000), sd_rest = 0\<rparr>, 100)]"

lemma one_parent_fee:
  "compute_speedup_fee default_fee_settings (map snd one_parent) 150 (Fin 1) 10 False 0 = (2400, False)"
  "compute_speedup_fee default_fee_settings (map snd one_parent) 150 (Fin 1) 100 False 0 = (24900, False)"
proof -
  have base: "base_speedup_fee 100 150 10 False 0 = 2400" "base_speedup_fee 100 150 100 False 0 = 24900"
    by (simp_all add: base_speedup_fee_def Let_def MIN_RELAY_FEE_RATE_def saturating_sub_def)
  have fin: "u64_of_f64 (f64_ceil (f64_mul (f64_of_u64 2400) (Fin 1))) = 2400"
      "u64_of_f64 (f64_ceil (f64_mul (f64_of_u64 24900) (Fin 1))) = 24900"
    by (rule ceil_mul_one, simp)+
  have cap: "speedup_fee_cap default_fee_settings 100 150 = 249900"
    by (simp add: speedup_fee_cap_def MIN_RELAY_FEE_RATE_def saturating_sub_def saturating_mul_def
      default_fee_settings_def settings_constants)
  show "compute_speedup_fee default_fee_settings (map snd one_parent) 150 (Fin 1) 10 False 0 = (2400, False)"
    "compute_speedup_fee default_fee_settings (map snd one_parent) 150 (Fin 1) 100 False 0 = (24900, False)"
    by (simp_all add: compute_speedup_fee_def Let_def base fin cap one_parent_def)
qed

lemma build_world_funding:
  "get_funding coordinator_funding_storage (get_speedups_ordered (w_store build_world)) (w_store build_world)
    = (Inr (Some (plain_utxo 91, False)), set_spent (OutPoint 91 0) True (w_store build_world))"
  by (simp add: build_world_def demo_world_def get_funding_def prog_simps get_speedups_ordered_def empty_store_def
      List.map_filter_simps coordinator_funding_storage_def read_funding_records_def utxo_outpoint_def plain_utxo_def)

lemma build_world_ok:
  "keyed (w_store build_world)" "queue_ok (w_store build_world)" "tips_not_queued (w_store build_world)"
  by (auto simp: build_world_def demo_world_def keyed_def queue_ok_def tips_not_queued_def empty_store_def
      plain_utxo_def utxo_outpoint_def)

lemma demo_build_tx:
  "build_tx (demo_context (demo_services found)) sds [u] fee w = (Inr (demo_build [u] fee), w)"
  by (simp add: build_tx_def prog_simps demo_context_def demo_services_def)

lemma plain_amount: "u_amount (plain_utxo x) = 20000"
  by (simp add: plain_utxo_def)

theorem build_speedup_paid_for_witness:
  "\<exists>r w'. build_speedup (demo_context (demo_services (\<lambda>x. False))) one_parent None (Fin 1) 10 0 build_world
      = (Inr (Some r), w') \<and> br_fee r = 2400 \<and> br_funding_inputs r = [plain_utxo 91]
    \<and> unat (br_fee r) + 546 \<le> unat (input_total (br_funding_inputs r))"
proof -
  let ?cx = "demo_context (demo_services (\<lambda>x. False))"
  let ?r = "\<lparr>br_tx = demo_build [plain_utxo 91] 2400, br_fee = 2400, br_capped = False,
             br_funding_inputs = [plain_utxo 91]\<rparr>"
  have fees: "bs_fee (cx_settings ?cx) = default_fee_settings" "cx_max_dust_limit ?cx = 546"
    by (simp_all add: demo_context_def default_bitcoin_settings_def)
  have vsize: "tx_vsize (demo_build us f) = 150" for us f by (simp add: demo_build_def)
  have run: "build_speedup ?cx one_parent None (Fin 1) 10 0 build_world
      = (Inr (Some ?r), build_world\<lparr>w_store := set_spent (OutPoint 91 0) True (w_store build_world)\<rparr>)"
    by (simp add: build_speedup_def prog_simps build_world_funding)
      (simp add: build_loop.simps [of _ _ "[plain_utxo 91]"] demo_build_tx vsize fees one_parent_fee Let_def plain_amount
        saturating_sub_def del: One_nat_def)
  have "0 < cx_max_dust_limit ?cx" by (simp add: fees)
  from build_speedup_paid_for [OF this run] run show ?thesis by (auto simp: fees)
qed

text \<open>What a build has reserved so far: releasing its own inputs gives the store it started with.\<close>

definition reserved_from :: "store \<Rightarrow> nat \<Rightarrow> utxo list \<Rightarrow> store \<Rightarrow> bool" where
  "reserved_from s0 inherited xs s \<longleftrightarrow> queue_ok s \<and> inherited \<le> length xs
     \<and> release_marks coordinator_funding_storage (drop inherited xs) s = s0
     \<and> (\<forall>u \<in> set (drop inherited xs). \<not> free_output s (utxo_outpoint u))"

lemma reserved_combine:
  assumes J: "reserved_from s0 n xs s" and c: "get_combine_funding coordinator_funding_storage s = (Some u, t)"
  shows "reserved_from s0 n (xs @ [u]) t"
proof -
  have "queue_ok t" using queue.combine_first_free [OF _ c] queue.ok_set_spent J c
    by (auto simp: reserved_from_def get_combine_funding_def split: option.splits)
  then show ?thesis using combine_restores [OF _ c] J by (auto simp: reserved_from_def)
qed

lemma reserved_start:
  assumes "keyed s" and "queue_ok s" and "tips_not_queued s" and "build_start entries inherited bump rate diff s ins a s'"
  shows "reserved_from s (ba_inherited_count a) ins s'"
proof (cases inherited)
  case (Some xs)
  then show ?thesis using assms(2,4) by (auto simp: reserved_from_def build_start_def release_marks_def)
next
  case None
  then obtain u b where u: "ins = [u]" "ba_inherited_count a = 0"
      "get_funding coordinator_funding_storage (get_speedups_ordered s) s = (Inr (Some (u, b)), s')"
    using assms(4) by (auto simp: build_start_def)
  note picks = get_funding_picks [OF assms(1-3) u(3)]
  then have "queue_ok s'" using queue.ok_set_spent [OF assms(2)] by (simp add: coordinator_funding_storage_def)
  then show ?thesis
    using picks u release_after_reserve [OF assms(1)] set_spent_not_free [OF assms(1)]
    by (simp add: reserved_from_def release_marks_def coordinator_funding_storage_def)
qed

text \<open>
  C18. Giving up leaves no trace but the news: when \<open>build_speedup\<close> returns no transaction, the store is
  the one it started with (every output it had reserved for the speedup, also a second input,
  is free again) plus one piece of news, that no funding is available, or that the inputs do
  not cover the fee and the dust limit. The store is well formed and no change of a listed
  speedup is also queued.
\<close>

theorem build_gives_up_restores:
  assumes "keyed (w_store w)" and "queue_ok (w_store w)" and "tips_not_queued (w_store w)"
    and "build_speedup cx entries inherited bump rate diff w = (Inr None, w')"
  shows "\<exists>n. w_store w' = note_news n (w_store w) \<and> (n = FundingNotAvailable
    \<or> (\<exists>total fee. n = InsufficientFunds total (fee + cx_max_dust_limit cx)
         \<and> saturating_sub total fee < cx_max_dust_limit cx))"
  using build_speedup_run [OF assms(4)]
proof (elim disjE exE conjE)
  fix s' assume "get_funding coordinator_funding_storage (get_speedups_ordered (w_store w)) (w_store w) = (Inr None, s')"
    and s': "w_store w' = note_news FundingNotAvailable s'"
  then have "s' = w_store w" by (auto simp: get_funding_def prog_simps split: sum.splits option.splits)
  then show ?thesis using s' by blast
next
  fix ins a s'
  assume start: "build_start entries inherited bump rate diff (w_store w) ins a s'"
    and run: "build_loop cx a ins 0 (w\<lparr>w_store := s'\<rparr>) = (Inr None, w')"
  define J :: "utxo list \<Rightarrow> 'a world \<Rightarrow> bool" where
    "J xs v \<longleftrightarrow> reserved_from (w_store w) (ba_inherited_count a) xs (w_store v)" for xs v
  have "\<exists>ins' w1. J ins' w1 \<and> build_outcome cx a ins' w1 (Inr None) w'"
  proof (rule build_loop_outcome [of J cx a, OF _ _ _ run])
    show "J xs v'" if "J xs v" "build_tx cx (args_data a) xs f v = (r, v')" for xs f v r v'
      using that build_tx_store [OF that(2)] by (simp add: J_def)
    show "J (xs @ [u]) v'" if "J xs v" "combine_step xs v u v'" for xs v u v'
      using that reserved_combine by (auto simp: J_def combine_step_def)
    show "J ins (w\<lparr>w_store := s'\<rparr>)" using reserved_start [OF assms(1-3) start] by (simp add: J_def)
  qed
  then obtain xs w1 fee where "J xs w1" "saturating_sub (input_total xs) fee < cx_max_dust_limit cx"
      "give_up cx a xs (input_total xs) fee w1 = (Inr None, w')"
    by (auto simp: build_outcome_def)
  then show ?thesis using give_up_run(2) [of cx a xs] by (auto simp: J_def reserved_from_def)
qed

text \<open>At 100 sat/vB the CPFP would cost 24900 sats, and the queue offers 20000.\<close>

theorem build_gives_up_restores_witness:
  "\<exists>w'. build_speedup (demo_context (demo_services (\<lambda>x. False))) one_parent None (Fin 1) 100 0 build_world
      = (Inr None, w') \<and> (\<exists>n. w_store w' = note_news n (w_store build_world))"
proof -
  let ?cx = "demo_context (demo_services (\<lambda>x. False))"
  have fees: "bs_fee (cx_settings ?cx) = default_fee_settings" "cx_max_dust_limit ?cx = 546"
    by (simp_all add: demo_context_def default_bitcoin_settings_def)
  have vsize: "tx_vsize (demo_build us f) = 150" for us f by (simp add: demo_build_def)
  have "fst (build_speedup ?cx one_parent None (Fin 1) 100 0 build_world) = Inr None"
    by (simp add: build_speedup_def prog_simps build_world_funding)
      (simp add: build_loop.simps [of _ _ "[plain_utxo 91]"] demo_build_tx vsize fees one_parent_fee Let_def plain_amount
        saturating_sub_def give_up_def slice_from_def prog_simps del: One_nat_def)
  then obtain w' where run: "build_speedup ?cx one_parent None (Fin 1) 100 0 build_world = (Inr None, w')"
    by (metis prod.collapse)
  show ?thesis using build_gives_up_restores [OF build_world_ok run] run by auto
qed

end
