(* ===== verification/Tx_Engine.thy ===== *)
theory Tx_Engine
  imports Engine
begin

text \<open>
  \<open>TransactionEngine\<close> of \<open>src/engines/transaction_engine.rs\<close>: the review of the
  transactions in flight that are not speedups, and the dispatch of those that are due.
\<close>

definition review_transaction ::
    "'e engine_context \<Rightarrow> block_height \<Rightarrow> coordinated_tx \<Rightarrow> ('e, unit) world_prog" where
  "review_transaction cx current_height t =
     (let max_confs = max_monitoring_confirmations (cx_settings cx) in
      pbind (call_monitor (sv_get_tx_status (cx_services cx) (ct_txid t)
               (ct_broadcast_block_height t \<noteq> None))) (\<lambda>status.
      if is_in_mempool status then
        (if ct_state t = Confirmed then on_store (pmodify (mark_reorg t current_height))
         else if is_stuck_in_mempool t current_height
         then on_store (pmodify (note_news (TransactionStuckInMempool (ct_txid t) (ct_context t))))
         else pret ())
      else if is_not_found status
      then on_store (pmodify (requeue_not_found (ct_txid t) (current_height + max_confs)))
      else if is_finalized status max_confs
      then on_store (mark_finalized (ct_txid t) current_height)
      else if is_confirmed status then on_store (mark_confirmed (ct_txid t))
      else if is_orphan status then on_store (mark_orphan (ct_txid t))
      else pret ()))"

definition review_transactions ::
    "'e engine_context \<Rightarrow> coordinated_tx list \<Rightarrow> block_height \<Rightarrow> ('e, unit) world_prog" where
  "review_transactions cx txs current_height = pfor txs (review_transaction cx current_height)"

definition review_active :: "'e engine_context \<Rightarrow> ('e, unit) world_prog" where
  "review_active cx =
     pbind (monitor_height cx) (\<lambda>current_height.
     pseq (on_store (pmodify (evict_stale_txs (bs_storage (cx_settings cx)) (cx_scan cx) current_height)))
     (pbind (on_store (pget (get_active_txs (cx_scan cx)))) (\<lambda>active_txs.
      if active_txs = [] then pret ()
      else let to_review = filter (\<lambda>t. \<not> is_speedup t \<and> ct_state t \<in> {InMempool, Confirmed}) active_txs
           in if to_review = [] then pret ()
              else review_transactions cx to_review current_height)))"

definition dispatch_batch ::
    "'e engine_context \<Rightarrow> coordinated_tx list \<Rightarrow> block_height \<Rightarrow> ('e, unit) world_prog" where
  "dispatch_batch cx to_send current_height =
     pbind (network_fee_rate_noted cx) (\<lambda>fee_rate.
     pbind (apply_retry_rate_limit cx to_send) (\<lambda>txs.
     pbind (run_dispatcher cx txs) (\<lambda>results.
     pfor results (\<lambda>(txid, outcome).
       pbind (plift (find_tx_in_batch txs txid)) (\<lambda>t.
       handle_dispatch_result cx t txid outcome current_height
         (compute_fee_for_tx (ct_tx t) fee_rate))))))"

definition dispatch_pending :: "'e engine_context \<Rightarrow> ('e, unit) world_prog" where
  "dispatch_pending cx =
     pbind (monitor_height cx) (\<lambda>current_height.
     pbind (on_store (pget (get_active_txs (cx_scan cx)))) (\<lambda>active_txs.
     if active_txs = [] then pret ()
     else let to_dispatch = filter (\<lambda>t. \<not> is_speedup t \<and> ct_state t = ToDispatch
                \<and> is_ready_to_dispatch t current_height) active_txs
          in if to_dispatch = [] then pret ()
             else dispatch_batch cx to_dispatch current_height))"

end
