(* ===== verification/Coordinator.thy ===== *)
theory Coordinator
  imports Tx_Engine Speedup_Engine
begin

text \<open>
  \<open>BitcoinCoordinator\<close> of \<open>src/coordinator.rs\<close>: construction, the tick, and the calls of
  the client.
\<close>

section \<open>Construction\<close>

text \<open>
  What \<open>new_with_paths\<close> calls: the constructors of the node client and of the monitor, and
  the node's answer on its transaction index. The context that is built has the parts of \<open>base\<close> that do
  not come from the settings.
\<close>

record 'e connectors =
  cn_new_client :: "('e, unit) ext_prog"
  cn_is_txindex_enabled :: "('e, bool) ext_prog"
  cn_new_monitor :: "u32 \<Rightarrow> ('e, unit) ext_prog"

definition new_with_paths ::
    "'e connectors \<Rightarrow> 'e engine_context \<Rightarrow> u32 \<Rightarrow> bitcoin_settings option
      \<Rightarrow> ('e, failure, 'e engine_context) prog" where
  "new_with_paths cn base monitor_default settings_opt =
     (let settings = unwrap_or settings_opt (default_bitcoin_settings monitor_default) in
      pseq (plift (validate_settings settings))
     (pseq (pmap_err (\<lambda>e. Err (BitcoinClientError e)) (cn_new_client cn))
     (pbind (pmap_err (\<lambda>e. Err (BitcoinClientError e)) (cn_is_txindex_enabled cn)) (\<lambda>enabled.
      if \<not> enabled
      then pthrow (Err (InvalidConfiguration ''the Bitcoin node must run with -txindex=1''))
      else pseq (pmap_err (\<lambda>e. Err (MonitorError e)) (cn_new_monitor cn (max_monitoring_confirmations settings)))
             (pret (base\<lparr>cx_settings := settings\<rparr>))))))"

section \<open>The tick\<close>

definition is_ready :: "'e engine_context \<Rightarrow> ('e, bool) world_prog" where
  "is_ready cx = call_monitor (sv_is_ready (cx_services cx))"

definition tick :: "'e engine_context \<Rightarrow> ('e, unit) world_prog" where
  "tick cx =
     pseq (call_monitor (sv_monitor_tick (cx_services cx)))
    (pbind (is_ready cx) (\<lambda>ready.
     if \<not> ready then pret ()
     else pbind (monitor_height cx) (\<lambda>current_height.
       pseq (on_store (pmodify (cleanup_news current_height)))
      (pseq (review_active cx)
      (pseq (review_speedups cx)
      (pseq (dispatch_pending cx)
      (pbind (dispatch_pending_speedups cx) (\<lambda>boost_failed.
       pseq (boost_if_stale cx boost_failed)
       (create_cpfp_batch cx)))))))))"

section \<open>Registration\<close>

definition register_tx ::
    "'e engine_context \<Rightarrow> transaction \<Rightarrow> tx_kind \<Rightarrow> string \<Rightarrow> block_height option \<Rightarrow> u32 option
      \<Rightarrow> u32 option \<Rightarrow> ('e, unit) world_prog" where
  "register_tx cx tx kind context target_block_height confirmation_trigger stuck_in_mempool_blocks =
     (let txid = tx_compute_txid tx in
      pbind (on_store (pget (get_tx_by_id txid))) (\<lambda>known.
      case known of
        Some _ \<Rightarrow> pret ()
      | None \<Rightarrow>
          pbind (monitor_height cx) (\<lambda>current_height.
          pbind (network_fee_rate cx) (\<lambda>(fee_rate, _).
          pseq (call_monitor (sv_monitor (cx_services cx)
                  (Transactions [txid] context confirmation_trigger) False))
         (pseq (on_store (pmodify (insert_tx
             \<lparr>ct_txid = txid, ct_tx = tx, ct_kind = kind, ct_state = ToDispatch,
              ct_target_block_height = unwrap_or target_block_height current_height,
              ct_confirmation_trigger = confirmation_trigger,
              ct_stuck_in_mempool_blocks = stuck_in_mempool_blocks,
              ct_settled_block_height = None, ct_broadcast_block_height = None,
              ct_fail_guard_until = None, ct_retry_count = 0,
              ct_fee_info = compute_fee_for_tx tx fee_rate, ct_context = context\<rparr>)))
          (case kind of
             NeedsSpeedup _ \<Rightarrow> on_store (pmodify (add_pending_speedup_parent txid))
           | _ \<Rightarrow> pret ()))))))"

definition dispatch_without_speedup ::
    "'e engine_context \<Rightarrow> transaction \<Rightarrow> string \<Rightarrow> u32 option \<Rightarrow> u32 option \<Rightarrow> u32 option
      \<Rightarrow> ('e, unit) world_prog" where
  "dispatch_without_speedup cx tx context target_block_height confirmation_trigger stuck_in_mempool_blocks =
     register_tx cx tx Normal context target_block_height confirmation_trigger stuck_in_mempool_blocks"

definition dispatch_with_speedup ::
    "'e engine_context \<Rightarrow> transaction \<Rightarrow> speedup_data \<Rightarrow> string \<Rightarrow> u32 option \<Rightarrow> u32 option
      \<Rightarrow> ('e, unit) world_prog" where
  "dispatch_with_speedup cx tx data context target_block_height confirmation_trigger =
     register_tx cx tx (NeedsSpeedup data) context target_block_height confirmation_trigger None"

definition dispatch_tx ::
    "'e engine_context \<Rightarrow> transaction \<Rightarrow> speedup_data option \<Rightarrow> string \<Rightarrow> u32 option \<Rightarrow> u32 option
      \<Rightarrow> ('e, unit) world_prog" where
  "dispatch_tx cx tx data context target_block_height confirmation_trigger =
     (case data of
        Some d \<Rightarrow> dispatch_with_speedup cx tx d context target_block_height confirmation_trigger
      | None \<Rightarrow> dispatch_without_speedup cx tx context target_block_height confirmation_trigger None)"

section \<open>Cancellation\<close>

text \<open>Nothing when the transaction may be cancelled, the reason otherwise.\<close>

definition classify_cancel_request :: "txid \<Rightarrow> store \<Rightarrow> string option" where
  "classify_cancel_request txid s =
     (case get_tx_by_id txid s of
        None \<Rightarrow> Some ''tx not found in coordinator storage''
      | Some t \<Rightarrow>
          if is_speedup t then Some ''tx kind is not cancellable (only Normal / NeedsSpeedup)''
          else if ct_state t \<noteq> ToDispatch
          then Some ''tx already dispatched; cancel is only valid in ToDispatch''
          else None)"

definition classify_step :: "txid \<Rightarrow> txid list \<times> store \<Rightarrow> txid list \<times> store" where
  "classify_step txid = (\<lambda>(eligible, s).
     case classify_cancel_request txid s of
       None \<Rightarrow> (eligible @ [txid], s)
     | Some reason \<Rightarrow> (eligible, note_news (InvalidCancel txid reason) s))"

definition cancel_transactions ::
    "'e engine_context \<Rightarrow> txid list \<Rightarrow> string \<Rightarrow> u32 option \<Rightarrow> ('e, unit) world_prog" where
  "cancel_transactions cx txids context confirmation_trigger =
     pbind (on_store (pstep (\<lambda>s. fold classify_step txids ([], s)))) (\<lambda>eligible.
     if eligible = [] then pret ()
     else pseq (on_store (pmodify (fold remove_pending_speedup_parent eligible)))
         (pseq (call_monitor (sv_cancel (cx_services cx)
                  (Transactions eligible context confirmation_trigger)))
          (on_store (pmodify (fold remove_tx eligible)))))"

definition cancel :: "'e engine_context \<Rightarrow> types_to_monitor \<Rightarrow> ('e, unit) world_prog" where
  "cancel cx data =
     (case data of
        Transactions txids context confirmation_trigger \<Rightarrow>
          cancel_transactions cx txids context confirmation_trigger
      | other \<Rightarrow> call_monitor (sv_cancel (cx_services cx) other))"

section \<open>Funding, queries and news\<close>

definition add_funding :: "'e engine_context \<Rightarrow> utxo \<Rightarrow> ('e, unit) world_prog" where
  "add_funding cx u =
     pbind (on_store (pstep (set_funding (bs_funding (cx_settings cx)) coordinator_funding_storage u)))
       (\<lambda>rejected. case rejected of
          Some n \<Rightarrow> on_store (pmodify (note_news n))
        | None \<Rightarrow> pret ())"

definition get_transaction :: "'e engine_context \<Rightarrow> txid \<Rightarrow> ('e, tx_status) world_prog" where
  "get_transaction cx txid = call_monitor (sv_get_tx_status (cx_services cx) txid True)"

text \<open>\<open>str::contains\<close>.\<close>

fun contains :: "string \<Rightarrow> string \<Rightarrow> bool" where
  "contains [] p = (p = [])"
| "contains (c # cs) p = (take (length p) (c # cs) = p \<or> contains cs p)"

definition is_client_news :: "monitor_news \<Rightarrow> bool" where
  "is_client_news n =
     (case n of
        TransactionNews _ context _ \<Rightarrow>
          \<not> contains context CPFP_TRANSACTION_CONTEXT \<and> \<not> contains context RBF_TRANSACTION_CONTEXT
      | _ \<Rightarrow> True)"

definition get_all_news :: "'e engine_context \<Rightarrow> ('e, news) world_prog" where
  "get_all_news cx =
     pbind (call_monitor (sv_get_monitor_news (cx_services cx))) (\<lambda>monitor_news.
     pbind (on_store (pget get_news)) (\<lambda>coordinator_news.
     pret \<lparr>monitor_news_of = filter is_client_news monitor_news,
           coordinator_news_of = coordinator_news\<rparr>))"

definition ack_any_news :: "'e engine_context \<Rightarrow> ack_news \<Rightarrow> ('e, unit) world_prog" where
  "ack_any_news cx a =
     (case a of
        AckMonitor n \<Rightarrow> call_monitor (sv_ack_monitor_news (cx_services cx) n)
      | AckCoordinator n \<Rightarrow>
          pbind (monitor_height cx) (\<lambda>current_height.
          on_store (pmodify (ack_news_item n current_height))))"

definition monitor :: "'e engine_context \<Rightarrow> types_to_monitor \<Rightarrow> ('e, unit) world_prog" where
  "monitor cx data = call_monitor (sv_monitor (cx_services cx) data False)"

end
