(* ===== verification/Store_Records.thy ===== *)
theory Store_Records
  imports Store_Facts
begin

text \<open>
  Properties of the operations of \<open>CoordinatorStorage\<close> on single records, on the set of
  parents that wait for a CPFP, on the news and on eviction.
\<close>

section \<open>Single records\<close>

lemma update_tx_state_terminal:
  "is_terminal st \<Longrightarrow> update_tx_state x st s =
     (Inl (Err (Internal ''settle_tx must be used for terminal states (Finalized/Failed)'')), s)"
  by (simp add: update_tx_state_def update_tx_state_impl_def)

text \<open>What a state change writes, for the heights the two callers pass.\<close>

lemma update_tx_state_impl_run:
  assumes "keyed s" and h: "is_terminal st \<longleftrightarrow> height \<noteq> None"
  shows "fst (update_tx_state_impl x st height s) = Inr ()"
    and "st_txs (snd (update_tx_state_impl x st height s)) =
      (case st_txs s x of
         Some t \<Rightarrow> if can_transition_to (ct_state t) st
                   then (st_txs s)(x \<mapsto> t\<lparr>ct_state := st,
                      ct_settled_block_height := (if is_terminal st then height else ct_settled_block_height t)\<rparr>)
                   else st_txs s
       | None \<Rightarrow> st_txs s)"
  using h keyedD [OF assms(1), of x]
  by (auto simp: update_tx_state_impl_def get_tx_by_id_def update_tx_def split: option.split)

text \<open>A record that may move at most along the lifecycle, and terminal states stay.\<close>

definition record_moves :: "coordinated_tx option \<Rightarrow> coordinated_tx option \<Rightarrow> bool" where
  "record_moves a b \<longleftrightarrow> (case (a, b) of
     (Some t, Some t') \<Rightarrow> can_transition_to\<^sup>*\<^sup>* (ct_state t) (ct_state t')
   | (None, Some t') \<Rightarrow> False
   | _ \<Rightarrow> True)"

definition lifecycle :: "store \<Rightarrow> store \<Rightarrow> bool" where
  "lifecycle s s' \<longleftrightarrow> (keyed s \<longrightarrow> keyed s' \<and> (\<forall>x. record_moves (st_txs s x) (st_txs s' x)))"

lemma record_moves_refl: "record_moves a a"
  by (cases a) (simp_all add: record_moves_def)

lemma record_moves_trans: "record_moves a b \<Longrightarrow> record_moves b c \<Longrightarrow> record_moves a c"
  by (cases a; cases b; cases c) (auto simp: record_moves_def)

interpretation living: step_relation lifecycle
proof
  show "lifecycle s s" for s by (simp add: lifecycle_def record_moves_refl)
  show "lifecycle s u" if "lifecycle s t" "lifecycle t u" for s t u
    using that unfolding lifecycle_def by (blast intro: record_moves_trans)
qed

lemma lifecycle_same_txs: "st_txs s' = st_txs s \<Longrightarrow> lifecycle s s'"
  by (simp add: lifecycle_def keyed_def record_moves_refl)

lemma lifecycle_update:
  assumes "st_txs s x = Some t" "ct_txid t' = ct_txid t" "can_transition_to\<^sup>*\<^sup>* (ct_state t) (ct_state t')"
  shows "lifecycle s (update_tx t' s)"
  unfolding lifecycle_def
proof (intro impI conjI allI)
  assume k: "keyed s"
  then have id: "ct_txid t = x" using keyedD [OF k assms(1)] by simp
  show "keyed (update_tx t' s)" using k by (simp add: keyed_def update_tx_def)
  show "record_moves (st_txs s y) (st_txs (update_tx t' s) y)" for y
    using assms id by (cases "y = x") (simp_all add: update_tx_def record_moves_refl record_moves_def)
qed

lemma lifecycle_remove: "lifecycle s (remove_tx x s)"
  by (auto simp: lifecycle_def keyed_def remove_tx_def remove_speedup_from_list_def record_moves_refl
      record_moves_def split: option.split)

lemma only_fails_lifecycle: "only_fails s s' \<Longrightarrow> lifecycle s s'"
  unfolding lifecycle_def
proof (intro impI conjI allI)
  assume a: "only_fails s s'" "keyed s"
  show "keyed s'" using only_failsD(1) [OF a] .
  show "record_moves (st_txs s x) (st_txs s' x)" for x
    using only_failsD(3) [OF a, of x]
    by (cases "st_txs s x"; cases "st_txs s' x")
      (auto simp: record_moves_def fails_to_def failable_def intro: r_into_rtranclp)
qed

lemma lifecycle_update_impl: "lifecycle s (snd (update_tx_state_impl x st h s))"
proof (cases "st_txs s x")
  case None
  then show ?thesis
    by (auto simp: update_tx_state_impl_def get_tx_by_id_def living.step_refl intro: lifecycle_same_txs)
next
  case (Some t)
  have "lifecycle s (update_tx (t'\<lparr>ct_state := st\<rparr>) s)"
    if "can_transition_to (ct_state t) st" "ct_txid t' = ct_txid t" for t'
    using that Some by (intro lifecycle_update [of _ x t]) auto
  with Some show ?thesis
    by (auto simp: update_tx_state_impl_def get_tx_by_id_def living.step_refl Let_def
        intro: lifecycle_same_txs)
qed

lemma lifecycle_settle: "lifecycle s (snd (settle_tx x st h s))"
  by (simp add: settle_tx_def lifecycle_update_impl living.step_refl)

lemma lifecycle_requeue: "lifecycle s (requeue_not_found x d s)"
  by (auto simp: requeue_not_found_def get_tx_by_id_def split: option.split
      intro: lifecycle_same_txs intro!: lifecycle_update [of s x])

lemma lifecycle_retry: "lifecycle s (mark_as_retry x s)"
  by (auto simp: mark_as_retry_def get_tx_by_id_def split: option.split
      intro: lifecycle_same_txs intro!: lifecycle_update [of s x])

lemma lifecycle_set_spent: "lifecycle s (set_spent op b s)"
  by (rule only_fails_lifecycle [OF only_fails_set_spent])

section \<open>Eviction\<close>

text \<open>
  A settled record is stale when it settled long enough ago and no CPFP that is pending or
  live still needs it.
\<close>

definition stale :: "coordinator_storage_settings \<Rightarrow> block_height \<Rightarrow> store \<Rightarrow> coordinated_tx \<Rightarrow> bool" where
  "stale settings h s t \<longleftrightarrow>
     (\<exists>settled. ct_settled_block_height t = Some settled
        \<and> unat (max_tracking_confirmations settings) \<le> unat h - unat settled)
     \<and> \<not> (is_needs_speedup t \<and> (ct_txid t \<in> set (st_pending_parents s) \<or> ct_txid t \<in> live_covered s))"

lemma evict_one_eq:
  "evict_one settings h (st_pending_parents s) (live_covered s) t s' =
     (if stale settings h s t
      then note_news (TransactionEvicted (ct_txid t) (ct_context t)) (remove_tx (ct_txid t) s') else s')"
  by (auto simp: evict_one_def stale_def word_le_nat_alt unat_saturating_sub split: option.split)

lemma remove_tx_frame [simp]:
  "st_txs (remove_tx x s) = (st_txs s)(x := None)"
  "st_speedup_list (remove_tx x s) = retain_ne x (st_speedup_list s)"
  "st_news (remove_tx x s) = st_news s"
  "st_pending_parents (remove_tx x s) = st_pending_parents s"
  by (simp_all add: remove_tx_def remove_speedup_from_list_def)

lemma note_news_mem: "n \<in> sn_news ` set (st_news (note_news m s)) \<longleftrightarrow> n = m \<or> n \<in> sn_news ` set (st_news s)"
  by (auto simp: note_news_def add_news_def image_iff)

lemma evict_fold:
  "st_txs (fold (evict_one settings h (st_pending_parents s) (live_covered s)) ts s') x =
     (if \<exists>t \<in> set ts. stale settings h s t \<and> ct_txid t = x then None else st_txs s' x)"
  "set (st_speedup_list (fold (evict_one settings h (st_pending_parents s) (live_covered s)) ts s')) =
     set (st_speedup_list s') - {ct_txid t | t. t \<in> set ts \<and> stale settings h s t}"
  "n \<in> sn_news ` set (st_news (fold (evict_one settings h (st_pending_parents s) (live_covered s)) ts s')) \<longleftrightarrow>
     n \<in> sn_news ` set (st_news s')
     \<or> (\<exists>t \<in> set ts. stale settings h s t \<and> n = TransactionEvicted (ct_txid t) (ct_context t))"
  by (induction ts arbitrary: s') (auto simp: evict_one_eq note_news_mem)

lemma mem_get_all_txs:
  assumes "scan_spec scan" "finite (dom (st_txs s))"
  shows "t \<in> set (get_all_txs scan s) \<longleftrightarrow> (\<exists>x. st_txs s x = Some t)"
  using assms by (auto simp: get_all_txs_def mem_map_filter scan_spec_def)

lemma evict_records:
  assumes "scan_spec scan" and "finite (dom (st_txs s))" and "keyed s"
  shows "st_txs (evict_stale_txs settings scan h s) x = (case st_txs s x of
        Some t \<Rightarrow> if is_terminal (ct_state t) \<and> stale settings h s t then None else Some t | None \<Rightarrow> None)"
proof -
  have mem: "t \<in> set (get_settled_txs scan s) \<longleftrightarrow> st_txs s (ct_txid t) = Some t \<and> is_terminal (ct_state t)" for t
    using mem_get_all_txs [OF assms(1,2), of t] keyedD [OF assms(3), of _ t]
    by (auto simp: get_settled_txs_def is_terminal_def)
  have gone: "(\<exists>t \<in> set (get_settled_txs scan s). stale settings h s t \<and> ct_txid t = x) \<longleftrightarrow>
      (\<exists>t. st_txs s x = Some t \<and> is_terminal (ct_state t) \<and> stale settings h s t)"
    unfolding Bex_def mem using keyedD [OF assms(3)] by metis
  show ?thesis unfolding evict_stale_txs_def evict_fold gone by (auto split: option.split)
qed

text \<open>
  C29. Eviction removes exactly the stale records: a record goes when it is \<open>Finalized\<close> or
  \<open>Failed\<close>, settled at least \<open>max_tracking_confirmations\<close> blocks ago, and is not a
  \<open>NeedsSpeedup\<close> parent that still waits for a CPFP or is covered by a speedup that is
  neither failed nor finalized. Every other record is untouched, the evicted ids leave the
  list of speedups, and the operator is told of each of them. This is so for every order in
  which the backend may enumerate the records.
\<close>

theorem evict_stale_txs_exact:
  assumes "scan_spec scan" and "finite (dom (st_txs s))" and "keyed s"
  shows "st_txs (evict_stale_txs settings scan h s) = (\<lambda>x. case st_txs s x of
        Some t \<Rightarrow> if is_terminal (ct_state t) \<and> stale settings h s t then None else Some t | None \<Rightarrow> None)
    \<and> set (st_speedup_list (evict_stale_txs settings scan h s)) = set (st_speedup_list s)
        - {x. st_txs s x \<noteq> None \<and> st_txs (evict_stale_txs settings scan h s) x = None}
    \<and> sn_news ` set (st_news (evict_stale_txs settings scan h s)) = sn_news ` set (st_news s)
        \<union> {TransactionEvicted x (ct_context t) | x t. st_txs s x = Some t
              \<and> st_txs (evict_stale_txs settings scan h s) x = None}"
proof -
  have mem: "t \<in> set (get_settled_txs scan s) \<longleftrightarrow> st_txs s (ct_txid t) = Some t \<and> is_terminal (ct_state t)" for t
    using mem_get_all_txs [OF assms(1,2), of t] keyedD [OF assms(3), of _ t]
    by (auto simp: get_settled_txs_def is_terminal_def)
  have gone: "(\<exists>t \<in> set (get_settled_txs scan s). stale settings h s t \<and> ct_txid t = x) \<longleftrightarrow>
      (\<exists>t. st_txs s x = Some t \<and> is_terminal (ct_state t) \<and> stale settings h s t)" for x
    unfolding Bex_def mem using keyedD [OF assms(3)] by metis
  note txs = evict_records [OF assms, of settings h]
  have lost: "st_txs s x = Some t \<and> st_txs (evict_stale_txs settings scan h s) x = None \<longleftrightarrow>
      st_txs s x = Some t \<and> is_terminal (ct_state t) \<and> stale settings h s t" for x t
    unfolding txs by (auto split: if_splits)
  have ids: "{ct_txid t | t. t \<in> set (get_settled_txs scan s) \<and> stale settings h s t}
      = {x. st_txs s x \<noteq> None \<and> st_txs (evict_stale_txs settings scan h s) x = None}"
  proof (intro set_eqI)
    fix x
    have "x \<in> {ct_txid t | t. t \<in> set (get_settled_txs scan s) \<and> stale settings h s t} \<longleftrightarrow>
        (\<exists>t \<in> set (get_settled_txs scan s). stale settings h s t \<and> ct_txid t = x)" by blast
    then show "x \<in> {ct_txid t | t. t \<in> set (get_settled_txs scan s) \<and> stale settings h s t} \<longleftrightarrow>
        x \<in> {x. st_txs s x \<noteq> None \<and> st_txs (evict_stale_txs settings scan h s) x = None}"
      unfolding gone using lost [of x] by auto
  qed
  have "set (st_speedup_list (evict_stale_txs settings scan h s)) = set (st_speedup_list s)
      - {x. st_txs s x \<noteq> None \<and> st_txs (evict_stale_txs settings scan h s) x = None}"
    unfolding ids [symmetric] by (simp only: evict_stale_txs_def evict_fold)
  moreover have "n \<in> sn_news ` set (st_news (evict_stale_txs settings scan h s)) \<longleftrightarrow>
      n \<in> sn_news ` set (st_news s) \<union> {TransactionEvicted x (ct_context t) | x t. st_txs s x = Some t
              \<and> st_txs (evict_stale_txs settings scan h s) x = None}" for n
  proof -
    have "(\<exists>t \<in> set (get_settled_txs scan s). stale settings h s t \<and> n = TransactionEvicted (ct_txid t) (ct_context t))
      \<longleftrightarrow> (\<exists>x t. n = TransactionEvicted x (ct_context t) \<and> st_txs s x = Some t
              \<and> is_terminal (ct_state t) \<and> stale settings h s t)"
      unfolding Bex_def mem using keyedD [OF assms(3)] by metis
    then show ?thesis unfolding Un_iff mem_Collect_eq lost by (simp only: evict_stale_txs_def evict_fold)
  qed
  ultimately show ?thesis using txs by blast
qed

theorem evict_stale_txs_exact_witness:
  "\<exists>s. tx_state s 5 = Some Finalized \<and> tx_state s 6 = Some Failed
    \<and> tx_state (evict_stale_txs default_storage_settings sorted_scan 120 s) 5 = None
    \<and> tx_state (evict_stale_txs default_storage_settings sorted_scan 120 s) 6 = Some Failed"
proof -
  let ?t = "(plain_record 5 Normal Finalized)\<lparr>ct_settled_block_height := Some 110\<rparr>"
  let ?u = "(plain_record 6 Normal Failed)\<lparr>ct_settled_block_height := Some 111\<rparr>"
  let ?s = "empty_store\<lparr>st_txs := [5 \<mapsto> ?t, 6 \<mapsto> ?u]\<rparr>"
  have k: "keyed ?s" "finite (dom (st_txs ?s))" by (simp_all add: keyed_def plain_record_def)
  have "stale default_storage_settings 120 ?s ?t" "\<not> stale default_storage_settings 120 ?s ?u"
    by (simp_all add: stale_def default_storage_settings_def settings_constants is_needs_speedup_def plain_record_def)
  then show ?thesis
    using evict_stale_txs_exact [OF sorted_scan_spec k(2,1), of default_storage_settings 120]
    by (intro exI [of _ ?s]) (simp add: tx_state_def plain_record_def)
qed

section \<open>Parents that wait for a CPFP\<close>

definition dead_parent :: "store \<Rightarrow> txid \<Rightarrow> bool" where
  "dead_parent s x = (tx_state s x = None \<or> tx_state s x = Some Failed)"

lemma pending_fold:
  assumes "st_txs s' = st_txs s"
  shows "fold pending_step xs (live, s') =
    (live @ filter (\<lambda>t. ct_state t \<in> {InMempool, Confirmed, Finalized}) (List.map_filter (st_txs s) xs),
     s'\<lparr>st_pending_parents := filter (\<lambda>x. \<not> (x \<in> set xs \<and> dead_parent s x)) (st_pending_parents s')\<rparr>)"
  using assms
proof (induction xs arbitrary: live s')
  case Nil
  then show ?case by (simp add: List.map_filter_simps)
next
  case (Cons x xs)
  show ?case
  proof (cases "dead_parent s x")
    case True
    let ?s = "remove_pending_speedup_parent x s'"
    have live: "filter (\<lambda>t. ct_state t \<in> {InMempool, Confirmed, Finalized}) (List.map_filter (st_txs s) (x # xs))
        = filter (\<lambda>t. ct_state t \<in> {InMempool, Confirmed, Finalized}) (List.map_filter (st_txs s) xs)"
      using True by (auto simp: dead_parent_def tx_state_def List.map_filter_simps split: option.split)
    have step: "pending_step x (live, s') = (live, ?s)"
      using True Cons.prems by (auto simp: dead_parent_def tx_state_def pending_step_def get_tx_by_id_def
          split: option.split)
    have pend: "filter (\<lambda>y. \<not> (y \<in> set xs \<and> dead_parent s y)) (st_pending_parents ?s)
        = filter (\<lambda>y. \<not> (y \<in> set (x # xs) \<and> dead_parent s y)) (st_pending_parents s')"
      using True by (auto simp: remove_pending_speedup_parent_def retain_ne_def filter_filter intro!: filter_cong)
    have "st_txs ?s = st_txs s" using Cons.prems by (simp add: remove_pending_speedup_parent_def)
    from Cons.IH [OF this, of live] show ?thesis
      unfolding fold_simps comp_def step pend live
      by (simp add: remove_pending_speedup_parent_def del: filter.simps)
  next
    case False
    then obtain t where t: "st_txs s x = Some t" "ct_state t \<noteq> Failed"
      by (auto simp: dead_parent_def tx_state_def)
    have pend: "filter (\<lambda>y. \<not> (y \<in> set (x # xs) \<and> dead_parent s y)) (st_pending_parents s')
        = filter (\<lambda>y. \<not> (y \<in> set xs \<and> dead_parent s y)) (st_pending_parents s')"
      using False by (auto intro!: filter_cong)
    show ?thesis
      unfolding pend using t Cons.prems Cons.IH [OF Cons.prems]
      by (cases "ct_state t") (simp_all add: pending_step_def get_tx_by_id_def List.map_filter_simps)
  qed
qed

text \<open>
  C35. \<open>get_pending_speedup_parents\<close> returns, in the order of the set, the records that are in
  the mempool, confirmed or finalized, and prunes from the set exactly the parents that
  are gone or have failed. A parent that still waits for its own dispatch is kept and not
  returned, and nothing else of the store changes.
\<close>

theorem get_pending_speedup_parents_exact:
  "get_pending_speedup_parents s =
     (filter (\<lambda>t. ct_state t \<in> {InMempool, Confirmed, Finalized})
        (List.map_filter (st_txs s) (st_pending_parents s)),
      s\<lparr>st_pending_parents := filter (\<lambda>x. \<not> dead_parent s x) (st_pending_parents s)\<rparr>)"
proof -
  have "filter (\<lambda>x. \<not> (x \<in> set (st_pending_parents s) \<and> dead_parent s x)) (st_pending_parents s)
      = filter (\<lambda>x. \<not> dead_parent s x) (st_pending_parents s)" by (rule filter_cong) auto
  then show ?thesis unfolding get_pending_speedup_parents_def by (subst pending_fold [of s s]) simp_all
qed

text \<open>The waiting set is a list without duplicates under every operation on it.\<close>

lemma pending_parents_distinct:
  "distinct (st_pending_parents s) \<Longrightarrow> distinct (st_pending_parents (add_pending_speedup_parent x s))"
  "distinct (st_pending_parents s) \<Longrightarrow> distinct (st_pending_parents (remove_pending_speedup_parent x s))"
  "distinct (st_pending_parents s) \<Longrightarrow> distinct xs
    \<Longrightarrow> distinct (st_pending_parents (prepend_pending_speedup_parents xs s))"
  "distinct (st_pending_parents s) \<Longrightarrow> distinct (st_pending_parents (snd (get_pending_speedup_parents s)))"
proof -
  assume d: "distinct (st_pending_parents s)"
  show "distinct (st_pending_parents (add_pending_speedup_parent x s))"
    "distinct (st_pending_parents (remove_pending_speedup_parent x s))"
    using d by (simp_all add: add_pending_speedup_parent_def remove_pending_speedup_parent_def)
  show "distinct xs \<Longrightarrow> distinct (st_pending_parents (prepend_pending_speedup_parents xs s))"
    using d by (auto simp: prepend_pending_speedup_parents_def Let_def)
  have "snd (get_pending_speedup_parents s) =
      s\<lparr>st_pending_parents := filter (\<lambda>x. \<not> dead_parent s x) (st_pending_parents s)\<rparr>"
  proof -
    have "filter (\<lambda>x. \<not> (x \<in> set (st_pending_parents s) \<and> dead_parent s x)) (st_pending_parents s)
      = filter (\<lambda>x. \<not> dead_parent s x) (st_pending_parents s)" by (rule filter_cong) auto
    then show ?thesis unfolding get_pending_speedup_parents_def by (subst pending_fold [of s s]) simp_all
  qed
  then show "distinct (st_pending_parents (snd (get_pending_speedup_parents s)))" using d by simp
qed

text \<open>
  When a CPFP fails for want of funding, \<open>requeue_protocol_parents\<close> puts back every
  parent of it that is a stored \<open>NeedsSpeedup\<close> record: afterwards the waiting set is those
  of them that were not waiting, in the order of the CPFP, followed by the set as it was.
  Nothing else changes, and a boost or a replacement puts nothing back.
\<close>

lemma requeue_protocol_parents_exact:
  "requeue_protocol_parents t s = s\<lparr>st_pending_parents :=
     (case ct_kind t of
        Speedup (CPFP parents _) \<Rightarrow>
          filter (\<lambda>p. p \<notin> set (st_pending_parents s)
                   \<and> (case st_txs s p of Some r \<Rightarrow> is_needs_speedup r | None \<Rightarrow> False)) parents
      | _ \<Rightarrow> []) @ st_pending_parents s\<rparr>"
  by (auto simp: requeue_protocol_parents_def prepend_pending_speedup_parents_def get_tx_by_id_def
      Let_def filter_filter conj_commute filter_empty_conv
      split: tx_kind.split speedup_kind.split option.split)

section \<open>News\<close>

definition news_distinct :: "store \<Rightarrow> bool" where
  "news_distinct s = distinct (map sn_news (st_news s))"

lemma ack_first_news [simp]: "map sn_news (ack_first n h items) = map sn_news items"
  by (induction items) simp_all

lemma news_distinct_ops:
  assumes "news_distinct s"
  shows "news_distinct (note_news n s)" "news_distinct (ack_news_item n h s)" "news_distinct (cleanup_news h s)"
  using assms
  by (auto simp: news_distinct_def note_news_def add_news_def ack_news_item_def cleanup_news_def
      intro: distinct_map_filter)

lemma ack_first_absent: "n \<notin> sn_news ` set items \<Longrightarrow> ack_first n h items = items"
  by (induction items) auto

lemma ack_first_map:
  assumes "distinct (map sn_news items)"
  shows "ack_first n h items =
    map (\<lambda>i. if sn_acked_at_block i = None \<and> sn_news i = n then i\<lparr>sn_acked_at_block := Some h\<rparr> else i) items"
  using assms
proof (induction items)
  case (Cons i items)
  have "map (\<lambda>i. if sn_acked_at_block i = None \<and> sn_news i = n then i\<lparr>sn_acked_at_block := Some h\<rparr> else i) items
      = items" if "n \<notin> sn_news ` set items"
    using that by (induction items) auto
  then show ?case using Cons by auto
qed simp

definition acked :: "coordinator_news \<Rightarrow> block_height \<Rightarrow> stored_news_item \<Rightarrow> stored_news_item" where
  "acked n h i = (if sn_acked_at_block i = None \<and> sn_news i = n then i\<lparr>sn_acked_at_block := Some h\<rparr> else i)"

definition kept_at :: "block_height \<Rightarrow> stored_news_item \<Rightarrow> bool" where
  "kept_at h i = (case sn_acked_at_block i of None \<Rightarrow> True | Some b \<Rightarrow> h \<le> b)"

lemma acked_news: "news_distinct s \<Longrightarrow> st_news (ack_news_item n h s) = map (acked n h) (st_news s)"
  using ack_first_map by (simp add: ack_news_item_def news_distinct_def acked_def fun_eq_iff)

lemma cleaned_news: "st_news (cleanup_news h s) = filter (kept_at h) (st_news s)"
  by (simp add: cleanup_news_def kept_at_def [abs_def])

lemma seen_acked:
  "map sn_news (filter (\<lambda>i. sn_acked_at_block i = None) (map (acked n h) xs)) =
     filter (\<lambda>m. m \<noteq> n) (map sn_news (filter (\<lambda>i. sn_acked_at_block i = None) xs))"
  by (induction xs) (auto simp: acked_def)

lemma seen_kept: "filter (\<lambda>i. sn_acked_at_block i = None) (filter (kept_at h) xs) = filter (\<lambda>i. sn_acked_at_block i = None) xs"
  by (induction xs) (auto simp: kept_at_def)

lemma acked_item_present:
  assumes "news_distinct s" and "n \<in> set (get_news s)"
  shows "(\<exists>j \<in> set (filter (kept_at h') (map (acked n h) (st_news s))). sn_news j = n) \<longleftrightarrow> h' \<le> h"
proof -
  obtain i where i: "i \<in> set (st_news s)" "sn_news i = n" "sn_acked_at_block i = None"
    using assms(2) by (auto simp: get_news_def)
  then have a: "acked n h i = i\<lparr>sn_acked_at_block := Some h\<rparr>" by (simp add: acked_def)
  show ?thesis
  proof
    assume "h' \<le> h"
    then have "kept_at h' (acked n h i)" "sn_news (acked n h i) = n" using a i(2) by (simp_all add: kept_at_def)
    then show "\<exists>j \<in> set (filter (kept_at h') (map (acked n h) (st_news s))). sn_news j = n"
      using i(1) by (intro bexI [of _ "acked n h i"]) auto
  next
    assume "\<exists>j \<in> set (filter (kept_at h') (map (acked n h) (st_news s))). sn_news j = n"
    then obtain j where j: "j \<in> set (st_news s)" "sn_news (acked n h j) = n" "kept_at h' (acked n h j)" by auto
    then have "sn_news j = n" by (simp add: acked_def split: if_splits)
    then have "j = i" using i j(1) assms(1) by (metis news_distinct_def distinct_map inj_on_def)
    then show "h' \<le> h" using j(3) a by (simp add: kept_at_def)
  qed
qed

text \<open>
  C38. Acknowledged news: an item the operator sees and acknowledges at block \<open>h\<close> disappears from
  the news at once while the others stay in order. Until the cleanup of a strictly later
  block it still suppresses a repetition of itself; after it, the same news is stored and
  seen again. The stored news never hold an item twice, which is the hypothesis.
\<close>

theorem ack_news_suppresses_until_later_block:
  assumes "news_distinct s" and "n \<in> set (get_news s)"
  shows "get_news (ack_news_item n h s) = filter (\<lambda>m. m \<noteq> n) (get_news s)
    \<and> fst (add_news n (cleanup_news h' (ack_news_item n h s))) = (h < h')
    \<and> get_news (snd (add_news n (cleanup_news h' (ack_news_item n h s))))
        = filter (\<lambda>m. m \<noteq> n) (get_news s) @ (if h < h' then [n] else [])"
proof -
  let ?s1 = "ack_news_item n h s"
  let ?s2 = "cleanup_news h' ?s1"
  have s2: "st_news ?s2 = filter (kept_at h') (map (acked n h) (st_news s))"
    unfolding cleaned_news acked_news [OF assms(1)] ..
  have added: "add_news n ?s2 = (if h' \<le> h then (False, ?s2)
      else (True, ?s2\<lparr>st_news := st_news ?s2 @ [\<lparr>sn_news = n, sn_acked_at_block = None\<rparr>]\<rparr>))"
    unfolding add_news_def s2 acked_item_present [OF assms] ..
  have g1: "get_news ?s1 = filter (\<lambda>m. m \<noteq> n) (get_news s)"
    unfolding get_news_def acked_news [OF assms(1)] by (rule seen_acked)
  have g2: "get_news ?s2 = filter (\<lambda>m. m \<noteq> n) (get_news s)"
    unfolding get_news_def s2 seen_kept by (rule seen_acked)
  have "get_news (?s2\<lparr>st_news := st_news ?s2 @ [\<lparr>sn_news = n, sn_acked_at_block = None\<rparr>]\<rparr>) = get_news ?s2 @ [n]"
    by (simp add: get_news_def)
  then show ?thesis unfolding added using g1 g2 by (simp add: not_le [symmetric])
qed

theorem ack_news_suppresses_until_later_block_witness:
  "let s = note_news FundingNotAvailable (note_news (TxNotFound 7) empty_store) in
    get_news s = [TxNotFound 7, FundingNotAvailable]
    \<and> get_news (ack_news_item (TxNotFound 7) 100 s) = [FundingNotAvailable]
    \<and> \<not> fst (add_news (TxNotFound 7) (cleanup_news 100 (ack_news_item (TxNotFound 7) 100 s)))
    \<and> fst (add_news (TxNotFound 7) (cleanup_news 101 (ack_news_item (TxNotFound 7) 100 s)))"
proof -
  let ?s = "note_news FundingNotAvailable (note_news (TxNotFound 7) empty_store)"
  have d: "news_distinct ?s" "get_news ?s = [TxNotFound 7, FundingNotAvailable]"
    by (simp_all add: news_distinct_def note_news_def add_news_def empty_store_def get_news_def)
  have m: "TxNotFound 7 \<in> set (get_news ?s)" by (simp add: d(2))
  show ?thesis
    using ack_news_suppresses_until_later_block [OF d(1) m, of 100 100]
      ack_news_suppresses_until_later_block [OF d(1) m, of 100 101] d(2)
    by (simp add: Let_def)
qed

section \<open>The reorg guard\<close>

text \<open>
  The reorg guard is anchored once: when a live transaction is not found on the chain, then
  retried, and then not found again, the deadline of its fail guard is the one set the
  first time (or the one it already carried), whatever deadline the later call brings; it is
  queued for dispatch and has one more retry.
\<close>

lemma fail_guard_anchored_once:
  assumes "keyed s" and "st_txs s x = Some t" and "\<not> is_terminal (ct_state t)"
  shows "st_txs (requeue_not_found x d2 (mark_as_retry x (requeue_not_found x d1 s))) x =
    Some (t\<lparr>ct_state := ToDispatch, ct_fail_guard_until := Some (unwrap_or (ct_fail_guard_until t) d1),
            ct_retry_count := ct_retry_count t + 1\<rparr>)"
  using assms keyedD [OF assms(1,2)]
  by (simp add: requeue_not_found_def mark_as_retry_def get_tx_by_id_def update_tx_def can_transition_requeue)

end
