(* ===== verification/Record_Invariants.thy ===== *)
theory Record_Invariants
  imports Program_Logic Build_Facts Coordinator Store_Records
begin

text \<open>
  The invariant of the store, \<open>store_ok X\<close>: it is well formed, and every record is sound and has the
  property \<open>X\<close>. It is kept, without a panic, by every operation, for every \<open>X\<close> that survives
  the changes the code makes to a record: the locale \<open>record_property\<close>.
\<close>

section \<open>The invariant\<close>

definition sound :: "coordinated_tx \<Rightarrow> bool" where
  "sound t \<longleftrightarrow> (is_terminal (ct_state t) \<longleftrightarrow> ct_settled_block_height t \<noteq> None)
     \<and> (\<forall>k. ct_kind t = Speedup k \<longrightarrow> sc_funding_inputs (context_of k) \<noteq> [] \<and> distinct (parents_of k))"

definition structured :: "store \<Rightarrow> bool" where
  "structured s \<longleftrightarrow> finite (dom (st_txs s)) \<and> distinct (st_speedup_list s)
     \<and> set (st_speedup_list s) \<subseteq> dom (st_txs s) \<and> distinct (st_pending_parents s)
     \<and> distinct (map sn_news (st_news s)) \<and> queue_ok s"

definition store_ok :: "(coordinated_tx \<Rightarrow> bool) \<Rightarrow> store \<Rightarrow> bool" where
  "store_ok X s \<longleftrightarrow> structured s \<and> (\<forall>x t. st_txs s x = Some t \<longrightarrow> ct_txid t = x \<and> sound t \<and> X t)"

lemma store_okD:
  assumes "store_ok X s"
  shows "structured s" "st_txs s x = Some t \<Longrightarrow> ct_txid t = x" "st_txs s x = Some t \<Longrightarrow> sound t"
    "st_txs s x = Some t \<Longrightarrow> X t"
  using assms by (auto simp: store_ok_def)

lemma store_ok_keyed: "store_ok X s \<Longrightarrow> keyed s"
  by (simp add: store_ok_def keyed_def)

text \<open>The changes the code makes to a record.\<close>

definition evolves :: "coordinated_tx \<Rightarrow> coordinated_tx \<Rightarrow> bool" where
  "evolves t t' \<longleftrightarrow> ct_txid t' = ct_txid t \<and> ct_tx t' = ct_tx t \<and> ct_context t' = ct_context t
     \<and> erase_kind (ct_kind t') = erase_kind (ct_kind t)
     \<and> (is_terminal (ct_state t) \<longrightarrow> ct_state t' = ct_state t)
     \<and> (sound t \<longrightarrow> (is_terminal (ct_state t') \<longleftrightarrow> ct_settled_block_height t' \<noteq> None))"

lemma erase_kind_shape:
  assumes "erase_kind k' = erase_kind k" "k' = Speedup a'"
  obtains a where "k = Speedup a" "sc_funding_inputs (context_of a) = sc_funding_inputs (context_of a')"
    "parents_of a = parents_of a'"
proof (cases k)
  case (Speedup a)
  have "map_context erase_flags a' = map_context erase_flags a" using assms Speedup by simp
  then have "sc_funding_inputs (context_of a) = sc_funding_inputs (context_of a')" "parents_of a = parents_of a'"
    by (cases a; cases a'; auto simp: erase_flags_def dest: arg_cong [of _ _ sc_funding_inputs])+
  with Speedup that show ?thesis by blast
qed (use assms in auto)

lemma sound_evolves: "sound t \<Longrightarrow> evolves t t' \<Longrightarrow> sound t'"
  unfolding sound_def evolves_def
  by (metis erase_kind_shape)

lemma evolves_refl: "evolves t t"
  by (simp add: evolves_def sound_def)

lemma evolves_flags:
  assumes "ct_kind t = Speedup k" "\<And>c. erase_flags (f c) = erase_flags c"
  shows "evolves t (t\<lparr>ct_kind := Speedup (map_context f k)\<rparr>)"
proof -
  have "map_context erase_flags (map_context f k) = map_context erase_flags k"
    by (cases k) (simp_all add: assms(2))
  then show ?thesis using assms(1) by (simp add: evolves_def sound_def)
qed

lemma evolves_update_context:
  "update_context (set_replaced_by r) t = Inr t' \<Longrightarrow> evolves t t'"
  by (auto simp: update_context_Inr intro: evolves_flags)

lemma evolves_kind:
  "evolves t t' \<Longrightarrow> is_speedup t' = is_speedup t"
  unfolding evolves_def is_speedup_def by (cases "ct_kind t"; cases "ct_kind t'") auto

section \<open>Operations on the store\<close>

lemma structured_same:
  assumes "structured s" "dom (st_txs s') = dom (st_txs s)" "st_speedup_list s' = st_speedup_list s"
    "st_pending_parents s' = st_pending_parents s" "st_news s' = st_news s"
    "st_funding s' = st_funding s" "st_funding_list s' = st_funding_list s"
  shows "structured s'"
  using assms unfolding structured_def queue_ok_def by auto

lemma distinct_note_news: "distinct (map sn_news (st_news s)) \<Longrightarrow> distinct (map sn_news (st_news (note_news n s)))"
  by (auto simp: note_news_def add_news_def)

lemma note_news_ok: "store_ok X s \<Longrightarrow> store_ok X (note_news n s)"
  using distinct_note_news [of s n] unfolding store_ok_def structured_def queue_ok_def by simp

lemma update_ok:
  assumes "store_ok X s" "sound t" "X t"
  shows "store_ok X (update_tx t s)"
  using assms unfolding store_ok_def structured_def queue_ok_def by (auto simp: update_tx_def)

lemma insert_ok:
  assumes "store_ok X s" "sound t" "X t"
  shows "store_ok X (insert_tx t s)"
  using update_ok [OF assms] by (simp add: insert_tx_def update_tx_def)

lemma list_change_ok:
  assumes "store_ok X s" "distinct l" "set l \<subseteq> dom (st_txs s)"
  shows "store_ok X (s\<lparr>st_speedup_list := l\<rparr>)"
  using assms unfolding store_ok_def structured_def queue_ok_def by simp

lemma insert_speedup_ok:
  assumes "store_ok X s" "sound t" "X t"
  shows "store_ok X (insert_speedup t s)"
proof -
  have s: "distinct (st_speedup_list s)" "set (st_speedup_list s) \<subseteq> dom (st_txs s)"
    using store_okD(1) [OF assms(1)] by (simp_all add: structured_def)
  show ?thesis
    unfolding insert_speedup_def
    by (rule list_change_ok [OF insert_ok [OF assms]]) (use s in \<open>auto simp: insert_tx_def\<close>)
qed

lemma unlist_ok:
  assumes "store_ok X s"
  shows "store_ok X (remove_speedup_from_list x s)"
  unfolding remove_speedup_from_list_def
  by (rule list_change_ok [OF assms]) (use store_okD(1) [OF assms] in \<open>auto simp: structured_def\<close>)

lemma remove_tx_ok: "store_ok X s \<Longrightarrow> store_ok X (remove_tx x s)"
  unfolding store_ok_def structured_def queue_ok_def
  by (auto simp: remove_tx_def remove_speedup_from_list_def)

lemma pending_ok:
  assumes "store_ok X s" "distinct ps"
  shows "store_ok X (s\<lparr>st_pending_parents := ps\<rparr>)"
  using assms unfolding store_ok_def structured_def queue_ok_def by auto

lemma prepend_ok: "store_ok X s \<Longrightarrow> distinct ps \<Longrightarrow> store_ok X (prepend_pending_speedup_parents ps s)"
  by (auto simp: prepend_pending_speedup_parents_def Let_def dest: store_okD(1)
      intro!: pending_ok simp: structured_def)

lemma queue_change_ok:
  "store_ok X s \<Longrightarrow> queue_ok (s\<lparr>st_funding := f, st_funding_list := l\<rparr>) \<Longrightarrow>
   store_ok X (s\<lparr>st_funding := f, st_funding_list := l\<rparr>)"
  unfolding store_ok_def structured_def by simp

lemma requeue_parents_ok:
  assumes "store_ok X s" "sound t"
  shows "store_ok X (requeue_protocol_parents t s)"
  using assms by (auto simp: requeue_protocol_parents_def sound_def intro!: prepend_ok
      split: tx_kind.split speedup_kind.split)

lemma set_vec_insert: "set (vec_insert i x xs) = insert x (set xs)"
proof -
  have "set (take i xs) \<union> set (drop i xs) = set xs" by (metis append_take_drop_id set_append)
  then show ?thesis by (auto simp: vec_insert_def)
qed

section \<open>Properties of records the code does not lose\<close>

text \<open>
  \<open>X\<close> survives the changes of the records with an id in \<open>M\<close>, among which are all speedups and all
  records that wait for their dispatch. An operation that changes other records needs that \<open>M\<close> holds of every id.
\<close>

locale record_property =
  fixes X :: "coordinated_tx \<Rightarrow> bool" and M :: "txid \<Rightarrow> bool"
  assumes X_evolves: "X t \<Longrightarrow> evolves t t' \<Longrightarrow> M (ct_txid t) \<Longrightarrow> X t'"
    and X_tended: "X t \<Longrightarrow> is_speedup t \<or> ct_state t = ToDispatch \<Longrightarrow> M (ct_txid t)"
begin

lemma evolve_ok:
  assumes "store_ok X s" "st_txs s x = Some t" "evolves t t'" "M x"
  shows "store_ok X (update_tx t' s)"
  using store_okD(2-4) [OF assms(1,2)] assms(3,4)
  by (intro update_ok [OF assms(1)]) (auto intro: sound_evolves X_evolves)

lemma tended_speedup: "store_ok X s \<Longrightarrow> st_txs s x = Some t \<Longrightarrow> is_speedup t \<Longrightarrow> M x"
  using X_tended store_okD by blast

text \<open>Writing back a snapshot of a record.\<close>

lemma write_ok:
  "store_ok X s \<Longrightarrow> sound t \<Longrightarrow> X t \<Longrightarrow> evolves t t' \<Longrightarrow> M (ct_txid t) \<Longrightarrow> store_ok X (update_tx t' s)"
  by (auto intro!: update_ok intro: sound_evolves X_evolves)

lemma state_change_ok:
  assumes s: "store_ok X s" and h: "is_terminal st \<longleftrightarrow> h \<noteq> None" and m: "M x"
  shows "store_ok X (snd (update_tx_state_impl x st h s))"
proof (cases "st_txs s x")
  case None
  then show ?thesis using s by (auto simp: update_tx_state_impl_def get_tx_by_id_def intro: note_news_ok)
next
  case (Some t)
  let ?t = "(if is_terminal st then t\<lparr>ct_settled_block_height := h\<rparr> else t)\<lparr>ct_state := st\<rparr>"
  have "evolves t ?t" if "can_transition_to (ct_state t) st"
    using that h can_transition_terminal [of "ct_state t" st]
    by (auto simp: evolves_def sound_def)
  then show ?thesis using s Some evolve_ok [OF s Some _ m, of ?t]
    by (auto simp: update_tx_state_impl_def get_tx_by_id_def Let_def intro: note_news_ok)
qed

lemma runs_settle: "M x \<Longrightarrow> runs (store_ok X) (settle_tx x st h) (\<lambda>_. True)"
  using state_change_ok [of _ st "Some h" x]
  by (auto simp: runs_def settle_tx_def update_tx_state_impl_def Let_def split: option.split)

lemma runs_update_state: "M x \<Longrightarrow> runs (store_ok X) (update_tx_state x st) (\<lambda>_. True)"
  using state_change_ok [of _ st None x]
  by (auto simp: runs_def update_tx_state_def update_tx_state_impl_def Let_def split: option.split)

lemma requeue_ok: "M x \<Longrightarrow> store_ok X s \<Longrightarrow> store_ok X (requeue_not_found x d s)"
  by (auto simp: requeue_not_found_def get_tx_by_id_def evolves_def sound_def can_transition_requeue
      intro: note_news_ok intro!: evolve_ok split: option.split)

lemma retry_ok: "M x \<Longrightarrow> store_ok X s \<Longrightarrow> store_ok X (mark_as_retry x s)"
  by (auto simp: mark_as_retry_def get_tx_by_id_def evolves_def sound_def can_transition_requeue
      intro: note_news_ok intro!: evolve_ok split: option.split)

lemma set_spent_ok:
  assumes s: "store_ok X s"
  shows "store_ok X (set_spent op b s)"
proof (cases rule: set_spent_cases [of s op b])
  case (funding r)
  have q: "queue_ok s" using store_okD(1) [OF s] by (simp add: structured_def)
  then have "queue_ok (s\<lparr>st_funding := (st_funding s)(op \<mapsto> r\<lparr>fd_spent := b\<rparr>),
      st_funding_list := st_funding_list s\<rparr>)"
    using funding(1) by (auto simp: queue_ok_def)
  then show ?thesis using queue_change_ok [OF s] funding(2) by fastforce
next
  case (flag t k)
  then have "M (op_txid op)" using tended_speedup [OF s flag(2)] by (simp add: is_speedup_iff)
  then show ?thesis using flag evolve_ok [OF s flag(2) evolves_flags [OF flag(3)]] by simp
qed (use s in simp)

lemma release_ok: "store_ok X s \<Longrightarrow> store_ok X (release_marks coordinator_funding_storage us s)"
  unfolding release_marks_def
  by (induction us arbitrary: s) (auto simp: coordinator_funding_storage_def intro: set_spent_ok)

lemma clear_replaced_ok:
  assumes s: "store_ok X s"
  shows "store_ok X (clear_replaced_by x s)"
proof (cases "st_txs s x")
  case (Some t)
  have "store_ok X (update_tx t' s)" if "update_context (set_replaced_by None) t = Inr t'" for t'
    using that Some s
    by (intro evolve_ok [OF s Some evolves_update_context [OF that]] tended_speedup [OF s Some])
      (auto simp: update_context_Inr is_speedup_iff)
  then show ?thesis using Some s by (simp add: clear_replaced_by_def get_tx_by_id_def split: sum.split)
qed (use s in \<open>simp add: clear_replaced_by_def get_tx_by_id_def\<close>)

lemma runs_predecessor: "runs (store_ok X) (mark_predecessor t x) (\<lambda>_. True)"
proof (rule runsI)
  fix s r s'
  assume s: "store_ok X s" and run: "mark_predecessor t x s = (r, s')"
  show "store_ok X s' \<and> (\<forall>x. r = Inr x \<longrightarrow> True) \<and> (\<forall>e. r = Inl e \<longrightarrow> \<not> is_panic e)"
  proof (cases "\<exists>p ins c q. ct_kind t = Speedup (RBF p ins c) \<and> st_txs s p = Some q")
    case False
    then have "s' = s \<and> r = Inr ()" using run
      by (auto simp: mark_predecessor_def prog_simps get_tx_by_id_def split: tx_kind.splits speedup_kind.splits option.splits)
    then show ?thesis using s by simp
  next
    case True
    then obtain p ins c q where q: "ct_kind t = Speedup (RBF p ins c)" "st_txs s p = Some q" by blast
    show ?thesis
    proof (cases "update_context (set_replaced_by (Some x)) q")
      case (Inl e)
      then have "r = Inl e" "s' = s" using run q by (simp_all add: mark_predecessor_def prog_simps get_tx_by_id_def)
      moreover have "\<not> is_panic e" using Inl by (auto simp: update_context_def split: tx_kind.splits)
      ultimately show ?thesis using s by simp
    next
      case (Inr q')
      then have "M p" using tended_speedup [OF s q(2)] by (auto simp: update_context_Inr is_speedup_iff)
      then show ?thesis using Inr run q evolve_ok [OF s q(2) evolves_update_context [OF Inr]]
        by (auto simp: mark_predecessor_def prog_simps get_tx_by_id_def)
    qed
  qed
qed

text \<open>A failed dispatch and its cascade.\<close>

lemma runs_settle_failed_dispatch:
  assumes "sound t" "M (ct_txid t)"
  shows "runs (store_ok X) (settle_failed_dispatch t h fm) (\<lambda>_. True)"
  unfolding settle_failed_dispatch_def mark_parents_unspent_def
  by (auto intro!: runs_seq [OF runs_settle [OF assms(2)]] runs_seq [OF runs_modify [where P = "\<lambda>_. True"]]
      runs_seq [where P = "\<lambda>_. True"] runs_modify runs_if runs_ret runs_bind [OF runs_lift [where P = "\<lambda>_. True"]]
      note_news_ok release_ok clear_replaced_ok requeue_parents_ok assms
      simp: speedup_kind_of_def split: tx_kind.split speedup_kind.split)

lemma listed_ok:
  assumes "store_ok X s" "t \<in> set (get_speedups_ordered s)"
  shows "sound t" "X t" "st_txs s (ct_txid t) = Some t"
  using assms store_okD [OF assms(1)] by (auto simp: get_speedups_ordered_def mem_map_filter)

lemma runs_listed:
  "runs (store_ok X) (pget get_speedups_ordered) (\<lambda>ts. \<forall>t \<in> set ts. sound t \<and> X t)"
  by (rule runs_get) (simp add: listed_ok)

lemma depends_speedup: "depends_on_tx d x \<Longrightarrow> is_speedup d"
  by (auto simp: depends_on_tx_def speedup_kind_of_def is_speedup_def split: tx_kind.splits)

lemma runs_cascade: "sound t \<Longrightarrow> M (ct_txid t) \<Longrightarrow> runs (store_ok X) (cascade fuel t h fm) (\<lambda>_. True)"
proof (induction fuel arbitrary: t fm)
  case 0
  show ?case by (simp add: runs_throw)
next
  case (Suc fuel)
  show ?case
    by (auto intro!: runs_seq [OF runs_settle_failed_dispatch] runs_bind [OF runs_listed] runs_for runs_if runs_ret
        Suc dest: depends_speedup intro: X_tended)
qed

lemma runs_fail_and_cascade: "sound t \<Longrightarrow> M (ct_txid t) \<Longrightarrow> runs (store_ok X) (fail_and_cascade t h fm) (\<lambda>_. True)"
  unfolding runs_def fail_and_cascade_def using runs_cascade unfolding runs_def by blast

lemma distinct_survivors: "distinct acc \<Longrightarrow> distinct (fold (\<lambda>p acc. survivor_step p s acc) ps acc)"
proof (induction ps arbitrary: acc)
  case (Cons p ps)
  have "distinct (survivor_step p s acc)"
    using Cons.prems by (auto simp: survivor_step_def split: option.split)
  then show ?case using Cons.IH by simp
qed simp

lemma runs_settle_failed_child: "sound t \<Longrightarrow> M (ct_txid t) \<Longrightarrow> runs (store_ok X) (settle_failed_child t h) (\<lambda>_. True)"
  unfolding settle_failed_child_def rebuild_survivors_def
  by (auto intro!: runs_if runs_fail_and_cascade runs_bind [OF runs_get [where P = "\<lambda>_. True"]]
      runs_seq [OF runs_fail_and_cascade] runs_modify prepend_ok distinct_survivors)

text \<open>The result of a dispatch; \<open>t\<close> is a record that was read before, possibly out of date.\<close>

lemma runs_accepted:
  assumes "sound t" "X t" "\<not> is_terminal (ct_state t)" "M (ct_txid t)"
  shows "runs (in_store (store_ok X)) (mark_accepted cx t x h fi) (\<lambda>_. True)"
    and "runs (in_store (store_ok X)) (mark_already_confirmed cx t x h) (\<lambda>_. True)"
  unfolding mark_accepted_def mark_already_confirmed_def monitor_again_def using assms
  by (auto intro!: runs_seq [OF runs_on_store [OF runs_predecessor]] runs_call
      runs_seq [OF runs_on_store [OF runs_modify [where P = "\<lambda>_. True"]]] write_ok [where t = t]
      simp: evolves_def sound_def)

lemma runs_dispatch_result:
  assumes "sound t" "X t" "\<not> is_terminal (ct_state t)" "M (ct_txid t)"
  shows "runs (in_store (store_ok X)) (handle_dispatch_result cx t x outcome h fi) (\<lambda>_. True)"
  unfolding handle_dispatch_result_def classify_dispatch_error_def using assms
  by (auto intro!: runs_bind [OF runs_lift [where P = "\<lambda>_. ct_txid t = x"]] runs_accepted runs_on_store runs_fail_and_cascade
      runs_settle_failed_child runs_bind [OF runs_call] runs_bind [OF runs_missing_kind] runs_control
      runs_modify retry_ok simp: verify_tx_id_def pseq_def split: dispatch_outcome.split if_splits)

text \<open>Review.\<close>

lemma active_ok:
  assumes "store_ok X s" "t \<in> set (get_active_txs scan s)"
  shows "sound t" "X t" "\<not> is_terminal (ct_state t)"
  using assms store_okD [OF assms(1)]
  by (auto simp: get_active_txs_def get_all_txs_def mem_map_filter is_terminal_def)

lemma runs_active:
  "runs (store_ok X) (pget (get_active_txs scan)) (\<lambda>ts. \<forall>t \<in> set ts. sound t \<and> X t \<and> \<not> is_terminal (ct_state t))"
  by (rule runs_get) (simp add: active_ok)

lemma evict_one_ok: "store_ok X s \<Longrightarrow> store_ok X (evict_one cfg h psp cov t s)"
  by (auto simp: evict_one_def intro!: note_news_ok remove_tx_ok split: option.split)

lemma evict_ok: "store_ok X s \<Longrightarrow> store_ok X (evict_stale_txs cfg scan h s)"
proof -
  have "store_ok X s \<Longrightarrow> store_ok X (fold (evict_one cfg h psp cov) ts s)" for psp cov ts
    by (induction ts arbitrary: s) (auto intro: evict_one_ok)
  then show "store_ok X s \<Longrightarrow> ?thesis" by (simp add: evict_stale_txs_def)
qed

lemma reorg_ok:
  "store_ok X s \<Longrightarrow> sound t \<Longrightarrow> X t \<Longrightarrow> ct_state t = Confirmed \<Longrightarrow> M (ct_txid t) \<Longrightarrow> store_ok X (mark_reorg t h s)"
  by (auto simp: mark_reorg_def evolves_def sound_def intro!: write_ok [where t = t])

lemma runs_marks:
  assumes "M x"
  shows "runs (store_ok X) (mark_finalized x h) (\<lambda>_. True)" "runs (store_ok X) (mark_confirmed x) (\<lambda>_. True)"
    "runs (store_ok X) (mark_orphan x) (\<lambda>_. True)"
  unfolding mark_finalized_def mark_confirmed_def mark_orphan_def
  by (rule runs_settle runs_update_state, rule assms)+

lemma runs_review_transaction:
  assumes "sound t" "X t" "M (ct_txid t)"
  shows "runs (in_store (store_ok X)) (review_transaction cx h t) (\<lambda>_. True)"
  unfolding review_transaction_def Let_def using assms
  by (auto intro!: runs_bind [OF runs_call] runs_if runs_ret runs_on_store runs_modify reorg_ok note_news_ok requeue_ok
      runs_marks)

lemma runs_review_active: "(\<And>y. M y) \<Longrightarrow> runs (in_store (store_ok X)) (review_active cx) (\<lambda>_. True)"
  unfolding review_active_def review_transactions_def Let_def
  by (auto intro!: runs_bind [OF runs_height] runs_seq [OF runs_on_store [OF runs_modify [where P = "\<lambda>_. True"]]]
      runs_bind [OF runs_on_store [OF runs_active]] runs_if runs_ret runs_for runs_review_transaction evict_ok)

lemma runs_replace_funding: "runs (store_ok X) (replace_funding_on_finalize x) (\<lambda>_. True)"
proof (rule runsI)
  fix s r s'
  assume s: "store_ok X s" and run: "replace_funding_on_finalize x s = (r, s')"
  consider (none) "s' = s" "\<forall>e. r = Inl e \<longrightarrow> \<not> is_panic e"
    | (some) t change k where "st_txs s x = Some t" "speedup_change_utxo t = Inr change" "ct_kind t = Speedup k"
  proof (cases "st_txs s x")
    case None
    then have "r = Inr ()" "s' = s" using run by (simp_all add: replace_funding_on_finalize_def get_tx_by_id_def)
    then show ?thesis using none by simp
  next
    case (Some t)
    have snd: "sound t" using store_okD(3) [OF s Some] .
    show ?thesis
    proof (cases "speedup_change_utxo t")
      case (Inl e)
      have "\<not> is_panic e"
        using Inl snd by (auto simp: speedup_change_utxo_def speedup_kind_of_def last_output_def sound_def
            split: sum.splits tx_kind.splits list.splits prod.splits)
      then show ?thesis using run none Inl Some
        by (cases e) (auto simp: replace_funding_on_finalize_def get_tx_by_id_def)
    next
      case (Inr change)
      then obtain k where "ct_kind t = Speedup k"
        using speedup_change_utxo_speedup by (auto simp: is_speedup_iff)
      with some Some Inr show ?thesis by blast
    qed
  qed
  then show "store_ok X s' \<and> (\<forall>x. r = Inr x \<longrightarrow> True) \<and> (\<forall>e. r = Inl e \<longrightarrow> \<not> is_panic e)"
  proof cases
    case none
    then show ?thesis using s by simp
  next
    case (some t change k)
    define C where "C = set (map utxo_outpoint (sc_funding_inputs (context_of k)))"
    define xs where "xs = st_funding_list s"
    show ?thesis
    proof (cases "matched C 0 xs = []")
      case True
      then show ?thesis using run some s
        by (auto simp: replace_funding_on_finalize_def get_tx_by_id_def prog_simps C_def xs_def collect_consumed_eq)
    next
      case False
      define p where "p = length (takeWhile (\<lambda>x. x \<notin> C) xs)"
      define new where "new = \<lparr>fd_utxo = change, fd_spent = sc_spent (context_of k), fd_from_speedup = True\<rparr>"
      define ys where "ys = filter (\<lambda>x. x \<notin> C) xs"
      define f where "f = ((st_funding s) |` (- (C \<inter> set xs)))(utxo_outpoint change \<mapsto> new)"
      define l where "l = vec_insert (min p (length ys)) (utxo_outpoint change) ys"
      have eq: "remove_speedup_from_list (ct_txid t) (s\<lparr>st_funding := f, st_funding_list := l\<rparr>) = s' \<and> r = Inr ()"
        using run some False remove_matched_run [of "[]" 0 C xs s]
        by (simp add: replace_funding_on_finalize_def get_tx_by_id_def prog_simps C_def [symmetric] xs_def [symmetric]
            collect_consumed_eq put_funding_record_def set_funding_list_def new_def [symmetric] f_def p_def l_def ys_def Let_def
            del: set_map)
      have "queue_ok s" using store_okD(1) [OF s] by (simp add: structured_def)
      then have "queue_ok (s\<lparr>st_funding := f, st_funding_list := l\<rparr>)"
        by (auto simp: queue_ok_def f_def l_def ys_def xs_def set_vec_insert new_def restrict_map_def dom_def
            split: if_splits)
      then show ?thesis using eq unlist_ok [OF queue_change_ok [OF s]] by blast
    qed
  qed
qed

lemma runs_remove_replaced_loop:
  "(\<And>y. M y) \<Longrightarrow> runs (in_store (store_ok X)) (remove_replaced_loop cx fuel c h x) (\<lambda>_. True)"
  by (induction fuel arbitrary: x)
    (auto intro!: runs_throw runs_ret runs_option runs_call runs_settle
      runs_bind [OF runs_on_store [OF runs_get [where P = "\<lambda>_. True"]]] runs_seq [where P = "\<lambda>_. True"] runs_on_store)

lemma runs_remove_replaced: "(\<And>y. M y) \<Longrightarrow> runs (in_store (store_ok X)) (remove_replaced_rbf cx t h) (\<lambda>_. True)"
  unfolding remove_replaced_rbf_def
  by (auto intro!: runs_ret runs_remove_replaced_loop
      runs_bind [OF runs_on_store [OF runs_get [where P = "\<lambda>_. True"]]] split: tx_kind.split speedup_kind.split
      simp del: remove_replaced_loop.simps)

lemma runs_review_speedup:
  assumes "sound t" "X t" "\<And>y. M y"
  shows "runs (in_store (store_ok X)) (review_speedup cx all h t) (\<lambda>_. True)"
  unfolding review_speedup_def Let_def using assms
  by (auto intro!: runs_bind [OF runs_call] runs_if runs_ret runs_on_store runs_modify reorg_ok requeue_ok
      runs_marks runs_seq [OF runs_remove_replaced] runs_seq [OF runs_on_store [OF runs_marks(1)]] runs_replace_funding
      simp: replace_on_finalize_def coordinator_funding_storage_def)

lemma runs_review_speedups: "(\<And>y. M y) \<Longrightarrow> runs (in_store (store_ok X)) (review_speedups cx) (\<lambda>_. True)"
  unfolding review_speedups_def
  by (auto intro!: runs_bind [OF runs_height] runs_bind [OF runs_on_store [OF runs_listed]] runs_if runs_ret runs_for
      runs_review_speedup)

text \<open>Dispatch.\<close>

lemma runs_rate_noted: "runs (in_store (store_ok X)) (network_fee_rate_noted cx) (\<lambda>_. True)"
  unfolding network_fee_rate_noted_def
  by (auto intro!: runs_bind [OF runs_network_rate] runs_seq [where P = "\<lambda>_. True"] runs_control runs_ret runs_on_store
      runs_modify note_news_ok)

lemma runs_dispatch_batch:
  assumes "\<forall>t \<in> set txs. sound t \<and> X t \<and> \<not> is_terminal (ct_state t) \<and> M (ct_txid t)"
  shows "runs (in_store (store_ok X)) (dispatch_batch cx txs h) (\<lambda>_. True)"
  unfolding dispatch_batch_def
proof (intro runs_bind [OF runs_rate_noted] runs_bind [OF runs_rate_limit] runs_bind [OF runs_dispatcher] runs_for runs_prod)
  fix rate sent and results :: "(txid \<times> dispatch_outcome) list" and y x outcome
  assume "set sent \<subseteq> set txs"
  then have "runs (in_store (store_ok X)) (plift (find_tx_in_batch sent x))
      (\<lambda>t. sound t \<and> X t \<and> \<not> is_terminal (ct_state t) \<and> M (ct_txid t))"
    using assms by (intro runs_lift)
      (auto simp: find_tx_in_batch_def find_Some_iff subset_iff split: option.splits)
  then show "runs (in_store (store_ok X)) (pbind (plift (find_tx_in_batch sent x)) (\<lambda>t.
      handle_dispatch_result cx t x outcome h (compute_fee_for_tx (ct_tx t) rate))) (\<lambda>_. True)"
    by (rule runs_bind) (blast intro: runs_dispatch_result)
qed simp

lemma runs_dispatch_pending: "runs (in_store (store_ok X)) (dispatch_pending cx) (\<lambda>_. True)"
  unfolding dispatch_pending_def Let_def
  by (auto intro!: runs_bind [OF runs_height] runs_bind [OF runs_on_store [OF runs_active]] runs_if runs_ret
      runs_dispatch_batch intro: X_tended)

lemma runs_dispatch_pending_speedups:
  "runs (in_store (store_ok X)) (dispatch_pending_speedups cx) (\<lambda>_. True)"
proof -
  have res: "runs (in_store (store_ok X)) (case find (\<lambda>t. ct_txid t = x) sent of
        Some t \<Rightarrow> handle_dispatch_result cx t x outcome h (ct_fee_info t) | None \<Rightarrow> pret ()) (\<lambda>_. True)"
    if "\<forall>t \<in> set sent. sound t \<and> X t \<and> ct_state t = ToDispatch" for sent x outcome h
  proof (rule runs_option)
    fix t assume "find (\<lambda>t. ct_txid t = x) sent = Some t"
    then have "t \<in> set sent" by (auto simp: find_Some_iff)
    then show "runs (in_store (store_ok X)) (handle_dispatch_result cx t x outcome h (ct_fee_info t)) (\<lambda>_. True)"
      using that by (intro runs_dispatch_result) (auto intro: X_tended)
  qed (simp add: runs_ret)
  show ?thesis
    unfolding dispatch_pending_speedups_def Let_def
    by (intro runs_bind [OF runs_height] runs_bind [OF runs_on_store [OF runs_listed]] runs_if runs_ret
        runs_bind [OF runs_rate_limit] runs_bind [OF runs_dispatcher] runs_seq [OF runs_for [where P = "\<lambda>_. True"]]
        runs_on_store runs_get runs_prod res) auto
qed

text \<open>Building: no records are written but the flags of reservations.\<close>

lemma change_no_panic: "sound t \<Longrightarrow> speedup_change_utxo t = Inl e \<Longrightarrow> \<not> is_panic e"
  by (auto simp: speedup_change_utxo_def speedup_kind_of_def last_output_def sound_def
      split: sum.splits tx_kind.splits list.splits prod.splits)

lemma tip_no_panic: "\<forall>t \<in> set ts. sound t \<Longrightarrow> live_chain_tip all ts = Inl e \<Longrightarrow> \<not> is_panic e"
  by (induction ts) (auto simp: speedup_kind_of_def dest: change_no_panic split: sum.splits tx_kind.splits if_splits)

lemma reserve_ok: "store_ok X s \<Longrightarrow> store_ok X (fs_set_spent coordinator_funding_storage op b s)"
  by (simp add: coordinator_funding_storage_def set_spent_ok)

lemma runs_get_funding:
  assumes "\<forall>t \<in> set all. sound t"
  shows "runs (store_ok X) (get_funding coordinator_funding_storage all) (\<lambda>_. True)"
  unfolding get_funding_def
  by (auto intro!: runs_bind [OF runs_lift [where P = "\<lambda>_. True"]] runs_option
      runs_seq [OF runs_modify [where P = "\<lambda>_. True"]] runs_ret runs_bind [OF runs_get [where P = "\<lambda>_. True"]]
      reserve_ok dest: tip_no_panic [rotated] simp: assms)

lemma combine_ok:
  "store_ok X s \<Longrightarrow> get_combine_funding coordinator_funding_storage s = (u, s') \<Longrightarrow> store_ok X s'"
  by (auto simp: get_combine_funding_def split: option.splits intro: reserve_ok)

lemma runs_build_tx: "ins \<noteq> [] \<Longrightarrow> runs (in_store (store_ok X)) (build_tx cx sds ins fee) (\<lambda>_. True)"
  by (cases ins) (auto simp: build_tx_def intro!: runs_on_ext runs_map_err)

lemma runs_give_up:
  "ba_inherited_count a \<le> length ins \<Longrightarrow> runs (in_store (store_ok X)) (give_up cx a ins available fee) (\<lambda>r. r = None)"
  unfolding give_up_def slice_from_def emit_insufficient_funds_def
  by (auto intro!: runs_bind [OF runs_lift [where P = "\<lambda>_. True"]] runs_ret
      runs_seq [OF runs_on_store [OF runs_modify [where P = "\<lambda>_. True"]]] release_ok note_news_ok)

text \<open>What a transaction that was built is funded with.\<close>

definition funded_from :: "nat \<Rightarrow> speedup_build_result option \<Rightarrow> bool" where
  "funded_from n r \<longleftrightarrow> (\<forall>b. r = Some b \<longrightarrow> br_funding_inputs b \<noteq> [] \<and> n \<le> length (br_funding_inputs b))"

lemma runs_build_loop:
  assumes "ins \<noteq> []" "ba_inherited_count a \<le> length ins"
  shows "runs (in_store (store_ok X)) (build_loop cx a ins v) (funded_from (ba_inherited_count a))"
proof (rule runsI)
  fix w r w'
  assume w: "store_ok X (w_store w)" and run: "build_loop cx a ins v w = (r, w')"
  define J :: "utxo list \<Rightarrow> 'a world \<Rightarrow> bool" where
    "J ins w \<longleftrightarrow> store_ok X (w_store w) \<and> ins \<noteq> [] \<and> ba_inherited_count a \<le> length ins" for ins w
  have tx: "J ins w'" if "J ins w" "build_tx cx (args_data a) ins f w = (r, w')" for ins f w r w'
    using runsD(1) [OF runs_build_tx _ that(2)] that(1) by (simp add: J_def)
  have combine: "J (ins @ [extra]) w'" if "J ins w" "combine_step ins w extra w'" for ins w extra w'
    using that combine_ok by (auto simp: combine_step_def J_def)
  have start: "J ins w" using w assms by (simp add: J_def)
  have "\<exists>ins' w1. J ins' w1 \<and> build_outcome cx a ins' w1 r w'"
    by (rule build_loop_outcome [of J cx a, OF _ _ start run]) (blast intro: tx combine)+
  then obtain ins' w1 where out: "store_ok X (w_store w1)" "ins' \<noteq> []" "ba_inherited_count a \<le> length ins'"
      "build_outcome cx a ins' w1 r w'" by (auto simp: J_def)
  note built = runsD [OF runs_build_tx [OF out(2)] out(1)] and gave = runsD [OF runs_give_up [OF out(3)] out(1)]
  show "store_ok X (w_store w') \<and> (\<forall>b. r = Inr b \<longrightarrow> funded_from (ba_inherited_count a) b)
      \<and> (\<forall>e. r = Inl e \<longrightarrow> \<not> is_panic e)"
    using out(4) unfolding build_outcome_def
  proof (elim disjE exE conjE)
    fix f e
    assume "build_tx cx (args_data a) ins' f w1 = (Inl e, w')" "r = Inl e"
    then show ?thesis using built(1,3) by blast
  next
    fix fee
    assume "give_up cx a ins' (input_total ins') fee w1 = (r, w')"
    note g = gave [OF this]
    show ?thesis using g(1,3) by (auto simp: funded_from_def dest: g(2))
  next
    fix b vs
    assume "r = Inr (Some b)" "br_funding_inputs b = ins'"
      "build_tx cx (args_data a) ins' (br_fee b) w1 = (Inr (br_tx b), w')"
    then show ?thesis using built(1) out(2,3) by (auto simp: funded_from_def)
  qed
qed

lemma runs_build_speedup:
  assumes "\<And>ins. inherited = Some ins \<Longrightarrow> ins \<noteq> []"
  shows "runs (in_store (store_ok X)) (build_speedup cx entries inherited bump rate diff)
    (funded_from (case inherited of Some ins \<Rightarrow> length ins | None \<Rightarrow> 0))"
proof (cases inherited)
  case (Some ins)
  have loop: "runs (in_store (store_ok X)) (build_loop cx (a\<lparr>ba_inherited_count := length ins\<rparr>) ins 0)
      (funded_from (length ins))" for a
    using runs_build_loop [of ins "a\<lparr>ba_inherited_count := length ins\<rparr>" cx 0] assms [OF Some] by simp
  show ?thesis
    unfolding build_speedup_def Let_def Some option.case
    by (rule runs_bind [OF runs_on_store [OF runs_get [where P = "\<lambda>_. True"]]], rule TrueI)
      (use loop [of "\<lparr>ba_parent_entries = entries, ba_bump_fee = bump, ba_fee_rate = rate, ba_is_rbf = True,
               ba_chain_diff_fee = diff, ba_inherited_count = 0, ba_primary_is_speedup = primary\<rparr>" for primary] in simp)
next
  case None
  show ?thesis
    unfolding build_speedup_def Let_def None option.case
  proof (intro runs_bind [OF runs_on_store [OF runs_listed]])
    fix all :: "coordinated_tx list"
    assume all: "\<forall>t \<in> set all. sound t \<and> X t"
    show "runs (in_store (store_ok X))
       (pbind (on_store (get_funding coordinator_funding_storage all))
         (\<lambda>funding. case funding of
            None \<Rightarrow> pseq (on_store (pmodify emit_funding_not_available)) (pret None)
          | Some (u, primary) \<Rightarrow> build_loop cx
              \<lparr>ba_parent_entries = entries, ba_bump_fee = bump, ba_fee_rate = rate, ba_is_rbf = None \<noteq> None,
               ba_chain_diff_fee = diff, ba_inherited_count = 0, ba_primary_is_speedup = primary\<rparr> [u] 0))
       (funded_from 0)"
    proof (rule runs_bind [OF runs_on_store [OF runs_get_funding]], goal_cases)
      case 1
      then show ?case using all by blast
    next
      case (2 funding)
      show ?case
      proof (rule runs_option)
        show "runs (in_store (store_ok X)) (pseq (on_store (pmodify emit_funding_not_available)) (pret None)) (funded_from 0)"
          by (intro runs_seq [OF runs_on_store [OF runs_modify [where P = "\<lambda>_. True"]]] runs_ret)
            (auto simp: emit_funding_not_available_def funded_from_def intro: note_news_ok)
      next
        fix y
        have "runs (in_store (store_ok X)) (build_loop cx (a\<lparr>ba_inherited_count := 0\<rparr>) [u] 0) (funded_from 0)" for a u
          using runs_build_loop [of "[u]" "a\<lparr>ba_inherited_count := 0\<rparr>" cx 0] by simp
        from this [of "\<lparr>ba_parent_entries = entries, ba_bump_fee = bump, ba_fee_rate = rate, ba_is_rbf = None \<noteq> None,
               ba_chain_diff_fee = diff, ba_inherited_count = 0, ba_primary_is_speedup = snd y\<rparr>" "fst y"]
        show "runs (in_store (store_ok X)) (case y of (u, primary) \<Rightarrow> build_loop cx
              \<lparr>ba_parent_entries = entries, ba_bump_fee = bump, ba_fee_rate = rate, ba_is_rbf = None \<noteq> None,
               ba_chain_diff_fee = diff, ba_inherited_count = 0, ba_primary_is_speedup = primary\<rparr> [u] 0)
            (funded_from 0)"
          by (simp add: case_prod_unfold)
      qed
    qed
  qed
qed

end

section \<open>New records\<close>

lemma batch_loop_consecutive:
  "batch_loop m n ps (bs, cur, w) = (bs', cur') \<Longrightarrow> \<exists>rest. concat bs @ cur @ ps = concat bs' @ cur' @ rest"
proof (induction ps arbitrary: bs cur w)
  case (Cons p ps)
  then show ?case
    by (auto simp: Let_def split: if_splits dest!: Cons.IH)
qed simp

lemma batches_consecutive: "\<exists>rest. parents = concat (batch_by_weight settings parents n) @ rest"
proof -
  obtain bs cur where "batch_loop (max_tx_weight settings) n parents ([], [], 0) = (bs, cur)" by fastforce
  moreover from batch_loop_consecutive [OF this] obtain rest where "parents = concat bs @ cur @ rest" by auto
  ultimately show ?thesis by (auto simp: batch_by_weight_def)
qed

lemma distinct_batch:
  assumes "distinct (map ct_txid parents)" "b \<in> set (batch_by_weight settings parents n)"
  shows "distinct (map ct_txid b)"
proof -
  obtain rest where r: "parents = concat (batch_by_weight settings parents n) @ rest"
    using batches_consecutive by blast
  have "distinct (concat (map (map ct_txid) (batch_by_weight settings parents n)))"
    using assms(1) by (subst (asm) r) (simp add: map_concat)
  with assms(2) show ?thesis by (metis (no_types, lifting) distinct_concat_iff image_eqI set_map)
qed

lemma pending_parents_ids:
  assumes "store_ok X s" "get_pending_speedup_parents s = (ps, s')"
  shows "distinct (map ct_txid ps)" "store_ok X s'"
proof -
  have d: "distinct (st_pending_parents s)" and k: "keyed s"
    using store_okD(1) [OF assms(1)] store_ok_keyed [OF assms(1)] by (simp_all add: structured_def)
  have run: "ps = filter (\<lambda>t. ct_state t \<in> {InMempool, Confirmed, Finalized})
        (List.map_filter (st_txs s) (st_pending_parents s))"
      "s' = s\<lparr>st_pending_parents := filter (\<lambda>x. \<not> (x \<in> set (st_pending_parents s) \<and> dead_parent s x)) (st_pending_parents s)\<rparr>"
    using assms(2) unfolding get_pending_speedup_parents_def by (simp_all add: pending_fold [of s s])
  have "map ct_txid (List.map_filter (st_txs s) xs) = filter (\<lambda>x. st_txs s x \<noteq> None) xs" for xs
    by (induction xs) (auto simp: List.map_filter_simps keyedD [OF k] split: option.split)
  then have "distinct (map ct_txid (List.map_filter (st_txs s) (st_pending_parents s)))" using d by simp
  then show "distinct (map ct_txid ps)" unfolding run(1) by (simp add: distinct_map_filter)
  show "store_ok X s'" unfolding run(2) using d by (intro pending_ok [OF assms(1)]) simp
qed

lemma unpend_ok: "store_ok X s \<Longrightarrow> store_ok X (fold remove_pending_speedup_parent xs s)"
proof (induction xs arbitrary: s)
  case (Cons x xs)
  have "store_ok X (remove_pending_speedup_parent x s)"
    using store_okD(1) [OF Cons.prems] unfolding remove_pending_speedup_parent_def
    by (intro pending_ok [OF Cons.prems]) (simp add: structured_def)
  then show ?case using Cons.IH by simp
qed simp

text \<open>The transactions that the builder makes satisfy \<open>B\<close>; their ids satisfy \<open>N\<close>.\<close>

definition makes :: "(transaction \<Rightarrow> bool) \<Rightarrow> 'e engine_context \<Rightarrow> bool" where
  "makes B cx \<longleftrightarrow> (\<forall>b. built_by cx (Some b) \<longrightarrow> B (br_tx b))"

definition builds_in :: "(txid \<Rightarrow> bool) \<Rightarrow> 'e engine_context \<Rightarrow> bool" where
  "builds_in N cx \<longleftrightarrow> (\<forall>b. built_by cx (Some b) \<longrightarrow> N (tx_compute_txid (br_tx b)))"

lemma builds_in_makes: "builds_in N cx \<longleftrightarrow> makes (\<lambda>tx. N (tx_compute_txid tx)) cx"
  by (simp add: builds_in_def makes_def)

lemma runs_both:
  "runs I m P \<Longrightarrow> (\<And>s x. fst (m s) = Inr x \<Longrightarrow> Q x) \<Longrightarrow> runs I m (\<lambda>x. P x \<and> Q x)"
  unfolding runs_def by (auto split: sum.splits)

text \<open>
  A property that new records have: those of the client, when their ids satisfy \<open>N\<close>, and those of the
  speedups, when their transactions satisfy \<open>B\<close>.
\<close>

locale open_property = record_property X M for X M +
  fixes N :: "txid \<Rightarrow> bool" and B :: "transaction \<Rightarrow> bool"
  assumes X_client: "ct_state t = ToDispatch \<Longrightarrow> \<not> is_speedup t \<Longrightarrow> N (ct_txid t) \<Longrightarrow> X t"
    and X_built: "B tx \<Longrightarrow> X (speedup_record tx fi k h)"
begin

lemma runs_built:
  assumes "\<And>ins. inherited = Some ins \<Longrightarrow> ins \<noteq> []"
  shows "runs (in_store (store_ok X)) (build_speedup cx entries inherited bump rate diff)
    (\<lambda>r. funded_from (case inherited of Some ins \<Rightarrow> length ins | None \<Rightarrow> 0) r \<and> built_by cx r)"
  by (rule runs_both [OF runs_build_speedup [OF assms]]) (auto dest: build_speedup_built)

lemma speedup_record_ok:
  assumes "sc_funding_inputs (context_of k) \<noteq> []" "distinct (parents_of k)" "B tx"
  shows "sound (speedup_record tx fi k h)" "X (speedup_record tx fi k h)"
  using assms by (simp_all add: X_built) (simp add: sound_def speedup_record_def)

lemma runs_save_speedup:
  assumes "sc_funding_inputs (context_of k) \<noteq> []" "distinct (parents_of k)" "B tx"
  shows "runs (in_store (store_ok X)) (save_speedup cx tx fi k h) (\<lambda>_. True)"
  unfolding save_speedup_def
  by (intro runs_seq [OF runs_on_store [OF runs_modify [where P = "\<lambda>_. True"]]] runs_call TrueI)
    (erule insert_speedup_ok, rule speedup_record_ok [OF assms], rule speedup_record_ok [OF assms])

lemma at_cap_ok: "M x \<Longrightarrow> store_ok X s \<Longrightarrow> store_ok X (mark_at_cap x rate s)"
  by (auto simp: mark_at_cap_def get_tx_by_id_def evolves_def sound_def intro!: evolve_ok split: option.split)

lemma runs_note: "runs (in_store (store_ok X)) (on_store (pmodify (note_news n))) (\<lambda>_. True)"
  by (intro runs_on_store runs_modify note_news_ok TrueI)

lemma runs_save_boost:
  assumes "br_funding_inputs r \<noteq> []" "use_rbf \<Longrightarrow> length (sc_funding_inputs c) \<le> length (br_funding_inputs r)"
    and "B (br_tx r)" "M (ct_txid tip)"
  shows "runs (in_store (store_ok X)) (save_boost cx h tip c use_rbf bump entries r) (\<lambda>_. True)"
  unfolding save_boost_def Let_def
proof (rule runs_bind [where P = "\<lambda>k. sc_funding_inputs (context_of k) \<noteq> [] \<and> distinct (parents_of k)"])
  show "runs (in_store (store_ok X))
     (if use_rbf
      then pbind (plift (slice_from (if use_rbf then length (sc_funding_inputs c) else 0) (br_funding_inputs r)))
             (\<lambda>new_inputs. pret (RBF (ct_txid tip) new_inputs (make_speedup_context (br_funding_inputs r) bump entries)))
      else pret (CPFP [ct_txid tip] (make_speedup_context (br_funding_inputs r) bump entries)))
     (\<lambda>k. sc_funding_inputs (context_of k) \<noteq> [] \<and> distinct (parents_of k))"
    using assms by (auto intro!: runs_bind [OF runs_lift [where P = "\<lambda>_. True"]] runs_ret
        simp: make_speedup_context_def slice_from_def split: if_splits)
qed (auto intro!: runs_seq [OF runs_save_speedup] runs_if runs_seq [OF runs_note] runs_ret runs_on_store
    runs_modify at_cap_ok assms(3,4))

lemma boost_target_listed:
  "boost_target sset fset h all = Some (tip, c, rbf) \<Longrightarrow> tip \<in> set all \<and> (\<exists>k. ct_kind tip = Speedup k \<and> c = context_of k)"
  by (auto simp: boost_target_def find_Some_iff nth_mem rev_nth split: if_splits option.splits tx_kind.splits)

lemma runs_boost: "makes B cx \<Longrightarrow> runs (in_store (store_ok X)) (boost_if_stale cx skip) (\<lambda>_. True)"
  unfolding boost_if_stale_def
proof (intro runs_if runs_ret TrueI runs_bind [OF runs_height] runs_bind [OF runs_on_store [OF runs_listed]] runs_option,
    goal_cases)
  case (1 height all y)
  obtain tip c rbf where y: "y = (tip, c, rbf)" by (cases y) auto
  then obtain k where k: "tip \<in> set all" "ct_kind tip = Speedup k" "c = context_of k"
    using boost_target_listed 1 by blast
  then have ins: "sc_funding_inputs c \<noteq> []" and tended: "M (ct_txid tip)"
    using 1 X_tended [of tip] by (auto simp: sound_def is_speedup_iff)
  show ?case
    unfolding y Let_def prod.case
    by (rule runs_bind [OF runs_rate_noted], unfold case_prod_unfold,
        rule runs_bind [OF runs_built])
      (use ins tended 1 in \<open>auto intro!: runs_option runs_ret runs_save_boost simp: funded_from_def makes_def split: if_splits\<close>)
qed

lemma runs_save_cpfp:
  assumes "distinct (map ct_txid batch)" "br_funding_inputs r \<noteq> []" "B (br_tx r)"
  shows "runs (in_store (store_ok X)) (save_cpfp cx batch entries bump r) (\<lambda>_. True)"
proof -
  have unpend: "runs (in_store (store_ok X)) (on_store (pmodify (fold remove_pending_speedup_parent xs))) (\<lambda>_. True)" for xs
    by (intro runs_on_store runs_modify unpend_ok TrueI)
  have noted: "runs (in_store (store_ok X)) (if b then on_store (pmodify (note_news n)) else pret ()) (\<lambda>_. True)" for b n
    by (intro runs_if runs_note runs_ret TrueI)
  show ?thesis
    unfolding save_cpfp_def Let_def
    by (intro runs_seq [OF unpend] runs_seq [OF noted] runs_bind [OF runs_height] runs_save_speedup)
      (use assms in \<open>simp_all add: make_speedup_context_def\<close>)
qed

lemma runs_create_cpfp: "makes B cx \<Longrightarrow> runs (in_store (store_ok X)) (create_cpfp_batch cx) (\<lambda>_. True)"
  unfolding create_cpfp_batch_def Let_def
proof (intro runs_if runs_ret TrueI runs_bind [OF runs_on_store [OF runs_listed]] runs_bind [OF runs_rate_noted]
    runs_prod runs_bind [OF runs_on_store [OF runs_step [where P = "\<lambda>ps. distinct (map ct_txid ps)"]]]
    runs_bind [OF runs_built] runs_option, goal_cases)
  case (1 s)
  then show ?case using pending_parents_ids by (metis prod.collapse)
next
  case (3 ps all rate diff u built r)
  let ?bs = "batch_by_weight (bs_dispatcher (cx_settings cx)) ps 1"
  have "distinct (map ct_txid (last ?bs))"
    by (rule distinct_batch [OF 3(2), where n = 1], rule last_in_set) (use 3 in simp)
  moreover have "br_funding_inputs r \<noteq> []" using 3 by (simp add: funded_from_def)
  moreover have "B (br_tx r)" using 3 by (simp add: makes_def)
  ultimately show ?case by (rule runs_save_cpfp)
qed auto

text \<open>The tick.\<close>

lemma runs_tick: "makes B cx \<Longrightarrow> (\<And>y. M y) \<Longrightarrow> runs (in_store (store_ok X)) (tick cx) (\<lambda>_. True)"
proof -
  assume new: "makes B cx" and all: "\<And>y. M y"
  have clean: "store_ok X (cleanup_news h s)" if "store_ok X s" for h s
    using that unfolding cleanup_news_def store_ok_def structured_def queue_ok_def by (simp add: distinct_map_filter)
  show ?thesis
    unfolding tick_def is_ready_def
    by (intro runs_seq [OF runs_call] runs_bind [OF runs_call] runs_if runs_ret runs_bind [OF runs_height]
        runs_seq [OF runs_on_store [OF runs_modify [where P = "\<lambda>_. True"]]] runs_seq [OF runs_review_active]
        runs_seq [OF runs_review_speedups] runs_seq [OF runs_dispatch_pending]
        runs_bind [OF runs_dispatch_pending_speedups] runs_seq [OF runs_boost] runs_create_cpfp clean new all TrueI)
qed

text \<open>The calls of the client.\<close>

lemma runs_register:
  assumes "\<not> (\<exists>k. kind = Speedup k)" "N (tx_compute_txid tx)"
  shows "runs (in_store (store_ok X)) (register_tx cx tx kind c target trigger stuck) (\<lambda>_. True)"
proof -
  have pend: "store_ok X (add_pending_speedup_parent x s)" if "store_ok X s" for x s
    using store_okD(1) [OF that] unfolding add_pending_speedup_parent_def
    by (intro pending_ok [OF that]) (simp add: structured_def)
  show ?thesis
    unfolding register_tx_def Let_def
    using assms
    by (auto intro!: runs_bind [OF runs_on_store [OF runs_get [where P = "\<lambda>_. True"]]] runs_option runs_ret
        runs_bind [OF runs_height] runs_bind [OF runs_network_rate] runs_seq [OF runs_call]
        runs_seq [OF runs_on_store [OF runs_modify [where P = "\<lambda>_. True"]]] runs_on_store runs_modify pend
        insert_ok X_client simp: sound_def is_speedup_def split: tx_kind.split)
qed

lemma runs_dispatch_tx:
  "N (tx_compute_txid tx) \<Longrightarrow> runs (in_store (store_ok X)) (dispatch_tx cx tx data c target trigger) (\<lambda>_. True)"
  unfolding dispatch_tx_def dispatch_with_speedup_def dispatch_without_speedup_def
  by (auto intro!: runs_register split: option.split)

lemma runs_dispatch_without:
  "N (tx_compute_txid tx) \<Longrightarrow> runs (in_store (store_ok X)) (dispatch_without_speedup cx tx c target trigger stuck) (\<lambda>_. True)"
  unfolding dispatch_without_speedup_def by (simp add: runs_register)

lemma runs_cancel: "runs (in_store (store_ok X)) (cancel cx data) (\<lambda>_. True)"
proof -
  have classify: "store_ok X (snd (fold classify_step xs (el, s)))" if "store_ok X s" for xs el s
    using that
  proof (induction xs arbitrary: el s)
    case (Cons x xs)
    then show ?case by (auto simp: classify_step_def intro: note_news_ok split: option.split)
  qed simp
  have removed: "store_ok X (fold remove_tx xs s)" if "store_ok X s" for xs s
    using that by (induction xs arbitrary: s) (auto intro: remove_tx_ok)
  show ?thesis
    unfolding cancel_def cancel_transactions_def
    by (auto intro!: runs_call runs_bind [OF runs_on_store [OF runs_step [where P = "\<lambda>_. True"]]] runs_if runs_ret
        runs_seq [OF runs_on_store [OF runs_modify [where P = "\<lambda>_. True"]]] runs_seq [OF runs_call] runs_on_store
        runs_modify classify unpend_ok removed split: types_to_monitor.split)
qed

lemma runs_add_funding: "runs (in_store (store_ok X)) (add_funding cx u) (\<lambda>_. True)"
proof -
  have "store_ok X (append_funding u s)" if s: "store_ok X s" for s
  proof -
    have q: "queue_ok s" using store_okD(1) [OF s] by (simp add: structured_def)
    let ?f = "(st_funding s)(utxo_outpoint u \<mapsto> \<lparr>fd_utxo = u, fd_spent = False, fd_from_speedup = False\<rparr>)"
    let ?l = "push_new (utxo_outpoint u) (st_funding_list s)"
    have "append_funding u s = s\<lparr>st_funding := ?f, st_funding_list := ?l\<rparr>"
      by (simp add: append_funding_def put_funding_record_def set_funding_list_def push_new_def Let_def)
    moreover have "queue_ok (s\<lparr>st_funding := ?f, st_funding_list := ?l\<rparr>)" using q by (auto simp: queue_ok_def)
    ultimately show ?thesis using queue_change_ok [OF s] by simp
  qed
  then show ?thesis
    unfolding add_funding_def
    by (auto intro!: runs_bind [OF runs_on_store [OF runs_step [where P = "\<lambda>_. True"]]] runs_option runs_ret runs_note
        simp: set_funding_def coordinator_funding_storage_def split: option.split)
qed

lemma runs_ack: "runs (in_store (store_ok X)) (ack_any_news cx a) (\<lambda>_. True)"
proof -
  have acked: "map sn_news (ack_first n h items) = map sn_news items" for n h items
    by (induction items) auto
  have "store_ok X (ack_news_item n h s)" if "store_ok X s" for n h s
    using that unfolding ack_news_item_def store_ok_def structured_def queue_ok_def by (simp add: acked)
  then show ?thesis
    unfolding ack_any_news_def
    by (auto intro!: runs_call runs_bind [OF runs_height] runs_on_store runs_modify split: ack_news.split)
qed

lemma runs_queries:
  "runs (in_store (store_ok X)) (get_transaction cx x) (\<lambda>_. True)"
  "runs (in_store (store_ok X)) (get_all_news cx) (\<lambda>_. True)"
  "runs (in_store (store_ok X)) (monitor cx data) (\<lambda>_. True)"
  "runs (in_store (store_ok X)) (is_ready cx) (\<lambda>_. True)"
  unfolding get_transaction_def get_all_news_def monitor_def is_ready_def
  by (auto intro!: runs_call runs_bind [OF runs_call] runs_bind [OF runs_on_store [OF runs_get [where P = "\<lambda>_. True"]]]
      runs_ret)

end

end
