(* ===== verification/Broadcast_Facts.thy ===== *)
theory Broadcast_Facts
  imports Record_Invariants
begin

text \<open>
  What a tick gives to the node. A context with another \<open>send_transaction\<close> is compared with the
  original one: the phases that never call it are equal programs, and the two dispatch phases agree
  when the two nodes answer alike for the records that may be sent.
\<close>

section \<open>Another node\<close>

definition cx_send :: "(transaction \<Rightarrow> ('e, unit) ext_prog) \<Rightarrow> 'e engine_context \<Rightarrow> 'e engine_context" where
  "cx_send f cx = cx\<lparr>cx_services := (cx_services cx)\<lparr>sv_send_transaction := f\<rparr>\<rparr>"

lemma cx_send_sel [simp]:
  "cx_settings (cx_send f cx) = cx_settings cx" "cx_scan (cx_send f cx) = cx_scan cx"
  "cx_hash_iter (cx_send f cx) = cx_hash_iter cx" "cx_max_dust_limit (cx_send f cx) = cx_max_dust_limit cx"
  "sv_get_tx_status (cx_services (cx_send f cx)) = sv_get_tx_status (cx_services cx)"
  "sv_get_tx_confirmations (cx_services (cx_send f cx)) = sv_get_tx_confirmations (cx_services cx)"
  "sv_is_utxo_unspent_rpc (cx_services (cx_send f cx)) = sv_is_utxo_unspent_rpc (cx_services cx)"
  "sv_get_estimated_fee_rate (cx_services (cx_send f cx)) = sv_get_estimated_fee_rate (cx_services cx)"
  "sv_monitor (cx_services (cx_send f cx)) = sv_monitor (cx_services cx)"
  "sv_cancel (cx_services (cx_send f cx)) = sv_cancel (cx_services cx)"
  "sv_monitor_tick (cx_services (cx_send f cx)) = sv_monitor_tick (cx_services cx)"
  "sv_is_ready (cx_services (cx_send f cx)) = sv_is_ready (cx_services cx)"
  "sv_get_monitor_height (cx_services (cx_send f cx)) = sv_get_monitor_height (cx_services cx)"
  "sv_get_monitor_news (cx_services (cx_send f cx)) = sv_get_monitor_news (cx_services cx)"
  "sv_ack_monitor_news (cx_services (cx_send f cx)) = sv_ack_monitor_news (cx_services cx)"
  "sv_now_secs (cx_services (cx_send f cx)) = sv_now_secs (cx_services cx)"
  "sv_speedup_transactions (cx_services (cx_send f cx)) = sv_speedup_transactions (cx_services cx)"
  by (simp_all add: cx_send_def)

lemma cx_send_services: "cx_services (cx_send f cx) = (cx_services cx)\<lparr>sv_send_transaction := f\<rparr>"
  by (simp add: cx_send_def)

section \<open>What never sends\<close>

lemmas unsent = cx_send_sel

lemma calls_send:
  "monitor_height (cx_send f cx) = monitor_height cx" "read_clock (cx_send f cx) = read_clock cx"
  "network_fee_rate (cx_send f cx) = network_fee_rate cx" "is_ready (cx_send f cx) = is_ready cx"
  "monitor_again (cx_send f cx) = monitor_again cx"
  unfolding monitor_height_def read_clock_def network_fee_rate_def is_ready_def monitor_again_def fun_eq_iff unsent
  by simp_all

lemma noted_send: "network_fee_rate_noted (cx_send f cx) = network_fee_rate_noted cx"
  unfolding network_fee_rate_noted_def calls_send by (rule refl)

lemma limit_send: "apply_retry_rate_limit (cx_send f cx) = apply_retry_rate_limit cx"
  unfolding apply_retry_rate_limit_def retry_ready_def fun_eq_iff calls_send unsent by simp

lemma input_missing_send: "some_input_missing (cx_send f cx) ops = some_input_missing cx ops"
proof (induction ops)
  case (Cons op ops)
  show ?case unfolding some_input_missing.simps unsent Cons.IH by (rule refl)
qed simp

lemma missing_send: "missing_input_kind (cx_send f cx) = missing_input_kind cx"
  unfolding missing_input_kind_def fun_eq_iff input_missing_send unsent by simp

lemma handle_send: "handle_dispatch_result (cx_send f cx) = handle_dispatch_result cx"
  unfolding handle_dispatch_result_def classify_dispatch_error_def mark_accepted_def mark_already_confirmed_def
    missing_send calls_send unsent fun_eq_iff by simp

lemma review_send: "review_active (cx_send f cx) = review_active cx"
  unfolding review_active_def review_transactions_def review_transaction_def calls_send unsent by (rule refl)

lemma remove_replaced_loop_send:
  "remove_replaced_loop (cx_send f cx) n c h x = remove_replaced_loop cx n c h x"
proof (induction n arbitrary: x)
  case (Suc n)
  show ?case unfolding remove_replaced_loop.simps unsent Suc.IH by (rule refl)
qed simp

lemma review_speedups_send: "review_speedups (cx_send f cx) = review_speedups cx"
  unfolding review_speedups_def review_speedup_def remove_replaced_rbf_def calls_send unsent
    remove_replaced_loop_send by (rule refl)

lemma build_tx_send: "build_tx (cx_send f cx) = build_tx cx"
  unfolding build_tx_def fun_eq_iff unsent by simp

lemma give_up_send: "give_up (cx_send f cx) = give_up cx"
  unfolding give_up_def fun_eq_iff unsent by simp

lemma fee_for_send: "fee_for (cx_send f cx) = fee_for cx"
  unfolding fee_for_def fun_eq_iff unsent by simp

lemma build_loop_send: "build_loop (cx_send f cx) a ins v w = build_loop cx a ins v w"
proof (induction "(if length ins = 1 then (1::nat) else 0, 2 ^ 64 - unat v)" arbitrary: ins v w
    rule: wf_induct_rule [OF wf_lex_prod [OF wf_less_than wf_less_than]])
  case 1
  obtain r1 w1 where b1: "build_tx cx (args_data a) ins 1 w = (r1, w1)" by fastforce
  have b1': "build_tx (cx_send f cx) (args_data a) ins 1 w = (r1, w1)" using b1 by (simp add: build_tx_send)
  show ?case
  proof (cases r1)
    case (Inl e)
    then show ?thesis using b1 b1'
      by (simp add: build_loop.simps [of cx a ins v w] build_loop.simps [of "cx_send f cx" a ins v w] args_data_def)
  next
    case (Inr dummy)
    define vsize where "vsize = (if v = 0 then tx_vsize dummy else v)"
    obtain fee capped where fee: "fee_for cx a vsize = (fee, capped)" by fastforce
    then have fee': "fee_for (cx_send f cx) a vsize = (fee, capped)" by (simp add: fee_for_send)
    note rounds = build_loop_round [OF b1 [unfolded Inr] vsize_def fee]
      build_loop_round [OF b1' [unfolded Inr] vsize_def fee']
    have more: "build_loop (cx_send f cx) a (ins @ [u]) 0 w' = build_loop cx a (ins @ [u]) 0 w'"
      if "length ins = 1" for u w' using 1 [of "ins @ [u]" 0] that by simp
    have grow: "build_loop (cx_send f cx) a ins (tx_vsize t) w' = build_loop cx a ins (tx_vsize t) w'"
      if "\<not> tx_vsize t \<le> vsize" for t w'
    proof -
      have "unat v < unat (tx_vsize t)"
        using that by (auto simp: vsize_def word_less_nat_alt not_le split: if_splits)
      moreover have "unat (tx_vsize t) < 2 ^ 64" using unsigned_less [of "tx_vsize t"] by simp
      ultimately show ?thesis using 1 [of ins "tx_vsize t"] by simp
    qed
    show ?thesis
      unfolding rounds build_tx_send give_up_send unsent
      by (simp add: more grow split: prod.split sum.split option.split)
  qed
qed

lemma build_speedup_send: "build_speedup (cx_send f cx) = build_speedup cx"
  unfolding build_speedup_def fun_eq_iff build_loop_send [abs_def] by simp

lemma save_speedup_send: "save_speedup (cx_send f cx) = save_speedup cx"
  unfolding save_speedup_def fun_eq_iff unsent by simp

lemma boost_send: "boost_if_stale (cx_send f cx) = boost_if_stale cx"
  unfolding boost_if_stale_def save_boost_def fun_eq_iff build_speedup_send save_speedup_send noted_send calls_send
    unsent by simp

lemma create_cpfp_send: "create_cpfp_batch (cx_send f cx) = create_cpfp_batch cx"
  unfolding create_cpfp_batch_def save_cpfp_def fun_eq_iff build_speedup_send save_speedup_send noted_send calls_send
    unsent by simp

section \<open>What the dispatch phases send\<close>

definition agree :: "('s \<Rightarrow> bool) \<Rightarrow> ('s, failure, 'a) prog \<Rightarrow> ('s, failure, 'a) prog \<Rightarrow> bool" where
  "agree I m n \<longleftrightarrow> (\<forall>s. I s \<longrightarrow> m s = n s)"

lemma agree_same: "agree I m m"
  by (simp add: agree_def)

lemma agree_bind:
  assumes m: "runs I m P" and f: "\<And>x. P x \<Longrightarrow> agree I (f x) (g x)"
  shows "agree I (pbind m f) (pbind m g)"
  unfolding agree_def
proof (intro allI impI)
  fix s assume "I s"
  then show "pbind m f s = pbind m g s"
    using runsD [OF m] f unfolding agree_def pbind_run by (cases "m s") (auto split: sum.split)
qed

lemma agree_seq: "runs I m P \<Longrightarrow> agree I n k \<Longrightarrow> agree I (pseq m n) (pseq m k)"
  unfolding pseq_def by (erule agree_bind)

lemma agree_first: "agree I m n \<Longrightarrow> agree I (pbind m f) (pbind n f)"
  by (simp add: agree_def pbind_run)

lemma agree_first_seq: "agree I m n \<Longrightarrow> runs I n P \<Longrightarrow> agree I k l \<Longrightarrow> agree I (pseq m k) (pseq n l)"
  using agree_seq [of I n P k l] by (simp add: agree_def pseq_run)

lemma agree_if: "(b \<Longrightarrow> agree I m m') \<Longrightarrow> (\<not> b \<Longrightarrow> agree I n n') \<Longrightarrow> agree I (if b then m else n) (if b then m' else n')"
  by simp

text \<open>Two nodes that answer alike for the transaction of a live record that may be sent.\<close>

definition alike :: "dispatcher_settings \<Rightarrow> (transaction \<Rightarrow> ('e, unit) ext_prog)
    \<Rightarrow> (transaction \<Rightarrow> ('e, unit) ext_prog) \<Rightarrow> coordinated_tx \<Rightarrow> bool" where
  "alike settings f g t \<longleftrightarrow>
     (\<not> is_terminal (ct_state t) \<longrightarrow> validate_failure settings t = None \<longrightarrow> f (ct_tx t) = g (ct_tx t))"

lemma alike_property: "record_property (alike settings f g) (\<lambda>x. True)"
  by unfold_locales (auto simp: alike_def evolves_def validate_failure_def)

lemmas alike_runs = record_property.runs_review_active [OF alike_property]
  record_property.runs_review_speedups [OF alike_property] record_property.runs_dispatch_pending [OF alike_property]
  record_property.runs_dispatch_pending_speedups [OF alike_property]

lemma run_dispatcher_send:
  assumes "\<And>t. t \<in> set txs \<Longrightarrow> validate_failure (bs_dispatcher (cx_settings cx)) t = None \<Longrightarrow> f (ct_tx t) = g (ct_tx t)"
  shows "run_dispatcher (cx_send f cx) txs = run_dispatcher (cx_send g cx) txs"
proof -
  have "dispatch_loop ds st (sv\<lparr>sv_send_transaction := f\<rparr>) mc ts rs = dispatch_loop ds st (sv\<lparr>sv_send_transaction := g\<rparr>) mc ts rs"
    if "ts = filter (\<lambda>t. validate_failure (bs_dispatcher (cx_settings cx)) t = None) txs"
    for ds and st :: store and sv and mc ts rs
    by (rule dispatch_loop_send) (use assms that in simp)
  note loop = this [OF refl]
  show ?thesis
    unfolding run_dispatcher_def dispatch_def validate_txs_eq Let_def prod.case unsent
    unfolding cx_send_services loop ..
qed

lemma run_dispatcher_agree:
  assumes "\<forall>t \<in> set txs. alike (bs_dispatcher (cx_settings cx)) f g t \<and> \<not> is_terminal (ct_state t)"
  shows "agree I (run_dispatcher (cx_send f cx) txs) (run_dispatcher (cx_send g cx) txs)"
  unfolding agree_def
  by (subst run_dispatcher_send [of txs cx f g]) (use assms in \<open>auto simp: alike_def\<close>)

lemma dispatch_pending_agree:
  fixes cx :: "'e engine_context" and f g defines "X \<equiv> alike (bs_dispatcher (cx_settings cx)) f g"
  shows "agree (in_store (store_ok X)) (dispatch_pending (cx_send f cx)) (dispatch_pending (cx_send g cx))"
proof -
  note rp = alike_property [of "bs_dispatcher (cx_settings cx)" f g, folded X_def]
  show ?thesis
    unfolding dispatch_pending_def dispatch_batch_def calls_send noted_send limit_send handle_send unsent Let_def
    by (intro agree_bind [OF runs_height] agree_bind [OF runs_on_store [OF record_property.runs_active [OF rp]]]
        agree_if agree_same agree_bind [OF record_property.runs_rate_noted [OF rp]] agree_bind [OF runs_rate_limit]
        agree_first run_dispatcher_agree)
      (auto simp: X_def)
qed

lemma dispatch_pending_speedups_agree:
  fixes cx :: "'e engine_context" and f g defines "X \<equiv> alike (bs_dispatcher (cx_settings cx)) f g"
  shows "agree (in_store (store_ok X)) (dispatch_pending_speedups (cx_send f cx)) (dispatch_pending_speedups (cx_send g cx))"
proof -
  note rp = alike_property [of "bs_dispatcher (cx_settings cx)" f g, folded X_def]
  show ?thesis
    unfolding dispatch_pending_speedups_def calls_send limit_send handle_send unsent Let_def
    by (intro agree_bind [OF runs_height] agree_bind [OF runs_on_store [OF record_property.runs_listed [OF rp]]]
        agree_if agree_same agree_bind [OF runs_rate_limit] agree_first run_dispatcher_agree)
      (auto simp: X_def)
qed

section \<open>What a tick sends\<close>

lemma cleanup_ok: "store_ok X s \<Longrightarrow> store_ok X (cleanup_news h s)"
  unfolding cleanup_news_def store_ok_def structured_def queue_ok_def by (simp add: distinct_map_filter)

lemma runs_is_ready: "runs (in_store I) (is_ready cx) (\<lambda>_. True)"
  unfolding is_ready_def by (rule runs_call)

text \<open>
  C7. A tick broadcasts only what was stored before it and may be sent: two nodes that answer alike for
  the transactions of the records that were not settled when the tick began, have inputs and are
  within the weight limit, give the same tick, whatever they would answer for any other
  transaction. A settled transaction is not sent again, and a speedup that this tick builds is
  not sent by it.
\<close>

theorem tick_sends_only_stored:
  assumes "store_ok (\<lambda>t. True) (w_store w)"
    and "\<And>x t. st_txs (w_store w) x = Some t \<Longrightarrow> \<not> is_terminal (ct_state t)
      \<Longrightarrow> validate_failure (bs_dispatcher (cx_settings cx)) t = None \<Longrightarrow> send1 (ct_tx t) = send2 (ct_tx t)"
  shows "tick (cx_send send1 cx) w = tick (cx_send send2 cx) w"
proof -
  let ?X = "alike (bs_dispatcher (cx_settings cx)) send1 send2"
  have "store_ok ?X (w_store w)" using assms unfolding store_ok_def alike_def by blast
  moreover have "agree (in_store (store_ok ?X)) (tick (cx_send send1 cx)) (tick (cx_send send2 cx))"
    unfolding tick_def calls_send review_send review_speedups_send boost_send create_cpfp_send unsent
    by (intro agree_seq [OF runs_call] agree_bind [OF runs_is_ready] agree_bind [OF runs_height] agree_if agree_same
        agree_seq [OF runs_on_store [OF runs_modify [where P = "\<lambda>_. True"]]] cleanup_ok TrueI
        agree_seq [OF alike_runs(1)] agree_seq [OF alike_runs(2)]
        agree_first_seq [OF dispatch_pending_agree alike_runs(3)] agree_first [OF dispatch_pending_speedups_agree])
  ultimately show ?thesis by (simp add: agree_def)
qed

text \<open>The node may refuse the failed transaction 3, which is stored: the tick does not offer it.\<close>

definition settled_and_due :: store where
  "settled_and_due = empty_store\<lparr>st_txs :=
     [5 \<mapsto> plain_record 5 Normal ToDispatch,
      3 \<mapsto> (plain_record 3 Normal Failed)\<lparr>ct_settled_block_height := Some 90\<rparr>]\<rparr>"

lemma settled_and_due_ok: "store_ok (\<lambda>t. True) settled_and_due"
  by (auto simp: settled_and_due_def store_ok_def structured_def sound_def queue_ok_def empty_store_def plain_record_def)

theorem tick_sends_only_stored_witness:
  "tick (cx_send (\<lambda>tx log. (Inr (), log @ [tx])) (demo_context (demo_services (\<lambda>x. False)))) (demo_world settled_and_due)
   = tick (cx_send (\<lambda>tx log. if tx = plain_tx 5 then (Inr (), log @ [tx]) else (Inl ''refused'', log))
       (demo_context (demo_services (\<lambda>x. False)))) (demo_world settled_and_due)"
proof (rule tick_sends_only_stored)
  show "store_ok (\<lambda>t. True) (w_store (demo_world settled_and_due))"
    using settled_and_due_ok by (simp add: demo_world_def)
qed (auto simp: demo_world_def settled_and_due_def plain_record_def fun_eq_iff split: if_splits)

text \<open>
  C37. Only a tick broadcasts: no call of the client (dispatching with or without a speedup,
  cancelling, adding funding, acknowledging or reading news, monitoring, queries) sends a
  transaction, so each gives the same result and state whatever node it runs with.
\<close>

theorem client_calls_never_send:
  "dispatch_tx (cx_send f cx) = dispatch_tx cx \<and> dispatch_without_speedup (cx_send f cx) = dispatch_without_speedup cx
   \<and> cancel (cx_send f cx) = cancel cx \<and> add_funding (cx_send f cx) = add_funding cx
   \<and> ack_any_news (cx_send f cx) = ack_any_news cx \<and> get_all_news (cx_send f cx) = get_all_news cx
   \<and> monitor (cx_send f cx) = monitor cx \<and> get_transaction (cx_send f cx) = get_transaction cx"
proof -
  have register: "register_tx (cx_send f cx) = register_tx cx"
    unfolding register_tx_def fun_eq_iff calls_send unsent by simp
  show ?thesis
    unfolding dispatch_tx_def dispatch_with_speedup_def dispatch_without_speedup_def register cancel_def
      cancel_transactions_def add_funding_def ack_any_news_def get_all_news_def monitor_def get_transaction_def fun_eq_iff calls_send unsent
    by simp
qed

end
