(* ===== verification/Speedup_Facts.thy ===== *)
theory Speedup_Facts
  imports Build_Facts Program_Logic
begin

text \<open>
  The speedup engine as a whole: at most one speedup is built at a time, and the loop that
  settles the predecessors of a mined replacement ends and settles exactly them.
\<close>

section \<open>Waiting speedups\<close>

text \<open>The listed speedups that wait to be broadcast.\<close>

definition waiting :: "store \<Rightarrow> txid list" where
  "waiting s = filter (\<lambda>x. tx_state s x = Some ToDispatch) (st_speedup_list s)"

lemma waiting_empty: "waiting s = [] \<longleftrightarrow> (\<forall>t \<in> set (get_speedups_ordered s). ct_state t \<noteq> ToDispatch)"
  by (auto simp: waiting_def get_speedups_ordered_def mem_map_filter filter_empty_conv tx_state_def)

text \<open>Changes that no state of a record and not the list of speedups sees.\<close>

definition quiet :: "store \<Rightarrow> store \<Rightarrow> bool" where
  "quiet s s' \<longleftrightarrow> (keyed s \<longrightarrow> keyed s' \<and> tx_state s' = tx_state s \<and> st_speedup_list s' = st_speedup_list s)"

interpretation quiet: step_relation quiet
  by unfold_locales (auto simp: quiet_def)

interpretation quiet_world: step_relation "store_rel quiet"
  by (rule store_rel_step_relation) unfold_locales

lemmas quiet_outside = store_rel_same [OF quiet.step_relation_axioms]

lemma quiet_same: "st_txs s' = st_txs s \<Longrightarrow> st_speedup_list s' = st_speedup_list s \<Longrightarrow> quiet s s'"
  by (simp add: quiet_def keyed_def tx_state_def fun_eq_iff)

lemma quiet_note: "quiet s (note_news n s)"
  by (simp add: quiet_same)

lemma quiet_set_spent: "quiet s (set_spent op b s)"
  unfolding quiet_def using only_failsD(1,2) [OF only_fails_set_spent] tx_state_set_spent by blast

lemma quiet_marks: "quiet s (release_marks coordinator_funding_storage us s)"
  unfolding release_marks_def
  by (rule quiet.fold_related) (simp add: coordinator_funding_storage_def quiet_set_spent)

lemma quiet_get_funding: "keeps quiet (get_funding coordinator_funding_storage all)"
  unfolding get_funding_def
  by (auto intro!: quiet.keeps_rules keeps_intros quiet.keeps_modify quiet_set_spent simp: coordinator_funding_storage_def)

lemma quiet_combine: "get_combine_funding coordinator_funding_storage s = (u, s') \<Longrightarrow> quiet s s'"
  by (auto simp: get_combine_funding_def coordinator_funding_storage_def quiet.step_refl quiet_set_spent split: option.splits)

lemma quiet_at_cap: "quiet s (mark_at_cap x rate s)"
  by (auto simp: mark_at_cap_def get_tx_by_id_def quiet_def keyed_def update_tx_def tx_state_def fun_eq_iff split: option.split)

lemma quiet_pending: "quiet s (snd (get_pending_speedup_parents s))"
proof -
  have "st_txs (snd (fold pending_step xs (l, s'))) = st_txs s' \<and>
      st_speedup_list (snd (fold pending_step xs (l, s'))) = st_speedup_list s'" for xs l s'
    by (induction xs arbitrary: l s')
      (auto simp: pending_step_def remove_pending_speedup_parent_def split: option.split)
  then show ?thesis unfolding get_pending_speedup_parents_def by (intro quiet_same) simp_all
qed

lemma quiet_unpend: "quiet s (fold remove_pending_speedup_parent xs s)"
  by (rule quiet.fold_related) (simp add: quiet_same remove_pending_speedup_parent_def)

lemma quiet_build_tx: "keeps (store_rel quiet) (build_tx cx sds ins fee)"
  unfolding build_tx_def
  by (auto intro!: quiet_world.keeps_rules quiet_outside same_store_ext split: list.split)

lemma quiet_give_up: "keeps (store_rel quiet) (give_up cx a ins available fee)"
  unfolding give_up_def emit_insufficient_funds_def
  by (auto intro!: quiet_world.keeps_rules store_rel_on_store quiet.keeps_modify quiet_marks quiet_note)

lemma quiet_build_loop: "keeps (store_rel quiet) (build_loop cx a ins v)"
  unfolding keeps_def
proof
  fix w
  let ?run = "build_loop cx a ins v w"
  have "\<exists>ins' w1. store_rel quiet w w1 \<and> build_outcome cx a ins' w1 (fst ?run) (snd ?run)"
  proof (rule build_loop_outcome [where J = "\<lambda>_. store_rel quiet w"])
    show "store_rel quiet w w2" if "store_rel quiet w w1" "build_tx cx (args_data a) xs f w1 = (r, w2)" for xs f w1 r w2
      using quiet_build_tx [of cx "args_data a" xs f] that quiet_world.step_trans unfolding keeps_def by (metis snd_conv)
    show "store_rel quiet w w2" if "store_rel quiet w w1" "combine_step xs w1 u w2" for xs w1 u w2
    proof -
      have "store_rel quiet w1 w2" using that(2) quiet_combine by (auto simp: combine_step_def store_rel_def)
      then show ?thesis by (rule quiet_world.step_trans [OF that(1)])
    qed
  qed (simp_all add: quiet_world.step_refl)
  then obtain ins' w1 where out: "store_rel quiet w w1" "build_outcome cx a ins' w1 (fst ?run) (snd ?run)" by blast
  have "store_rel quiet w1 (snd ?run)"
    using out(2) quiet_build_tx quiet_give_up unfolding build_outcome_def keeps_def by (metis snd_conv)
  then show "store_rel quiet w (snd ?run)" by (rule quiet_world.step_trans [OF out(1)])
qed

lemma quiet_build_speedup: "keeps (store_rel quiet) (build_speedup cx entries inherited bump rate diff)"
  unfolding build_speedup_def Let_def emit_funding_not_available_def
  by (auto intro!: quiet_world.keeps_rules keeps_intros store_rel_on_store quiet.keeps_rules quiet_build_loop
      quiet_get_funding quiet.keeps_modify quiet_note split: option.split)

lemma quiet_rate: "keeps (store_rel quiet) (network_fee_rate_noted cx)"
proof -
  have "keeps (store_rel quiet) (on_ext m)" for m :: "('e, failure, 'b) prog"
    by (rule quiet_outside [OF same_store_ext])
  then show ?thesis
    unfolding network_fee_rate_noted_def network_fee_rate_def
    by (auto intro!: quiet_world.keeps_rules keeps_intros store_rel_on_store quiet.keeps_modify quiet_note)
qed

lemma quiet_call: "keeps (store_rel quiet) (call_monitor m)"
  by (rule quiet_outside [OF same_store_call])

section \<open>At most one speedup is built\<close>

text \<open>Nothing may be built while a speedup waits; otherwise at most one is.\<close>

definition one_more :: "store \<Rightarrow> store \<Rightarrow> bool" where
  "one_more s s' \<longleftrightarrow> (keyed s \<and> distinct (st_speedup_list s) \<longrightarrow> keyed s' \<and> distinct (st_speedup_list s')
     \<and> (waiting s \<noteq> [] \<longrightarrow> waiting s' = waiting s) \<and> (waiting s = [] \<longrightarrow> length (waiting s') \<le> 1))"

interpretation one_more: step_relation one_more
  by unfold_locales (auto simp: one_more_def)

lemma quiet_waiting: "quiet s s' \<Longrightarrow> keyed s \<Longrightarrow> waiting s' = waiting s"
  by (simp add: quiet_def waiting_def)

lemma quiet_one_more: "quiet s s' \<Longrightarrow> one_more s s'"
  using quiet_waiting [of s s'] by (auto simp: one_more_def quiet_def)

text \<open>Pre- and postcondition, for a store with \<open>n\<close> waiting speedups at most.\<close>

definition waits :: "nat \<Rightarrow> 'e world \<Rightarrow> bool" where
  "waits n w \<longleftrightarrow> keyed (w_store w) \<and> distinct (st_speedup_list (w_store w)) \<and> length (waiting (w_store w)) \<le> n"

definition leads :: "('s \<Rightarrow> bool) \<Rightarrow> ('s, 'f, 'a) prog \<Rightarrow> ('s \<Rightarrow> bool) \<Rightarrow> bool" where
  "leads I m J \<longleftrightarrow> (\<forall>s. I s \<longrightarrow> J (snd (m s)))"

lemma leads_quiet: "keeps (store_rel quiet) m \<Longrightarrow> n \<le> k \<Longrightarrow> leads (waits n) m (waits k)"
  unfolding leads_def waits_def keeps_def store_rel_def
  using quiet_waiting by (fastforce simp: quiet_def)

lemma leads_bind:
  "leads (waits n) m (waits i) \<Longrightarrow> (\<And>x. leads (waits i) (f x) (waits k)) \<Longrightarrow> i \<le> k \<Longrightarrow> leads (waits n) (pbind m f) (waits k)"
  unfolding leads_def pbind_def by (auto split: prod.splits sum.splits) (force simp: waits_def)+

lemma leads_seq:
  "leads (waits n) m (waits i) \<Longrightarrow> leads (waits i) k (waits j) \<Longrightarrow> i \<le> j \<Longrightarrow> leads (waits n) (pseq m k) (waits j)"
  unfolding pseq_def by (rule leads_bind)

lemma waiting_insert:
  assumes "waits 0 w"
  shows "waits 1 (w\<lparr>w_store := insert_speedup t (w_store w)\<rparr>)"
proof -
  let ?s = "w_store w" and ?s' = "insert_speedup t (w_store w)"
  have none: "tx_state ?s x \<noteq> Some ToDispatch" if "x \<in> set (st_speedup_list ?s)" for x
    using assms that by (auto simp: waits_def waiting_def filter_empty_conv)
  have "distinct (st_speedup_list ?s')" using assms by (simp add: waits_def insert_speedup_def)
  moreover have "set (waiting ?s') \<subseteq> {ct_txid t}"
    using none by (auto simp: waiting_def insert_speedup_def insert_tx_def tx_state_def split: if_splits)
  ultimately have "length (waiting ?s') \<le> 1"
    by (metis card_mono card_insert_disjoint card.empty distinct_card distinct_filter empty_iff finite.emptyI
        finite_insert One_nat_def waiting_def)
  then show ?thesis using assms by (auto simp: waits_def insert_speedup_def insert_tx_def keyed_def)
qed

lemma leads_save_speedup: "leads (waits 0) (save_speedup cx tx fi k h) (waits 1)"
  unfolding save_speedup_def
proof (rule leads_seq [where i = 1])
  show "leads (waits 0) (on_store (pmodify (insert_speedup (speedup_record tx fi k h)))) (waits 1)"
    unfolding leads_def by (auto simp: on_store_run prog_simps intro!: waiting_insert [simplified])
qed (auto intro!: leads_quiet quiet_call)

lemma quiet_noted: "keeps (store_rel quiet) (on_store (pmodify (note_news n)))"
  by (intro store_rel_on_store quiet.keeps_modify quiet_note)

lemma leads_save_boost: "leads (waits 0) (save_boost cx h tip c rbf bump entries r) (waits 1)"
  unfolding save_boost_def Let_def
proof (rule leads_bind [where i = 0], goal_cases)
  case 1
  show ?case by (rule leads_quiet) (auto intro!: quiet_world.keeps_rules)
next
  case (2 k)
  show ?case
  proof (rule leads_seq [OF leads_save_speedup leads_quiet])
    show "keeps (store_rel quiet) (if br_capped r
        then pseq (on_store (pmodify (note_news n))) (if rbf then on_store (pmodify (mark_at_cap x m)) else pret ())
        else pret ())" for n x m
      by (auto intro!: quiet_world.keeps_rules quiet_noted store_rel_on_store quiet.keeps_modify quiet_at_cap)
  qed simp_all
qed simp

lemma leads_save_cpfp: "leads (waits 0) (save_cpfp cx batch entries bump r) (waits 1)"
  unfolding save_cpfp_def Let_def
proof (rule leads_seq [where i = 0], goal_cases)
  case 1
  show ?case by (intro leads_quiet store_rel_on_store quiet.keeps_modify quiet_unpend) simp
next
  case 2
  show ?case
  proof (rule leads_seq [where i = 0], goal_cases)
    case 1
    show ?case by (rule leads_quiet) (auto intro!: quiet_world.keeps_rules quiet_noted)
  next
    case 2
    show ?case
      by (rule leads_bind [where i = 0, OF leads_quiet leads_save_speedup]) (simp_all add: monitor_height_def quiet_call)
  qed simp
qed simp

lemma quiet_height: "keeps (store_rel quiet) (monitor_height cx)"
  unfolding monitor_height_def by (rule quiet_call)

lemma quiet_listed: "keeps (store_rel quiet) (on_store (pget f))"
  by (intro store_rel_on_store quiet.keeps_get)

lemma leads_boost: "leads (waits 0) (boost_if_stale cx skip) (waits 1)"
proof (cases skip)
  case True
  then show ?thesis by (auto simp: boost_if_stale_def intro!: leads_quiet quiet_world.keeps_ret)
next
  case False
  show ?thesis
    unfolding boost_if_stale_def if_not_P [OF False]
  proof (rule leads_bind [OF leads_quiet [OF quiet_height le_refl]], rule leads_bind [OF leads_quiet [OF quiet_listed le_refl]],
      goal_cases)
    case (1 h all)
    show ?case
    proof (cases "boost_target (bs_speedup (cx_settings cx)) (bs_fee (cx_settings cx)) h all")
      case None
      then show ?thesis by (auto intro!: leads_quiet quiet_world.keeps_ret)
    next
      case (Some y)
      obtain tip c rbf where y: "y = (tip, c, rbf)" by (cases y) auto
      have save: "leads (waits 0) (case built of None \<Rightarrow> pret () | Some r \<Rightarrow> save_boost cx h tip c rbf bump entries r) (waits 1)"
        for built bump entries
        by (cases built) (auto intro!: leads_quiet quiet_world.keeps_ret leads_save_boost [simplified])
      show ?thesis
        unfolding Some y option.case prod.case Let_def
        by (rule leads_bind [OF leads_quiet [OF quiet_rate le_refl]], unfold case_prod_unfold,
            rule leads_bind [OF leads_quiet [OF quiet_build_speedup le_refl] save]) simp_all
    qed
  qed simp_all
qed

lemma leads_create: "leads (waits 0) (create_cpfp_batch cx) (waits 1)"
proof -
  have stop: "leads (waits 0) (pret ()) (waits 1)" by (intro leads_quiet quiet_world.keeps_ret) simp
  have parents: "keeps (store_rel quiet) (on_store (pstep get_pending_speedup_parents))"
    by (intro store_rel_on_store quiet.keeps_step quiet_pending)
  have leads_if: "leads I (if b then m else n) J" if "leads I m J" "leads I n J" for b I J and m n :: "('a, unit) world_prog"
    using that by simp
  have save: "leads (waits 0) (case built of None \<Rightarrow> pret () | Some r \<Rightarrow> save_cpfp cx batch entries bump r) (waits 1)"
    for built batch bump entries
    by (cases built) (use stop leads_save_cpfp in auto)
  show ?thesis
    unfolding create_cpfp_batch_def Let_def case_prod_unfold
    by (intro leads_bind [OF leads_quiet [OF parents le_refl]] leads_bind [OF leads_quiet [OF quiet_listed le_refl]]
        leads_bind [OF leads_quiet [OF quiet_rate le_refl]] leads_bind [OF leads_quiet [OF quiet_build_speedup le_refl]]
        leads_if stop save) simp_all
qed

text \<open>With a speedup waiting, neither writes a record.\<close>

lemma boost_blocked:
  assumes "waiting (w_store w) \<noteq> []"
  shows "w_store (snd (boost_if_stale cx skip w)) = w_store w"
proof -
  have "boost_target sset fset h (get_speedups_ordered (w_store w)) = None" for sset fset h
    using assms by (auto simp: boost_target_def waiting_empty)
  moreover have "w_store (snd (monitor_height cx w)) = w_store w"
    using same_store_call unfolding monitor_height_def keeps_def same_store_def by blast
  ultimately show ?thesis
    by (auto simp: boost_if_stale_def prog_simps split: prod.split sum.split)
qed

lemma create_blocked:
  assumes "waiting (w_store w) \<noteq> []" "keyed (w_store w)"
  shows "quiet (w_store w) (w_store (snd (create_cpfp_batch cx w)))"
proof -
  let ?s' = "snd (get_pending_speedup_parents (w_store w))"
  have "waiting ?s' \<noteq> []" using quiet_waiting [OF quiet_pending assms(2)] assms(1) by simp
  then have "\<exists>t \<in> set (get_speedups_ordered ?s'). ct_state t = ToDispatch" by (simp add: waiting_empty)
  then have "w_store (snd (create_cpfp_batch cx w)) = ?s'" by (simp add: create_cpfp_batch_def prog_simps)
  then show ?thesis by (simp add: quiet_pending)
qed

lemma one_more_keeps:
  assumes "leads (waits 0) m (waits 1)"
    and "\<And>w. waiting (w_store w) \<noteq> [] \<Longrightarrow> keyed (w_store w) \<Longrightarrow> quiet (w_store w) (w_store (snd (m w)))"
  shows "keeps (store_rel one_more) m"
  unfolding keeps_def
proof
  fix w
  show "store_rel one_more w (snd (m w))"
  proof (cases "keyed (w_store w) \<and> waiting (w_store w) \<noteq> []")
    case True
    then show ?thesis using assms(2) by (simp add: store_rel_def quiet_one_more)
  next
    case False
    then show ?thesis using assms(1) unfolding leads_def waits_def store_rel_def one_more_def by auto
  qed
qed

text \<open>
  C15. At most one speedup is in the making: the last two steps of a tick, the boost of a stale speedup
  and the CPFP for the waiting parents, together add at most one speedup that waits to be
  broadcast, and none at all while one waits already.
\<close>

theorem build_steps_one_at_a_time:
  assumes "keyed (w_store w)" and "distinct (st_speedup_list (w_store w))"
    and "pseq (boost_if_stale cx skip) (create_cpfp_batch cx) w = (r, w')"
  shows "(waiting (w_store w) \<noteq> [] \<longrightarrow> waiting (w_store w') = waiting (w_store w))
    \<and> length (waiting (w_store w')) \<le> max 1 (length (waiting (w_store w)))"
proof -
  have rel: "step_relation (store_rel one_more :: 'a world \<Rightarrow> 'a world \<Rightarrow> bool)"
    by (rule store_rel_step_relation) unfold_locales
  have "keeps (store_rel one_more) (boost_if_stale cx skip)"
    by (rule one_more_keeps [OF leads_boost]) (simp add: boost_blocked quiet.step_refl)
  moreover have "keeps (store_rel one_more) (create_cpfp_batch cx)"
    by (rule one_more_keeps [OF leads_create create_blocked])
  ultimately have "keeps (store_rel one_more) (pseq (boost_if_stale cx skip) (create_cpfp_batch cx))"
    by (rule step_relation.keeps_seq [OF rel])
  then have "one_more (w_store w) (w_store w')"
    using assms(3) unfolding keeps_def store_rel_def by (metis snd_conv)
  then show ?thesis using assms(1,2) by (auto simp: one_more_def)
qed

text \<open>The CPFP 10 waits, so the parent 2 stays without one for this tick.\<close>

definition blocked_world :: "transaction list world" where
  "blocked_world = demo_world (reserving_store\<lparr>st_pending_parents := [2],
     st_txs := (st_txs reserving_store)(2 \<mapsto> plain_record 2 (NeedsSpeedup (fst (hd one_parent))) InMempool)\<rparr>)"

theorem build_steps_one_at_a_time_witness:
  "waiting (w_store (snd (pseq (boost_if_stale (demo_context (demo_services (\<lambda>x. False))) False)
      (create_cpfp_batch (demo_context (demo_services (\<lambda>x. False)))) blocked_world))) = [10]"
proof -
  have k: "keyed (w_store blocked_world)" "distinct (st_speedup_list (w_store blocked_world))"
    by (simp_all add: keyed_def blocked_world_def demo_world_def reserving_store_def plain_cpfp_def plain_record_def)
  have "waiting (w_store blocked_world) = [10]"
    by (simp add: waiting_def tx_state_def blocked_world_def demo_world_def reserving_store_def plain_cpfp_def
        plain_record_def)
  then show ?thesis using build_steps_one_at_a_time [OF k prod.collapse [symmetric]] by simp
qed

section \<open>Predecessors of a mined replacement\<close>

text \<open>The ids along the chain of replaced speedups, up to the last.\<close>

inductive replaced_chain :: "store \<Rightarrow> txid \<Rightarrow> txid list \<Rightarrow> bool" for s where
  last_link: "older_replaced x s = None \<Longrightarrow> replaced_chain s x [x]"
| next_link: "older_replaced x s = Some y \<Longrightarrow> replaced_chain s y xs \<Longrightarrow> replaced_chain s x (x # xs)"

definition older_link :: "store \<Rightarrow> (txid \<times> txid) set" where
  "older_link s = {(y, x). older_replaced x s = Some y}"

lemma older_replaced_in_dom: "older_replaced x s = Some y \<Longrightarrow> x \<in> dom (st_txs s)"
  by (auto simp: older_replaced_def get_tx_by_id_def split: option.splits)

lemma older_link_wf:
  assumes "finite (dom (st_txs s))" "acyclic (older_link s)"
  shows "wf (older_link s)"
proof (rule finite_acyclic_wf [OF _ assms(2)])
  have "older_link s \<subseteq> (\<lambda>x. (the (older_replaced x s), x)) ` dom (st_txs s)"
    using older_replaced_in_dom by (force simp: older_link_def)
  then show "finite (older_link s)" using assms(1) finite_surj by blast
qed

lemma replaced_chain_exists:
  assumes "wf (older_link s)"
  shows "\<exists>xs. replaced_chain s x xs"
  using assms
proof (induction x rule: wf_induct_rule)
  case (less x)
  show ?case
  proof (cases "older_replaced x s")
    case None
    then show ?thesis using last_link by blast
  next
    case (Some y)
    then show ?thesis using less [of y] next_link by (fastforce simp: older_link_def)
  qed
qed

lemma replaced_chain_below:
  "replaced_chain s x xs \<Longrightarrow> y \<in> set xs \<longleftrightarrow> (y, x) \<in> (older_link s)\<^sup>*"
proof (induction rule: replaced_chain.induct)
  case (last_link x)
  then have "(y, x) \<in> (older_link s)\<^sup>* \<longleftrightarrow> y = x"
    by (auto simp: older_link_def elim: rtranclE)
  then show ?case by simp
next
  case (next_link x z xs)
  then have "(y, x) \<in> (older_link s)\<^sup>* \<longleftrightarrow> y = x \<or> (y, z) \<in> (older_link s)\<^sup>*"
    by (auto simp: older_link_def elim: rtranclE intro: rtrancl_into_rtrancl)
  then show ?case using next_link.IH by simp
qed

lemma replaced_chain_distinct:
  assumes "acyclic (older_link s)"
  shows "replaced_chain s x xs \<Longrightarrow> distinct xs"
proof (induction rule: replaced_chain.induct)
  case (next_link x y xs)
  have "(x, y) \<notin> (older_link s)\<^sup>*"
    using assms next_link(1) by (auto simp: acyclic_def older_link_def dest: rtrancl_into_trancl1)
  then show ?case using next_link replaced_chain_below [OF next_link(2)] by simp
qed simp

lemma replaced_chain_dom: "replaced_chain s x xs \<Longrightarrow> set (butlast xs) \<subseteq> dom (st_txs s)"
  by (induction rule: replaced_chain.induct) (auto dest: older_replaced_in_dom)

text \<open>Any chain without a cycle fits the fuel.\<close>

lemma replaced_chain_length:
  assumes "finite (dom (st_txs s))" "acyclic (older_link s)" "scan_spec scan" "replaced_chain s x xs"
  shows "length xs \<le> Suc (length (scan (st_txs s)))"
proof -
  have "length (butlast xs) = card (set (butlast xs))"
    using replaced_chain_distinct [OF assms(2,4)] by (simp add: distinct_butlast distinct_card)
  also have "\<dots> \<le> card (dom (st_txs s))" by (rule card_mono [OF assms(1) replaced_chain_dom [OF assms(4)]])
  also have "\<dots> = length (scan (st_txs s))"
    using assms(1,3) by (metis distinct_card scan_spec_def)
  finally show ?thesis by simp
qed

text \<open>Failing a transaction does not change the links.\<close>

lemma older_replaced_failed:
  assumes "keyed s" "only_fails s s'"
  shows "older_replaced x s' = older_replaced x s"
proof -
  have eq: "(case ct_kind t' of Speedup (RBF older _ _) \<Rightarrow> Some older | _ \<Rightarrow> None) =
      (case ct_kind t of Speedup (RBF older _ _) \<Rightarrow> Some older | _ \<Rightarrow> None)" if "fails_to t t'" for t t'
  proof -
    have "erase_kind (ct_kind t') = erase_kind (ct_kind t)"
    proof -
      have "ct_kind (skeleton t') = ct_kind (skeleton t)" using that by (simp add: fails_to_def)
      then show ?thesis by (simp add: skeleton_def)
    qed
    then show ?thesis
      by (cases "ct_kind t"; cases "ct_kind t'") (auto split: speedup_kind.splits elim!: map_context.elims)
  qed
  from only_failsD(3) [OF assms(2,1), of x] show ?thesis
    by (cases "st_txs s x"; cases "st_txs s' x") (auto simp: older_replaced_def get_tx_by_id_def eq)
qed

text \<open>A node that forgets a transaction on request.\<close>

definition cancels :: "'e engine_context \<Rightarrow> bool" where
  "cancels cx \<longleftrightarrow> (\<forall>d e. fst (sv_cancel (cx_services cx) d e) = Inr ())"

lemma settle_Failed_state:
  assumes "keyed s" "settle_tx x Failed h s = (r, s')"
  shows "r = Inr ()" "only_fails s s'"
    "tx_state s' y = (if y = x \<and> (\<exists>st. tx_state s x = Some st \<and> failable st) then Some Failed else tx_state s y)"
  using settle_tx_Failed [OF assms(1), of x h] assms(2) by (auto simp: tx_state_def failed_at_def failable_def)

text \<open>One round of the loop.\<close>

lemma remove_replaced_round:
  assumes "keyed (w_store w)"
  obtains (error) e w1 where "remove_replaced_loop cx (Suc fuel) c h x w = (Inl (Err e), w1)" "\<not> cancels cx"
  | (go) w1 where "remove_replaced_loop cx (Suc fuel) c h x w =
        (case older_replaced x (w_store w) of None \<Rightarrow> (Inr (), w1) | Some y \<Rightarrow> remove_replaced_loop cx fuel c h y w1)"
      "only_fails (w_store w) (w_store w1)"
      "\<And>y. tx_state (w_store w1) y = (if y = x \<and> (\<exists>st. tx_state (w_store w) x = Some st \<and> failable st)
         then Some Failed else tx_state (w_store w) y)"
proof -
  let ?call = "sv_cancel (cx_services cx) (Transactions [x] c None) (w_ext w)"
  obtain a e where call: "?call = (a, e)" by fastforce
  show thesis
  proof (cases a)
    case (Inl msg)
    then have "remove_replaced_loop cx (Suc fuel) c h x w = (Inl (Err (MonitorError msg)), w\<lparr>w_ext := e\<rparr>)"
      using call by (simp add: prog_simps call_monitor_def)
    moreover have "\<not> cancels cx" using call Inl unfolding cancels_def by (metis fst_conv sum.distinct(1))
    ultimately show thesis by (rule error)
  next
    case (Inr u)
    obtain r s' where st: "settle_tx x Failed h (w_store w) = (r, s')" by fastforce
    note settled = settle_Failed_state [OF assms st]
    have "remove_replaced_loop cx (Suc fuel) c h x w =
        (case older_replaced x (w_store w) of None \<Rightarrow> (Inr (), w\<lparr>w_ext := e, w_store := s'\<rparr>)
         | Some y \<Rightarrow> remove_replaced_loop cx fuel c h y (w\<lparr>w_ext := e, w_store := s'\<rparr>))"
      using call Inr st settled(1) by (simp add: prog_simps call_monitor_def split: option.split)
    then show thesis using settled by (intro go [of "w\<lparr>w_ext := e, w_store := s'\<rparr>"]) auto
  qed
qed

lemma remove_replaced_loop_run:
  assumes "replaced_chain s x xs" "length xs \<le> fuel" "keyed (w_store w)"
    and "\<And>y. older_replaced y (w_store w) = older_replaced y s"
  shows "fst (remove_replaced_loop cx fuel c h x w) \<noteq> Inl NoReturn
    \<and> (cancels cx \<longrightarrow> fst (remove_replaced_loop cx fuel c h x w) = Inr ()
      \<and> (\<forall>y. tx_state (w_store (snd (remove_replaced_loop cx fuel c h x w))) y =
           (if y \<in> set xs \<and> (\<exists>st. tx_state (w_store w) y = Some st \<and> failable st) then Some Failed
            else tx_state (w_store w) y)))"
  using assms
proof (induction arbitrary: fuel w rule: replaced_chain.induct)
  case (last_link x)
  then obtain n where n: "fuel = Suc n" by (cases fuel) auto
  from last_link.prems(2) show ?case
  proof (cases rule: remove_replaced_round [of w cx n c h x])
    case (error e w1)
    then show ?thesis by (simp add: n del: remove_replaced_loop.simps)
  next
    case (go w1)
    then show ?thesis using last_link by (auto simp: n simp del: remove_replaced_loop.simps)
  qed
next
  case (next_link x y xs)
  then obtain n where n: "fuel = Suc n" by (cases fuel) auto
  from next_link.prems(2) show ?case
  proof (cases rule: remove_replaced_round [of w cx n c h x])
    case (error e w1)
    then show ?thesis by (simp add: n del: remove_replaced_loop.simps)
  next
    case (go w1)
    have k: "keyed (w_store w1)" using only_failsD(1) [OF go(2) next_link.prems(2)] .
    have links: "older_replaced z (w_store w1) = older_replaced z s" for z
      using older_replaced_failed [OF next_link.prems(2) go(2)] next_link.prems(3) by simp
    have "remove_replaced_loop cx (Suc n) c h x w = remove_replaced_loop cx n c h y w1"
      using go(1) next_link.hyps(1) next_link.prems(3) by (simp del: remove_replaced_loop.simps)
    then show ?thesis using next_link.IH [of n w1, OF _ k links] next_link.prems(1) go(3)
      unfolding n by (auto simp: failable_def simp del: remove_replaced_loop.simps split: if_splits)
  qed
qed

text \<open>
  C26. The removal of replaced speedups ends: when a replacement was finalized, the loop that walks
  along the chain of speedups it replaced, each naming an older one, returns, with a result or with an
  error of the monitor. The chain has no cycle, and the scan of the backend lists the records.
\<close>

theorem remove_replaced_terminates:
  assumes "keyed (w_store w)" and "finite (dom (st_txs (w_store w)))" and "scan_spec (cx_scan cx)"
    and "acyclic (older_link (w_store w))"
  shows "fst (remove_replaced_rbf cx t current_height w) \<noteq> Inl NoReturn"
proof (cases "\<exists>x ins c. ct_kind t = Speedup (RBF x ins c)")
  case True
  then obtain x ins c where t: "ct_kind t = Speedup (RBF x ins c)" by blast
  obtain xs where xs: "replaced_chain (w_store w) x xs"
    using replaced_chain_exists [OF older_link_wf [OF assms(2,4)]] by blast
  show ?thesis
    using remove_replaced_loop_run [OF xs replaced_chain_length [OF assms(2,4,3) xs] assms(1) refl] t
    by (simp add: remove_replaced_rbf_def prog_simps del: remove_replaced_loop.simps)
qed (auto simp: remove_replaced_rbf_def prog_simps split: tx_kind.split speedup_kind.split)

text \<open>
  C25. What it settles: exactly the speedups along that chain, from the one directly replaced to the oldest,
  that are not yet mined, become \<open>Failed\<close>; all other transactions keep their state. The monitor
  accepts each cancellation.
\<close>

theorem remove_replaced_exact:
  assumes "keyed (w_store w)" and "finite (dom (st_txs (w_store w)))" and "scan_spec (cx_scan cx)"
    and "acyclic (older_link (w_store w))" and "cancels cx"
    and "ct_kind t = Speedup (RBF replaces new_inputs c)"
  shows "\<exists>w'. remove_replaced_rbf cx t current_height w = (Inr (), w')
    \<and> (\<forall>y. tx_state (w_store w') y =
         (if (y, replaces) \<in> (older_link (w_store w))\<^sup>* \<and> tx_state (w_store w) y \<in> {Some ToDispatch, Some InMempool}
          then Some Failed else tx_state (w_store w) y))"
proof -
  obtain xs where xs: "replaced_chain (w_store w) replaces xs"
    using replaced_chain_exists [OF older_link_wf [OF assms(2,4)]] by blast
  let ?run = "remove_replaced_loop cx (Suc (length (cx_scan cx (st_txs (w_store w))))) (ct_context t) current_height
      replaces w"
  note loop = remove_replaced_loop_run [OF xs replaced_chain_length [OF assms(2,4,3) xs] assms(1) refl,
      of cx "ct_context t" current_height]
  have "remove_replaced_rbf cx t current_height w = (Inr (), snd ?run)"
    using loop assms(5,6) by (simp add: remove_replaced_rbf_def prog_simps prod_eq_iff del: remove_replaced_loop.simps)
  moreover have "tx_state (w_store (snd ?run)) y =
      (if (y, replaces) \<in> (older_link (w_store w))\<^sup>* \<and> tx_state (w_store w) y \<in> {Some ToDispatch, Some InMempool}
       then Some Failed else tx_state (w_store w) y)" for y
    using loop assms(5) replaced_chain_below [OF xs, of y]
    by (auto simp: failable_def simp del: remove_replaced_loop.simps)
  ultimately show ?thesis by blast
qed

text \<open>
  30, just finalized, replaced 20, which is still listed as in the mempool, and 20 had replaced 10,
  which failed before.
\<close>

definition plain_rbf :: "txid \<Rightarrow> txid \<Rightarrow> txid \<Rightarrow> transaction_state \<Rightarrow> coordinated_tx" where
  "plain_rbf x old fund st = plain_record x (Speedup (RBF old []
     \<lparr>sc_funding_inputs = [plain_utxo fund], sc_replaced_by = None, sc_bump_fee_used = Fin 1,
      sc_parent_data = [], sc_spent = False\<rparr>)) st"

definition chain_world :: "transaction list world" where
  "chain_world = demo_world (empty_store\<lparr>st_txs :=
     [10 \<mapsto> plain_cpfp 10 [2] 90 Failed, 20 \<mapsto> plain_rbf 20 10 90 InMempool, 30 \<mapsto> plain_rbf 30 20 90 Finalized]\<rparr>)"

lemma chain_world_links: "older_link (w_store chain_world) = {(10, 20), (20, 30)}"
  by (auto simp: older_link_def older_replaced_def chain_world_def demo_world_def get_tx_by_id_def plain_cpfp_def
      plain_rbf_def plain_record_def empty_store_def split: option.splits if_splits)

lemma chain_world_ok:
  "keyed (w_store chain_world)" "finite (dom (st_txs (w_store chain_world)))"
  "acyclic (older_link (w_store chain_world))" "scan_spec (cx_scan (demo_context sv))"
proof -
  show "acyclic (older_link (w_store chain_world))"
    unfolding chain_world_links by (rule acyclic_subset [OF wf_acyclic [OF wf_less_than]]) auto
qed (auto simp: keyed_def chain_world_def demo_world_def plain_cpfp_def plain_rbf_def plain_record_def
    demo_context_def sorted_scan_spec)

theorem remove_replaced_terminates_witness:
  "fst (remove_replaced_rbf (demo_context (demo_services (\<lambda>x. False))) (plain_rbf 30 20 90 Finalized) 120 chain_world)
    \<noteq> Inl NoReturn"
  by (rule remove_replaced_terminates [OF chain_world_ok(1,2,4,3)])

theorem remove_replaced_exact_witness:
  "\<exists>w'. remove_replaced_rbf (demo_context (demo_services (\<lambda>x. False))) (plain_rbf 30 20 90 Finalized) 120 chain_world
      = (Inr (), w') \<and> tx_state (w_store w') 20 = Some Failed \<and> tx_state (w_store w') 30 = Some Finalized"
proof -
  let ?cx = "demo_context (demo_services (\<lambda>x. False))"
  have c: "cancels ?cx" by (simp add: cancels_def demo_context_def demo_services_def prog_simps)
  have st: "tx_state (w_store chain_world) 20 = Some InMempool" "tx_state (w_store chain_world) 30 = Some Finalized"
    by (simp_all add: tx_state_def chain_world_def demo_world_def plain_rbf_def plain_record_def)
  have "ct_kind (plain_rbf 30 20 90 Finalized) = Speedup (RBF 20 []
     \<lparr>sc_funding_inputs = [plain_utxo 90], sc_replaced_by = None, sc_bump_fee_used = Fin 1,
      sc_parent_data = [], sc_spent = False\<rparr>)"
    by (simp add: plain_rbf_def plain_record_def)
  from remove_replaced_exact [OF chain_world_ok(1,2,4,3) c this, of 120] obtain w' where
      "remove_replaced_rbf ?cx (plain_rbf 30 20 90 Finalized) 120 chain_world = (Inr (), w')"
      "\<And>y. tx_state (w_store w') y =
         (if (y, 20) \<in> (older_link (w_store chain_world))\<^sup>*
             \<and> tx_state (w_store chain_world) y \<in> {Some ToDispatch, Some InMempool}
          then Some Failed else tx_state (w_store chain_world) y)" by blast
  with st show ?thesis by (intro exI [of _ w']) simp
qed

end
