(* ===== verification/Reachable.thy ===== *)
theory Reachable
  imports Record_Invariants
begin

text \<open>
  The coordinator as a transition system. An event is a tick or a call of the client, run with
  whatever services and settings the process has at the time; between events the outside
  changes freely and the process may be restarted, which forgets the time of the last retry
  and keeps the storage. Reachable states satisfy \<open>store_ok\<close>, and no event panics in one.
\<close>

section \<open>Events\<close>

datatype event =
    Tick
  | Dispatch transaction "speedup_data option" string "u32 option" "u32 option"
  | DispatchWithoutSpeedup transaction string "u32 option" "u32 option" "u32 option"
  | Cancel types_to_monitor
  | AddFunding utxo
  | AckNews ack_news
  | ReadNews
  | Monitor types_to_monitor
  | Query txid
  | QueryReady

definition drop_result :: "('s, failure, 'a) prog \<Rightarrow> ('s, failure, unit) prog" where
  "drop_result m = pbind m (\<lambda>_. pret ())"

fun run_event :: "'e engine_context \<Rightarrow> event \<Rightarrow> ('e, unit) world_prog" where
  "run_event cx Tick = tick cx"
| "run_event cx (Dispatch tx data c target trigger) = dispatch_tx cx tx data c target trigger"
| "run_event cx (DispatchWithoutSpeedup tx c target trigger stuck) =
     dispatch_without_speedup cx tx c target trigger stuck"
| "run_event cx (Cancel data) = cancel cx data"
| "run_event cx (AddFunding u) = add_funding cx u"
| "run_event cx (AckNews a) = ack_any_news cx a"
| "run_event cx ReadNews = drop_result (get_all_news cx)"
| "run_event cx (Monitor data) = monitor cx data"
| "run_event cx (Query x) = drop_result (get_transaction cx x)"
| "run_event cx QueryReady = drop_result (is_ready cx)"

text \<open>The storage of a fresh installation: no key was ever set.\<close>

inductive reachable :: "'e world \<Rightarrow> bool" where
  fresh: "reachable \<lparr>w_store = empty_store, w_last_retry_at = None, w_ext = e\<rparr>"
| event: "reachable w \<Longrightarrow> run_event cx ev w = (r, w') \<Longrightarrow> reachable w'"
| outside: "reachable w \<Longrightarrow> reachable (w\<lparr>w_ext := e\<rparr>)"
| restart: "reachable w \<Longrightarrow> reachable (w\<lparr>w_last_retry_at := None\<rparr>)"

section \<open>Every event keeps the invariant\<close>

text \<open>The transaction a client call registers.\<close>

fun registers :: "event \<Rightarrow> txid \<Rightarrow> bool" where
  "registers (Dispatch tx data c target trigger) x = (tx_compute_txid tx = x)"
| "registers (DispatchWithoutSpeedup tx c target trigger stuck) x = (tx_compute_txid tx = x)"
| "registers _ x = False"

lemma runs_drop: "runs I m P \<Longrightarrow> runs I (drop_result m) (\<lambda>_. True)"
  unfolding drop_result_def by (erule runs_bind) (simp add: runs_ret)

context open_property
begin

lemma runs_event:
  assumes "makes B cx" and "\<And>x. registers ev x \<Longrightarrow> N x" and "\<And>y. M y"
  shows "runs (in_store (store_ok X)) (run_event cx ev) (\<lambda>_. True)"
  using assms(2)
  by (cases ev) (auto intro: runs_tick [OF assms(1,3)] runs_dispatch_tx runs_dispatch_without runs_cancel runs_add_funding
      runs_ack runs_queries runs_drop [OF runs_queries(1)] runs_drop [OF runs_queries(2)] runs_drop [OF runs_queries(4)])

end

interpretation recorded: open_property "\<lambda>t. True" "\<lambda>x. True" "\<lambda>x. True" "\<lambda>tx. True"
  by unfold_locales simp_all

lemma runs_recorded: "runs (in_store (store_ok (\<lambda>t. True))) (run_event cx ev) (\<lambda>_. True)"
  by (rule recorded.runs_event) (simp_all add: makes_def)

lemma empty_store_ok: "store_ok X empty_store"
  by (simp add: store_ok_def structured_def queue_ok_def empty_store_def)

lemma reachable_store_ok: "reachable w \<Longrightarrow> store_ok (\<lambda>t. True) (w_store w)"
proof (induction rule: reachable.induct)
  case (event w cx ev r w')
  then show ?case using runsD(1) [OF runs_recorded] by blast
qed (simp_all add: empty_store_ok)

text \<open>
  C8. The invariant of the storage: after any sequence of ticks, client calls, restarts and changes
  outside, completed or broken off by an error, the records are finitely many and stored
  under their own ids; a record has a settlement height exactly if it is finalized or failed;
  every speedup has a funding input and covers each parent once; the list of speedups has no
  repetition and only stored ids, the set of waiting parents and the news have no repetition;
  and the funding records are exactly those of the queue, each under its outpoint.
\<close>

theorem reachable_invariant:
  assumes "reachable w" and "s = w_store w"
  shows "finite (dom (st_txs s))
    \<and> (\<forall>x t. st_txs s x = Some t \<longrightarrow> ct_txid t = x
         \<and> (ct_settled_block_height t \<noteq> None \<longleftrightarrow> ct_state t \<in> {Finalized, Failed})
         \<and> (\<forall>k. ct_kind t = Speedup k \<longrightarrow> sc_funding_inputs (context_of k) \<noteq> [] \<and> distinct (parents_of k)))
    \<and> distinct (st_speedup_list s) \<and> set (st_speedup_list s) \<subseteq> dom (st_txs s)
    \<and> distinct (st_pending_parents s) \<and> distinct (map sn_news (st_news s))
    \<and> set (st_funding_list s) = dom (st_funding s)
    \<and> (\<forall>op r. st_funding s op = Some r \<longrightarrow> utxo_outpoint (fd_utxo r) = op)"
  using reachable_store_ok [OF assms(1)] unfolding assms(2)
  by (auto simp: store_ok_def structured_def sound_def queue_ok_def is_terminal_def)

text \<open>
  C16. No panic: from a reachable state, an event returns or reports an error, or runs on along a cyclic
  chain of replaced speedups, but never indexes a vector out of its bounds, slices beyond
  its end, removes a missing element or unwraps nothing, whatever the node, the monitor and
  the builder answer.
\<close>

theorem events_never_panic:
  assumes "reachable w"
  shows "fst (run_event cx ev w) \<noteq> Inl (Panic msg)"
  using runs_recorded reachable_store_ok [OF assms] unfolding runs_def by (fastforce split: sum.splits)

text \<open>Transaction 5 is dispatched in a fresh installation.\<close>

definition first_dispatch :: "transaction list world" where
  "first_dispatch = snd (run_event (demo_context (demo_services (\<lambda>x. False)))
     (Dispatch (plain_tx 5) None ''client'' None None) (demo_world empty_store))"

lemma first_dispatch_reachable: "reachable first_dispatch"
  unfolding first_dispatch_def demo_world_def
  by (rule reachable.event [OF reachable.fresh]) (rule prod.collapse [symmetric])

text \<open>What evaluates a dispatch with the services of the demo.\<close>

lemmas demo_dispatch = dispatch_tx_def dispatch_without_speedup_def register_tx_def prog_simps demo_defs network_fee_rate_def
  monitor_height_def call_monitor_def plain_tx_def empty_store_def get_tx_by_id_def case_prod_unfold

theorem reachable_invariant_witness:
  "tx_state (w_store first_dispatch) 5 = Some ToDispatch \<and> set (st_funding_list (w_store first_dispatch)) = {}
   \<and> finite (dom (st_txs (w_store first_dispatch)))"
proof -
  have "tx_state (w_store first_dispatch) 5 = Some ToDispatch" "st_funding (w_store first_dispatch) = Map.empty"
    by (simp_all add: first_dispatch_def demo_dispatch insert_tx_def tx_state_def)
  then show ?thesis using reachable_invariant [OF first_dispatch_reachable refl] by simp
qed

theorem events_never_panic_witness:
  "fst (run_event (demo_context (demo_services (\<lambda>x. False))) Tick first_dispatch) \<noteq> Inl (Panic ''index out of bounds'')"
  by (rule events_never_panic [OF first_dispatch_reachable])

end
