(* ===== verification/Coordinator_Facts.thy ===== *)
theory Coordinator_Facts
  imports Reachable "HOL-Library.Sublist"
begin

text \<open>
  The calls of the client, on every branch: construction, registration, cancellation, funding
  and the news, and a tick while the monitor is not ready.
\<close>

section \<open>Construction\<close>

text \<open>
  A coordinator is only built with valid settings and a node that indexes transactions: when
  \<open>new_with_paths\<close> returns a context, its settings are the given ones, or the defaults where none
  were given, and pass the documented bounds, and the node answered that its transaction index
  is enabled. Invalid settings are refused before the node or the monitor is contacted.
\<close>

lemma new_with_paths_checks:
  "(new_with_paths cn base monitor_default settings e = (Inr cx, e') \<longrightarrow>
      cx_settings cx = unwrap_or settings (default_bitcoin_settings monitor_default)
      \<and> valid_settings (cx_settings cx)
      \<and> (\<exists>e1 e2. cn_is_txindex_enabled cn e1 = (Inr True, e2)))
   \<and> (\<not> valid_settings (unwrap_or settings (default_bitcoin_settings monitor_default)) \<longrightarrow>
      (\<exists>msg. new_with_paths cn base monitor_default settings e = (Inl (Err (InvalidConfiguration msg)), e)))"
proof -
  let ?s = "unwrap_or settings (default_bitcoin_settings monitor_default)"
  have valid: "valid_settings ?s \<longleftrightarrow> validate_settings ?s = Inr ()" by (simp add: validate_settings_valid)
  show ?thesis
  proof (cases "validate_settings ?s")
    case (Inl f)
    then show ?thesis using validate_settings_error [OF Inl] valid
      by (auto simp: new_with_paths_def Let_def prog_simps)
  next
    case (Inr u)
    then show ?thesis using valid
      by (auto simp: new_with_paths_def Let_def prog_simps split: prod.splits sum.splits if_splits)
  qed
qed

text \<open>
  \<open>load_config\<close> returns a configuration exactly if the file parses and its settings are within the
  documented bounds, and then it is the parsed one; any other file is refused as an invalid
  configuration.
\<close>

lemma load_config_exact:
  "(load_config load_config_file path = Inr cfg \<longleftrightarrow>
      load_config_file path = Inr cfg \<and> valid_settings (cfg_settings cfg))
   \<and> (load_config load_config_file path = Inl f \<longrightarrow> (\<exists>msg. f = Err (InvalidConfiguration msg)))"
  using validate_settings_error
  by (auto simp: load_config_def validate_settings_valid [symmetric] split: sum.split)

section \<open>Registration\<close>

lemma register_known:
  "st_txs (w_store w) (tx_compute_txid tx) \<noteq> None \<Longrightarrow> register_tx cx tx kind c target trigger stuck w = (Inr (), w)"
  by (auto simp: register_tx_def Let_def prog_simps get_tx_by_id_def)

text \<open>The record of a transaction that was just registered.\<close>

definition fresh_record ::
    "transaction \<Rightarrow> tx_kind \<Rightarrow> string \<Rightarrow> block_height \<Rightarrow> u32 option \<Rightarrow> u32 option \<Rightarrow> fee_info \<Rightarrow> coordinated_tx" where
  "fresh_record tx kind c target trigger stuck fee =
     \<lparr>ct_txid = tx_compute_txid tx, ct_tx = tx, ct_kind = kind, ct_state = ToDispatch,
      ct_target_block_height = target, ct_confirmation_trigger = trigger, ct_stuck_in_mempool_blocks = stuck,
      ct_settled_block_height = None, ct_broadcast_block_height = None, ct_fail_guard_until = None,
      ct_retry_count = 0, ct_fee_info = fee, ct_context = c\<rparr>"

definition needs_cpfp :: "tx_kind \<Rightarrow> bool" where
  "needs_cpfp kind = (case kind of NeedsSpeedup d \<Rightarrow> True | _ \<Rightarrow> False)"

lemma register_run:
  assumes "register_tx cx tx kind c target trigger stuck w = (r, w')"
    and "st_txs (w_store w) (tx_compute_txid tx) = None"
  shows "r = Inr () \<and> (\<exists>height fee. w_store w' =
      (let s = insert_tx (fresh_record tx kind c (unwrap_or target height) trigger stuck fee) (w_store w)
       in if needs_cpfp kind then add_pending_speedup_parent (tx_compute_txid tx) s else s))
    \<or> (\<exists>e. r = Inl e) \<and> w_store w' = w_store w"
proof -
  obtain h e1 where h: "monitor_height cx w = (h, e1)" by fastforce
  have s1: "w_store e1 = w_store w"
    using h same_store_call unfolding monitor_height_def keeps_def same_store_def by (metis snd_conv)
  obtain f e2 where f: "network_fee_rate cx e1 = (f, e2)" by fastforce
  have s2: "w_store e2 = w_store e1" and ok: "\<exists>x. f = Inr x"
    using f by (auto simp: network_fee_rate_def prog_simps)
  obtain m e3 where m: "call_monitor (sv_monitor (cx_services cx)
      (Transactions [tx_compute_txid tx] c trigger) False) e2 = (m, e3)" by fastforce
  have s3: "w_store e3 = w_store e2"
    using m same_store_call unfolding keeps_def same_store_def by (metis snd_conv)
  show ?thesis
  proof (cases h)
    case (Inl e)
    then have "r = Inl e" "w_store w' = w_store w" using assms h s1
      by (auto simp: register_tx_def Let_def prog_simps get_tx_by_id_def)
    then show ?thesis by blast
  next
    case height: (Inr height)
    obtain rate n where rate: "f = Inr (rate, n)" using ok by auto
    show ?thesis
    proof (cases m)
      case (Inl e)
      then have "r = Inl e" "w_store w' = w_store w" using assms h height f rate m s1 s2 s3
        by (auto simp: register_tx_def Let_def prog_simps get_tx_by_id_def)
      then show ?thesis by blast
    next
      case (Inr u)
      have "r = Inr ()" "w_store w' =
          (let s = insert_tx (fresh_record tx kind c (unwrap_or target height) trigger stuck (compute_fee_for_tx tx rate)) (w_store w)
           in if needs_cpfp kind then add_pending_speedup_parent (tx_compute_txid tx) s else s)"
        using assms h height f rate m Inr s1 s2 s3
        by (auto simp: register_tx_def Let_def prog_simps get_tx_by_id_def fresh_record_def needs_cpfp_def
            split: tx_kind.splits)
      then show ?thesis by blast
    qed
  qed
qed

lemma dispatch_tx_register:
  "\<exists>kind. kind = (case data of Some d \<Rightarrow> NeedsSpeedup d | None \<Rightarrow> Normal)
    \<and> dispatch_tx cx tx data c target trigger = register_tx cx tx kind c target trigger None"
  by (auto simp: dispatch_tx_def dispatch_with_speedup_def dispatch_without_speedup_def split: option.split)

text \<open>
  On a storage that works a call that fails leaves it as it was, and a transaction that is known is not registered
  again. \<open>Registration\<close> has the same call over a backend that may fail, with what it stores.
\<close>

lemma dispatch_tx_once:
  assumes "dispatch_tx cx tx data c target trigger w = (r, w')"
  shows "(\<forall>e. r = Inl e \<longrightarrow> w_store w' = w_store w)
    \<and> (r = Inr () \<longrightarrow> st_txs (w_store w') (tx_compute_txid tx) \<noteq> None
        \<and> dispatch_tx cx' tx data2 c2 target2 trigger2 w' = (Inr (), w'))"
proof -
  let ?known = "\<lambda>v. st_txs (w_store v) (tx_compute_txid tx) \<noteq> None"
  obtain kind where kind: "dispatch_tx cx tx data c target trigger = register_tx cx tx kind c target trigger None"
    using dispatch_tx_register by blast
  have again: "dispatch_tx cx' tx data2 c2 target2 trigger2 v = (Inr (), v)" if "?known v" for v
    using register_known [OF that] dispatch_tx_register [of data2 cx' tx c2 target2 trigger2] by metis
  show ?thesis
  proof (cases "?known w")
    case True
    then have "r = Inr ()" "w' = w" using assms register_known [OF True, of cx kind c target trigger None]
      unfolding kind by simp_all
    then show ?thesis using True again by blast
  next
    case False
    then have "st_txs (w_store w) (tx_compute_txid tx) = None" by simp
    from register_run [OF assms [unfolded kind] this]
    have "(\<exists>e. r = Inl e) \<and> w_store w' = w_store w \<or> r = Inr () \<and> ?known w'"
      by (auto simp: Let_def insert_tx_def add_pending_speedup_parent_def fresh_record_def)
    then show ?thesis using again by auto
  qed
qed

section \<open>Cancellation\<close>

definition cancellable :: "store \<Rightarrow> txid \<Rightarrow> bool" where
  "cancellable s x \<longleftrightarrow> (\<exists>t. st_txs s x = Some t \<and> \<not> is_speedup t \<and> ct_state t = ToDispatch)"

lemma classify_None: "classify_cancel_request x s = None \<longleftrightarrow> cancellable s x"
  by (auto simp: classify_cancel_request_def cancellable_def get_tx_by_id_def split: option.splits)

text \<open>The news of the refused ones, noted in their order.\<close>

definition refuse :: "txid \<Rightarrow> store \<Rightarrow> store" where
  "refuse x s = (case classify_cancel_request x s of None \<Rightarrow> s | Some reason \<Rightarrow> note_news (InvalidCancel x reason) s)"

lemma refuse_frame [simp]:
  "st_txs (refuse x s) = st_txs s" "st_speedup_list (refuse x s) = st_speedup_list s"
  "st_pending_parents (refuse x s) = st_pending_parents s"
  "st_funding_list (refuse x s) = st_funding_list s" "st_funding (refuse x s) = st_funding s"
  by (simp_all add: refuse_def split: option.split)

lemma fold_refuse_frame [simp]:
  "st_txs (fold refuse xs s) = st_txs s" "st_speedup_list (fold refuse xs s) = st_speedup_list s"
  "st_pending_parents (fold refuse xs s) = st_pending_parents s"
  "st_funding_list (fold refuse xs s) = st_funding_list s" "st_funding (fold refuse xs s) = st_funding s"
  by (induction xs arbitrary: s) simp_all

lemma cancellable_cong: "st_txs s' = st_txs s \<Longrightarrow> cancellable s' = cancellable s"
  by (simp add: cancellable_def fun_eq_iff)

lemma classify_fold:
  "fold classify_step xs (el, s) = (el @ filter (cancellable s) xs, fold refuse xs s)"
proof (induction xs arbitrary: el s)
  case (Cons x xs)
  have same: "cancellable (refuse x s) = cancellable s" by (rule cancellable_cong) simp
  have "classify_step x (el, s) = (if cancellable s x then el @ [x] else el, refuse x s)"
    by (auto simp: classify_step_def refuse_def classify_None [symmetric] split: option.split)
  then show ?case using Cons.IH same by simp
qed simp

lemma refused_news:
  "n \<in> sn_news ` set (st_news (fold refuse xs s)) \<longleftrightarrow> n \<in> sn_news ` set (st_news s)
     \<or> (\<exists>x \<in> set xs. \<exists>reason. classify_cancel_request x s = Some reason \<and> n = InvalidCancel x reason)"
proof (induction xs arbitrary: s)
  case (Cons x xs)
  have cls: "classify_cancel_request y (refuse x s) = classify_cancel_request y s" for y
    by (simp add: classify_cancel_request_def get_tx_by_id_def)
  have "n \<in> sn_news ` set (st_news (refuse x s)) \<longleftrightarrow> n \<in> sn_news ` set (st_news s)
      \<or> (\<exists>reason. classify_cancel_request x s = Some reason \<and> n = InvalidCancel x reason)"
    by (auto simp: refuse_def note_news_def add_news_def split: option.split intro: rev_image_eqI)
  then show ?case using Cons.IH [of "refuse x s"] by (auto simp: cls)
qed simp

lemma fold_remove_tx:
  "st_txs (fold remove_tx xs s) = (\<lambda>y. if y \<in> set xs then None else st_txs s y)"
  "st_speedup_list (fold remove_tx xs s) = filter (\<lambda>y. y \<notin> set xs) (st_speedup_list s)"
  "st_pending_parents (fold remove_tx xs s) = st_pending_parents s" "st_news (fold remove_tx xs s) = st_news s"
  "st_funding_list (fold remove_tx xs s) = st_funding_list s" "st_funding (fold remove_tx xs s) = st_funding s"
  by (induction xs arbitrary: s)
    (auto simp: remove_tx_def remove_speedup_from_list_def retain_ne_def fun_eq_iff filter_filter intro: filter_cong)

lemma fold_unpend:
  "fold remove_pending_speedup_parent xs s = s\<lparr>st_pending_parents := filter (\<lambda>y. y \<notin> set xs) (st_pending_parents s)\<rparr>"
  by (induction xs arbitrary: s)
    (auto simp: remove_pending_speedup_parent_def retain_ne_def filter_filter intro: filter_cong)

text \<open>
  C31. What a cancellation of transactions does: it removes exactly the requested ones that are known, are
  not speedups and were not dispatched yet, from the records, from the parents that wait for a
  CPFP and from the list of speedups, and reports every other requested one with the reason. When
  the monitor refuses, no record is removed, but the requested parents have already left
  the set of those that wait for a CPFP.
\<close>

theorem cancel_transactions_exact:
  assumes "cancel cx (Transactions txids c trigger) w = (r, w')" and "s = w_store w" and "s' = w_store w'"
    and "gone = (\<lambda>x. x \<in> set txids \<and> cancellable s x)"
  shows "st_txs s' = (if r = Inr () then (\<lambda>x. if gone x then None else st_txs s x) else st_txs s)
    \<and> st_speedup_list s' = (if r = Inr () then filter (\<lambda>x. \<not> gone x) (st_speedup_list s) else st_speedup_list s)
    \<and> st_pending_parents s' = filter (\<lambda>x. \<not> gone x) (st_pending_parents s)
    \<and> (\<forall>n. n \<in> sn_news ` set (st_news s') \<longleftrightarrow> n \<in> sn_news ` set (st_news s)
         \<or> (\<exists>x \<in> set txids. \<exists>reason. classify_cancel_request x s = Some reason \<and> n = InvalidCancel x reason))
    \<and> st_funding_list s' = st_funding_list s \<and> st_funding s' = st_funding s"
proof -
  let ?el = "filter (cancellable s) txids" and ?s1 = "fold refuse txids s"
  have el: "x \<in> set ?el \<longleftrightarrow> gone x" for x using assms(4) by auto
  have news: "n \<in> sn_news ` set (st_news ?s1) \<longleftrightarrow> n \<in> sn_news ` set (st_news s)
      \<or> (\<exists>x \<in> set txids. \<exists>reason. classify_cancel_request x s = Some reason \<and> n = InvalidCancel x reason)" for n
    by (rule refused_news)
  show ?thesis
  proof (cases "?el = []")
    case True
    then have none: "\<not> gone x" for x using el by (metis empty_iff list.set(1))
    have "r = Inr ()" "s' = ?s1"
      using assms(1,2,3) True by (auto simp: cancel_def cancel_transactions_def prog_simps classify_fold)
    then show ?thesis using news none by simp
  next
    case False
    obtain m e where m: "sv_cancel (cx_services cx) (Transactions ?el c trigger) (w_ext w) = (m, e)" by fastforce
    let ?s2 = "fold remove_pending_speedup_parent ?el ?s1"
    have run: "r = (case m of Inl e \<Rightarrow> Inl (Err (MonitorError e)) | Inr u \<Rightarrow> Inr ())"
        "s' = (case m of Inl e \<Rightarrow> ?s2 | Inr u \<Rightarrow> fold remove_tx ?el ?s2)"
      using assms(1,2,3) False m
      by (auto simp: cancel_def cancel_transactions_def prog_simps classify_fold call_monitor_def split: sum.splits)
    have "x \<in> set txids \<and> cancellable s x \<longleftrightarrow> gone x" for x using assms(4) by simp
    then show ?thesis using run news
      by (cases m) (simp_all add: fold_remove_tx fold_unpend cong: if_cong)
  qed
qed

text \<open>5 waits to be dispatched, 6 is already in the mempool.\<close>

definition cancel_world :: "transaction list world" where
  "cancel_world = demo_world (empty_store\<lparr>st_txs :=
     [5 \<mapsto> plain_record 5 Normal ToDispatch, 6 \<mapsto> plain_record 6 Normal InMempool]\<rparr>)"

theorem cancel_transactions_exact_witness:
  "\<exists>w'. cancel (demo_context (demo_services (\<lambda>x. False))) (Transactions [5, 6] ''client'' None) cancel_world = (Inr (), w')
    \<and> st_txs (w_store w') 5 = None \<and> st_txs (w_store w') 6 = Some (plain_record 6 Normal InMempool)
    \<and> InvalidCancel 6 ''tx already dispatched; cancel is only valid in ToDispatch'' \<in> sn_news ` set (st_news (w_store w'))"
proof -
  let ?run = "cancel (demo_context (demo_services (\<lambda>x. False))) (Transactions [5, 6] ''client'' None) cancel_world"
  have st: "st_txs (w_store cancel_world) 5 = Some (plain_record 5 Normal ToDispatch)"
    "st_txs (w_store cancel_world) 6 = Some (plain_record 6 Normal InMempool)"
    by (simp_all add: cancel_world_def demo_world_def)
  have may: "cancellable (w_store cancel_world) 5" "\<not> cancellable (w_store cancel_world) 6"
    "classify_cancel_request 6 (w_store cancel_world) = Some ''tx already dispatched; cancel is only valid in ToDispatch''"
    by (simp_all add: cancellable_def classify_cancel_request_def get_tx_by_id_def st)
      (simp_all add: plain_record_def is_speedup_def)
  have "fst ?run = Inr ()"
    by (simp add: cancel_def cancel_transactions_def prog_simps classify_fold may call_monitor_def demo_context_def
        demo_services_def)
  then obtain w' where run: "?run = (Inr (), w')" by (metis prod.collapse)
  from cancel_transactions_exact [OF run refl refl refl] show ?thesis using run st may by auto
qed

text \<open>
  C32. Dispatching and cancelling is a round trip: a transaction that was unknown and did not wait for a
  CPFP, dispatched with or without a speedup and then cancelled before a tick, leaves the
  storage exactly as it was.
\<close>

theorem dispatch_then_cancel_restores:
  assumes "store_ok (\<lambda>t. True) (w_store w)" and "st_txs (w_store w) (tx_compute_txid tx) = None"
    and "tx_compute_txid tx \<notin> set (st_pending_parents (w_store w))"
    and "dispatch_tx cx tx data c target trigger w = (Inr (), w1)"
    and "cancel cx (Transactions [tx_compute_txid tx] c trigger) w1 = (Inr (), w2)"
  shows "w_store w2 = w_store w"
proof -
  let ?x = "tx_compute_txid tx" and ?s = "w_store w"
  obtain kind where kind: "kind = (case data of Some d \<Rightarrow> NeedsSpeedup d | None \<Rightarrow> Normal)"
      "dispatch_tx cx tx data c target trigger = register_tx cx tx kind c target trigger None"
    using dispatch_tx_register by blast
  obtain h f where s1: "w_store w1 =
      (let s = insert_tx (fresh_record tx kind c h trigger None f) ?s
       in if needs_cpfp kind then add_pending_speedup_parent ?x s else s)"
    using register_run [OF assms(4) [unfolded kind(2)] assms(2)] by auto
  have known: "st_txs (w_store w1) ?x = Some (fresh_record tx kind c h trigger None f)"
    unfolding s1 by (simp add: Let_def insert_tx_def add_pending_speedup_parent_def fresh_record_def)
  have may: "cancellable (w_store w1) ?x"
    unfolding cancellable_def known using kind(1) by (auto simp: fresh_record_def is_speedup_def split: option.split)
  have step: "classify_step ?x ([], w_store w1) = ([?x], w_store w1)"
    using may by (simp add: classify_step_def classify_None [symmetric])
  have "w_store w2 = remove_tx ?x (remove_pending_speedup_parent ?x (w_store w1))"
    using assms(5) by (auto simp: cancel_def cancel_transactions_def step prog_simps call_monitor_def
        split: sum.splits prod.splits)
  moreover have "?x \<notin> set (st_speedup_list ?s)" using store_okD(1) [OF assms(1)] assms(2) by (auto simp: structured_def)
  ultimately show ?thesis using assms(2,3)
    by (simp add: s1 Let_def insert_tx_def add_pending_speedup_parent_def remove_tx_def remove_speedup_from_list_def
        remove_pending_speedup_parent_def fresh_record_def retain_ne_push_new fun_upd_idem)
qed

theorem dispatch_then_cancel_restores_witness:
  "let cx = demo_context (demo_services (\<lambda>x. False));
       w1 = snd (dispatch_tx cx (plain_tx 5) (Some (fst (hd one_parent))) ''client'' None None (demo_world empty_store));
       w2 = snd (cancel cx (Transactions [5] ''client'' None) w1)
   in st_pending_parents (w_store w1) = [5] \<and> w_store w2 = empty_store"
proof -
  let ?cx = "demo_context (demo_services (\<lambda>x. False))"
  let ?run1 = "dispatch_tx ?cx (plain_tx 5) (Some (fst (hd one_parent))) ''client'' None None (demo_world empty_store)"
  let ?run2 = "cancel ?cx (Transactions [5] ''client'' None) (snd ?run1)"
  have id: "tx_compute_txid (plain_tx 5) = 5" by (simp add: plain_tx_def)
  have r1: "?run1 = (Inr (), snd ?run1)" and p: "st_pending_parents (w_store (snd ?run1)) = [5]"
    by (simp_all add: id demo_dispatch dispatch_with_speedup_def insert_tx_def add_pending_speedup_parent_def push_new_def prod_eq_iff)
  have r2: "cancel ?cx (Transactions [tx_compute_txid (plain_tx 5)] ''client'' None) (snd ?run1) = (Inr (), snd ?run2)"
    by (simp add: id cancel_def cancel_transactions_def prog_simps call_monitor_def demo_context_def demo_services_def
        prod_eq_iff)
  have "store_ok (\<lambda>t. True) (w_store (demo_world empty_store))"
    using empty_store_ok by (simp add: demo_world_def)
  moreover have "st_txs (w_store (demo_world empty_store)) (tx_compute_txid (plain_tx 5)) = None"
    "tx_compute_txid (plain_tx 5) \<notin> set (st_pending_parents (w_store (demo_world empty_store)))"
    by (simp_all add: demo_world_def empty_store_def)
  ultimately have "w_store (snd ?run2) = w_store (demo_world empty_store)"
    using dispatch_then_cancel_restores [OF _ _ _ r1 r2] by blast
  then show ?thesis using p by (simp add: Let_def demo_world_def)
qed

section \<open>News\<close>

lemma contains_sublist: "contains s p \<longleftrightarrow> sublist p s"
proof (induction s)
  case (Cons c cs)
  have "take (length p) (c # cs) = p \<longleftrightarrow> prefix p (c # cs)"
    by (metis append_eq_conv_conj prefix_def)
  then show ?case using Cons.IH by (simp add: sublist_Cons_right)
qed (auto simp: sublist_def)

text \<open>A record of a speedup carries the context of its kind.\<close>

definition own_context :: "coordinated_tx \<Rightarrow> bool" where
  "own_context t \<longleftrightarrow> (\<forall>k. ct_kind t = Speedup k \<longrightarrow> ct_context t = ctx_for_kind k)"

lemma ctx_for_kind_erased: "erase_kind (Speedup k) = erase_kind (Speedup k') \<Longrightarrow> ctx_for_kind k = ctx_for_kind k'"
  by (cases k; cases k') simp_all

interpretation contexts: open_property own_context "\<lambda>x. True" "\<lambda>x. True" "\<lambda>tx. True"
proof
  show "own_context t'" if "own_context t" "evolves t t'" for t t'
    using that ctx_for_kind_erased erase_kind_shape unfolding own_context_def evolves_def by metis
qed (auto simp: own_context_def speedup_record_def is_speedup_def)

lemma reachable_contexts: "reachable w \<Longrightarrow> store_ok own_context (w_store w)"
proof (induction rule: reachable.induct)
  case (event w cx ev r w')
  have "runs (in_store (store_ok own_context)) (run_event cx ev) (\<lambda>_. True)"
    by (rule contexts.runs_event) (simp_all add: makes_def)
  then show ?case using event runsD(1) by fast
qed (simp_all add: empty_store_ok)

text \<open>
  C39. What the client reads about transactions: from a reachable state, \<open>get_news\<close> gives no news about a transaction under
  the context with which a speedup was stored (and is monitored), whatever the monitor reports, so the speedups of the
  coordinator stay hidden; and it hides nothing else, except transactions under a context that contains one of the two markers
  of speedups: every other news item of the monitor is passed on, in order. Reading changes nothing in the storage.
\<close>

theorem speedup_news_hidden:
  assumes "reachable w" and "get_all_news cx w = (Inr n, w')"
  shows "\<exists>reported. fst (sv_get_monitor_news (cx_services cx) (w_ext w)) = Inr reported
    \<and> (\<forall>x t. st_txs (w_store w) x = Some t \<longrightarrow> is_speedup t \<longrightarrow> (\<forall>y d. TransactionNews y (ct_context t) d \<notin> set (monitor_news_of n)))
    \<and> subseq (monitor_news_of n) reported
    \<and> (\<forall>m \<in> set reported. m \<in> set (monitor_news_of n) \<or> (\<exists>x c d. m = TransactionNews x c d
         \<and> (sublist CPFP_TRANSACTION_CONTEXT c \<or> sublist RBF_TRANSACTION_CONTEXT c)))
    \<and> w_store w' = w_store w"
proof -
  obtain r e where call: "sv_get_monitor_news (cx_services cx) (w_ext w) = (r, e)" by fastforce
  then obtain reported where r: "r = Inr reported" using assms(2)
    by (cases r) (simp_all add: get_all_news_def call_monitor_def prog_simps)
  have n: "monitor_news_of n = filter is_client_news reported" "w_store w' = w_store w"
    using assms(2) call r by (auto simp: get_all_news_def call_monitor_def prog_simps)
  have own: "\<not> is_client_news (TransactionNews y (ct_context t) d)" if t: "st_txs (w_store w) x = Some t" "is_speedup t" for x t y d
  proof -
    obtain k where k: "ct_kind t = Speedup k" using t(2) by (auto simp: is_speedup_iff)
    then have "ct_context t = ctx_for_kind k"
      using store_okD(4) [OF reachable_contexts [OF assms(1)] t(1)] by (simp add: own_context_def)
    then show ?thesis by (cases k) (simp_all add: is_client_news_def contains_sublist)
  qed
  have hidden: "\<exists>x c d. m = TransactionNews x c d \<and> (sublist CPFP_TRANSACTION_CONTEXT c \<or> sublist RBF_TRANSACTION_CONTEXT c)"
    if "\<not> is_client_news m" for m
    using that by (auto simp: is_client_news_def contains_sublist split: monitor_news.splits)
  have passed: "m \<in> set (monitor_news_of n) \<or> (\<exists>x c d. m = TransactionNews x c d
      \<and> (sublist CPFP_TRANSACTION_CONTEXT c \<or> sublist RBF_TRANSACTION_CONTEXT c))" if "m \<in> set reported" for m
    using that hidden [of m] unfolding n(1) by (cases "is_client_news m") simp_all
  have "TransactionNews y (ct_context t) d \<notin> set (monitor_news_of n)"
    if "st_txs (w_store w) x = Some t" "is_speedup t" for x t y d
    using own [OF that] unfolding n(1) by simp
  moreover have "subseq (monitor_news_of n) reported" unfolding n(1) by (rule subseq_filter_left)
  ultimately show ?thesis using call r n(2) passed by auto
qed

text \<open>A client whose context contains a marker does not read the news about its transaction.\<close>

theorem speedup_news_hidden_witness:
  "\<exists>n w'. get_all_news (demo_context ((demo_services (\<lambda>x. False))\<lparr>sv_get_monitor_news :=
        pret [TransactionNews 5 ''client'' 1, TransactionNews 6 (''x'' @ CPFP_TRANSACTION_CONTEXT) 2, OtherMonitorNews 3]\<rparr>))
      first_dispatch = (Inr n, w')
    \<and> TransactionNews 5 ''client'' 1 \<in> set (monitor_news_of n)
    \<and> TransactionNews 6 (''x'' @ CPFP_TRANSACTION_CONTEXT) 2 \<notin> set (monitor_news_of n)"
proof -
  let ?all = "[TransactionNews 5 ''client'' 1, TransactionNews 6 (''x'' @ CPFP_TRANSACTION_CONTEXT) 2, OtherMonitorNews 3]"
  let ?cx = "demo_context ((demo_services (\<lambda>x. False))\<lparr>sv_get_monitor_news := pret ?all\<rparr>)"
  have "\<exists>n w'. get_all_news ?cx first_dispatch = (Inr n, w')"
    by (simp add: get_all_news_def call_monitor_def prog_simps demo_context_def)
  then obtain n w' where run: "get_all_news ?cx first_dispatch = (Inr n, w')" by blast
  have all: "fst (sv_get_monitor_news (cx_services ?cx) (w_ext first_dispatch)) = Inr ?all"
    by (simp add: demo_context_def prog_simps)
  have "monitor_news_of n = filter is_client_news ?all"
    using run by (auto simp: get_all_news_def call_monitor_def prog_simps demo_context_def)
  moreover have "\<not> is_client_news (TransactionNews 6 (''x'' @ CPFP_TRANSACTION_CONTEXT) 2)"
    by (simp add: is_client_news_def CPFP_TRANSACTION_CONTEXT_def)
  moreover have "\<not> sublist CPFP_TRANSACTION_CONTEXT ''client''" "\<not> sublist RBF_TRANSACTION_CONTEXT ''client''"
    by (simp_all add: contains_sublist [symmetric] CPFP_TRANSACTION_CONTEXT_def RBF_TRANSACTION_CONTEXT_def)
  moreover note speedup_news_hidden [OF first_dispatch_reachable run]
  ultimately show ?thesis using run unfolding all by auto
qed

section \<open>A tick that waits\<close>

text \<open>
  While the monitor is not ready, or does not answer, a tick does nothing: the storage and the time of
  the last retry are as before.
\<close>

lemma tick_waits_for_monitor:
  assumes "\<And>e. fst (sv_is_ready (cx_services cx) e) \<noteq> Inr True"
    and "tick cx w = (r, w')"
  shows "w_store w' = w_store w \<and> w_last_retry_at w' = w_last_retry_at w"
proof -
  obtain a e1 where t: "sv_monitor_tick (cx_services cx) (w_ext w) = (a, e1)" by fastforce
  obtain b e2 where b: "sv_is_ready (cx_services cx) e1 = (b, e2)" by fastforce
  have "b \<noteq> Inr True" using assms(1) [of e1] b by simp
  then show ?thesis using assms(2) t b
    by (cases a; cases b) (auto simp: tick_def is_ready_def call_monitor_def prog_simps)
qed

end
