(* ===== verification/Build_Errors.thy ===== *)
theory Build_Errors
  imports Build_Facts
begin

text \<open>
  The exits of a build that matter for the funding: an error of the builder or of the key manager after an
  output was reserved, and an output of the operator that is too small for the fee.
\<close>

section \<open>An error of the builder\<close>

lemma give_up_no_error: "give_up cx a ins available fee w = (Inl e, w') \<Longrightarrow> \<not> ba_inherited_count a \<le> length ins"
  using give_up_run(1) by fastforce

lemma not_free_combine:
  assumes "queue_ok s" "get_combine_funding coordinator_funding_storage s = (Some x, s')"
    and "\<not> free_output s (utxo_outpoint u)"
  shows "\<not> free_output s' (utxo_outpoint u)"
  using combine_restores(2) [OF assms(1,2) refl, of "[u]"] assms(3) by simp

text \<open>
  C19. An error of the builder keeps the reservations: when \<open>get_funding\<close> handed out an output and building a
  CPFP then ends in an error, the store left behind is the one after the reservation, or after the
  reservation of a second input as well. The output is still marked spent, but no
  transaction and no listed speedup was added whose later failure would release it.
\<close>

theorem build_error_keeps_reservation:
  assumes "keyed (w_store w)" and "queue_ok (w_store w)" and "tips_not_queued (w_store w)"
    and "get_funding coordinator_funding_storage (get_speedups_ordered (w_store w)) (w_store w) = (Inr (Some (u, b)), s')"
    and "build_speedup cx entries None bump rate diff w = (Inl e, w')"
  shows "(w_store w' = s' \<or> (\<exists>x. get_combine_funding coordinator_funding_storage s' = (Some x, w_store w')))
    \<and> free_output (w_store w) (utxo_outpoint u) \<and> \<not> free_output (w_store w') (utxo_outpoint u)
    \<and> st_speedup_list (w_store w') = st_speedup_list (w_store w)
    \<and> tx_state (w_store w') = tx_state (w_store w)"
proof -
  let ?a = "\<lparr>ba_parent_entries = entries, ba_bump_fee = bump, ba_fee_rate = rate, ba_is_rbf = False,
             ba_chain_diff_fee = diff, ba_inherited_count = 0, ba_primary_is_speedup = b\<rparr>"
  have run: "build_loop cx ?a [u] 0 (w\<lparr>w_store := s'\<rparr>) = (Inl e, w')"
    using assms(4,5) by (simp add: build_speedup_def prog_simps)
  define J :: "utxo list \<Rightarrow> 'a world \<Rightarrow> bool" where
    "J xs v \<longleftrightarrow> xs = [u] \<and> w_store v = s' \<or>
       (\<exists>x. xs = [u, x] \<and> get_combine_funding coordinator_funding_storage s' = (Some x, w_store v))" for xs v
  have "\<exists>ins' w1. J ins' w1 \<and> build_outcome cx ?a ins' w1 (Inl e) w'"
  proof (rule build_loop_outcome [of J cx ?a, OF _ _ _ run])
    show "J xs v'" if "J xs v" "build_tx cx (args_data ?a) xs f v = (r, v')" for xs f v r v'
      using that build_tx_store [OF that(2)] by (auto simp: J_def)
    show "J (xs @ [x]) v'" if "J xs v" "combine_step xs v x v'" for xs v x v'
      using that by (auto simp: J_def combine_step_def)
    show "J [u] (w\<lparr>w_store := s'\<rparr>)" by (simp add: J_def)
  qed
  then obtain ins' w1 where J: "J ins' w1" and "w_store w' = w_store w1"
    by (auto simp: build_outcome_def dest: build_tx_store give_up_no_error)
  then have s': "w_store w' = s' \<or> (\<exists>x. get_combine_funding coordinator_funding_storage s' = (Some x, w_store w'))"
    by (auto simp: J_def)
  note picks = get_funding_picks [OF assms(1-4)]
  then have k: "keyed s'" and q: "queue_ok s'" and t: "tx_state s' = tx_state (w_store w)"
      "st_speedup_list s' = st_speedup_list (w_store w)"
    using only_failsD [OF only_fails_set_spent assms(1)] queue.ok_set_spent [OF assms(2)] tx_state_set_spent [OF assms(1)]
    by (simp_all add: coordinator_funding_storage_def)
  have "\<not> free_output s' (utxo_outpoint u)" using picks set_spent_not_free [OF assms(1)] by simp
  moreover have "\<not> free_output t (utxo_outpoint u) \<and> st_speedup_list t = st_speedup_list s' \<and> tx_state t = tx_state s'"
    if c: "get_combine_funding coordinator_funding_storage s' = (Some x, t)" for x t
  proof -
    have "t = set_spent (utxo_outpoint x) True s'"
      using c by (auto simp: get_combine_funding_def coordinator_funding_storage_def split: option.splits)
    then show ?thesis using not_free_combine [OF q c] \<open>\<not> free_output s' (utxo_outpoint u)\<close>
        tx_state_set_spent [OF k] only_failsD [OF only_fails_set_spent k] by simp
  qed
  ultimately show ?thesis using s' t picks by metis
qed

text \<open>A key manager that refuses to sign.\<close>

definition refusing_context :: "transaction list engine_context" where
  "refusing_context = demo_context ((demo_services (\<lambda>x. False))\<lparr>sv_speedup_transactions :=
     (\<lambda>d us k fee. pthrow ''key not found'')\<rparr>)"

theorem build_error_keeps_reservation_witness:
  "\<exists>w' e. build_speedup refusing_context one_parent None (Fin 1) 10 0 build_world = (Inl e, w')
    \<and> free_output (w_store build_world) (OutPoint 91 0) \<and> \<not> free_output (w_store w') (OutPoint 91 0)"
proof -
  have "\<exists>w' e. build_speedup refusing_context one_parent None (Fin 1) 10 0 build_world = (Inl e, w')"
    by (simp add: build_speedup_def prog_simps build_world_funding)
      (simp add: build_loop.simps [of _ _ "[plain_utxo 91]"] build_tx_def refusing_context_def demo_context_def prog_simps)
  then obtain w' e where run: "build_speedup refusing_context one_parent None (Fin 1) 10 0 build_world = (Inl e, w')"
    by blast
  have op: "utxo_outpoint (plain_utxo 91) = OutPoint 91 0" by (simp add: plain_utxo_def utxo_outpoint_def)
  show ?thesis using build_error_keeps_reservation [OF build_world_ok build_world_funding run] run unfolding op by blast
qed

section \<open>An output of the operator that is too small\<close>

lemma get_funding_note:
  assumes "get_funding coordinator_funding_storage (get_speedups_ordered s) s = (Inr r, s')"
  shows "\<exists>s''. get_funding coordinator_funding_storage (get_speedups_ordered (note_news n s)) (note_news n s) = (Inr r, s'')"
proof -
  have same: "get_speedups_ordered (note_news n s) = get_speedups_ordered s"
    "read_funding_records (note_news n s) = read_funding_records s"
    by (simp_all add: get_speedups_ordered_def read_funding_records_def)
  show ?thesis using assms unfolding same
    by (auto simp: get_funding_def prog_simps coordinator_funding_storage_def same split: sum.splits option.splits)
qed

text \<open>
  C24. An operator output that is too small for the fee blocks the funding behind it: when \<open>get_funding\<close>
  hands out an output that is not a speedup's change, and the computed fee leaves less of it than the dust
  limit, then the build gives up at once, whatever else the queue holds. The store is as before
  but for the news, and the next call of \<open>get_funding\<close> hands out the same output again.
\<close>

theorem small_operator_funding_blocks:
  assumes "keyed (w_store w)" and "queue_ok (w_store w)" and "tips_not_queued (w_store w)"
    and "get_funding coordinator_funding_storage (get_speedups_ordered (w_store w)) (w_store w) = (Inr (Some (u, False)), s')"
    and "build_tx cx (map fst entries) [u] 1 (w\<lparr>w_store := s'\<rparr>) = (Inr dummy, w1)"
    and "compute_speedup_fee (bs_fee (cx_settings cx)) (map snd entries) (tx_vsize dummy) bump rate False diff = (fee, capped)"
    and "saturating_sub (u_amount u) fee < cx_max_dust_limit cx"
  shows "\<exists>w' s''. build_speedup cx entries None bump rate diff w = (Inr None, w')
    \<and> w_store w' = note_news (InsufficientFunds (u_amount u) (fee + cx_max_dust_limit cx)) (w_store w)
    \<and> get_funding coordinator_funding_storage (get_speedups_ordered (w_store w')) (w_store w') = (Inr (Some (u, False)), s'')"
proof -
  let ?a = "\<lparr>ba_parent_entries = entries, ba_bump_fee = bump, ba_fee_rate = rate, ba_is_rbf = False,
             ba_chain_diff_fee = diff, ba_inherited_count = 0, ba_primary_is_speedup = False\<rparr>"
  let ?give = "give_up cx ?a [u] (u_amount u) fee w1"
  have "build_speedup cx entries None bump rate diff w = build_loop cx ?a [u] 0 (w\<lparr>w_store := s'\<rparr>)"
    using assms(4) by (simp add: build_speedup_def prog_simps)
  also have "\<dots> = ?give"
    using build_loop_round [of cx ?a "[u]" "w\<lparr>w_store := s'\<rparr>" dummy w1, OF _ refl, of 0 fee capped] assms(5-7)
    by (simp add: args_data_def fee_for_def input_total_def)
  finally have run: "build_speedup cx entries None bump rate diff w = ?give" .
  note picks = get_funding_picks [OF assms(1-4)]
  have "w_store w1 = s'" using build_tx_store [OF assms(5)] by simp
  moreover have "release_marks coordinator_funding_storage [u] s' = w_store w"
    using picks release_after_reserve [OF assms(1)] by (simp add: release_marks_def coordinator_funding_storage_def)
  ultimately have "w_store (snd ?give) = note_news (InsufficientFunds (u_amount u) (fee + cx_max_dust_limit cx)) (w_store w)"
    using give_up_run(2) [of cx ?a "[u]" "u_amount u" fee w1 "fst ?give" "snd ?give"] by simp
  moreover have "fst ?give = Inr None"
    by (rule give_up_run(1) [OF prod.collapse [symmetric]]) simp
  ultimately show ?thesis using run get_funding_note [OF assms(4)] by (metis prod.collapse)
qed

text \<open>At 100 sat/vB the CPFP would cost 24900 sats: the 20000 at the head of the queue block it.\<close>

theorem small_operator_funding_blocks_witness:
  "\<exists>w'. build_speedup (demo_context (demo_services (\<lambda>x. False))) one_parent None (Fin 1) 100 0 build_world = (Inr None, w')
    \<and> w_store w' = note_news (InsufficientFunds 20000 (24900 + 546)) (w_store build_world)"
proof -
  let ?cx = "demo_context (demo_services (\<lambda>x. False))"
  have fees: "bs_fee (cx_settings ?cx) = default_fee_settings" "cx_max_dust_limit ?cx = 546"
    by (simp_all add: demo_context_def default_bitcoin_settings_def)
  have vsize: "tx_vsize (demo_build us f) = 150" for us f by (simp add: demo_build_def)
  have fee: "compute_speedup_fee (bs_fee (cx_settings ?cx)) (map snd one_parent) (tx_vsize (demo_build [plain_utxo 91] 1))
      (Fin 1) 100 False 0 = (24900, False)"
    using one_parent_fee(2) by (simp add: fees vsize)
  have small: "saturating_sub (u_amount (plain_utxo 91)) 24900 < cx_max_dust_limit ?cx"
    by (simp add: plain_amount fees saturating_sub_def)
  from small_operator_funding_blocks [OF build_world_ok build_world_funding demo_build_tx fee small]
  show ?thesis by (auto simp: plain_amount fees)
qed

section \<open>An output that is added again\<close>

lemma find_only:
  assumes "x \<in> set xs" "P x" "\<forall>y \<in> set xs. P y \<longrightarrow> y = x"
  shows "find P xs = Some x"
proof (cases "find P xs")
  case None
  then show ?thesis using assms(1,2) by (simp add: find_None_iff)
next
  case (Some y)
  then have "y \<in> set xs" "P y" by (auto simp: find_Some_iff)
  then show ?thesis using Some assms(3) by simp
qed

text \<open>The record of an output that is added again is written anew, in its place in the queue.\<close>

lemma append_queued:
  assumes "queue_ok s" and "st_funding s (utxo_outpoint u) = Some r"
  shows "append_funding u s =
    s\<lparr>st_funding := (st_funding s)(utxo_outpoint u \<mapsto> \<lparr>fd_utxo = u, fd_spent = False, fd_from_speedup = False\<rparr>)\<rparr>"
  using assms by (auto simp: append_funding_def Let_def put_funding_record_def queue_ok_def)

lemma only_free_after_append:
  assumes q: "queue_ok s" and r: "st_funding s (utxo_outpoint u) = Some r" and all: "\<forall>q \<in> set (read_funding_records s). fd_spent q"
    and P: "\<And>q. fd_spent q \<Longrightarrow> \<not> P q" "P \<lparr>fd_utxo = u, fd_spent = False, fd_from_speedup = False\<rparr>"
  shows "find P (read_funding_records (append_funding u s)) = Some \<lparr>fd_utxo = u, fd_spent = False, fd_from_speedup = False\<rparr>"
proof (rule find_only)
  have "utxo_outpoint u \<in> set (st_funding_list s)" using q r by (auto simp: queue_ok_def)
  then show "\<lparr>fd_utxo = u, fd_spent = False, fd_from_speedup = False\<rparr> \<in> set (read_funding_records (append_funding u s))"
    by (auto simp: append_queued [OF q r] read_funding_records_def mem_map_filter)
  show "\<forall>y \<in> set (read_funding_records (append_funding u s)). P y \<longrightarrow> y = \<lparr>fd_utxo = u, fd_spent = False, fd_from_speedup = False\<rparr>"
  proof (intro ballI impI)
    fix y assume y: "y \<in> set (read_funding_records (append_funding u s))" "P y"
    have "y \<notin> set (read_funding_records s)" using y(2) all P(1) by blast
    then show "y = \<lparr>fd_utxo = u, fd_spent = False, fd_from_speedup = False\<rparr>"
      using y(1) by (auto simp: append_queued [OF q r] read_funding_records_def mem_map_filter split: if_splits)
  qed
qed (rule P(2))

text \<open>
  C23. Adding an output again takes away its reservation: when every queued output is reserved and the client adds
  one of them once more, then \<open>set_funding\<close> returns without a complaint, the transactions are as before (so the
  speedup that spends the output is still in flight), and the output is the next one to be handed out, as a second
  input, and as the first one when no speedup in flight has a change to offer.
\<close>

theorem readded_funding_offered_twice:
  assumes "queue_ok s" and "st_funding s (utxo_outpoint u) = Some r" and "\<forall>q \<in> set (read_funding_records s). fd_spent q"
    and "min_funding_amount_sats settings \<le> u_amount u"
  shows "\<exists>s'. set_funding settings coordinator_funding_storage u s = (None, s')
    \<and> st_txs s' = st_txs s \<and> st_speedup_list s' = st_speedup_list s
    \<and> fst (get_combine_funding coordinator_funding_storage s') = Some u
    \<and> (live_chain_tip all (rev all) = Inr None \<longrightarrow>
        fst (get_funding coordinator_funding_storage all s') = Inr (Some (u, False)))"
proof -
  note free = only_free_after_append [OF assms(1-3)]
  have "set_funding settings coordinator_funding_storage u s = (None, append_funding u s)"
    using assms(4) by (simp add: set_funding_def validate_funding_def coordinator_funding_storage_def)
  moreover have "fst (get_combine_funding coordinator_funding_storage (append_funding u s)) = Some u"
    using free [of "\<lambda>r. \<not> (fd_from_speedup r \<or> fd_spent r)"]
    by (simp add: get_combine_funding_def coordinator_funding_storage_def)
  moreover have "live_chain_tip all (rev all) = Inr None \<Longrightarrow>
      fst (get_funding coordinator_funding_storage all (append_funding u s)) = Inr (Some (u, False))"
    using free [of "\<lambda>r. \<not> fd_spent r"] by (simp add: get_funding_def prog_simps coordinator_funding_storage_def)
  ultimately show ?thesis by (simp add: append_queued [OF assms(1,2)])
qed

text \<open>CPFP 10, in the mempool, spends the output 91, which the client adds again.\<close>

definition spending_store :: store where
  "spending_store = empty_store\<lparr>st_txs := [10 \<mapsto> plain_cpfp 10 [2] 91 InMempool], st_speedup_list := [10],
     st_funding_list := [OutPoint 91 0],
     st_funding := [OutPoint 91 0 \<mapsto> \<lparr>fd_utxo = plain_utxo 91, fd_spent = True, fd_from_speedup = False\<rparr>]\<rparr>"

theorem readded_funding_offered_twice_witness:
  "\<exists>s'. set_funding default_funding_settings coordinator_funding_storage (plain_utxo 91) spending_store = (None, s')
    \<and> st_txs s' 10 = Some (plain_cpfp 10 [2] 91 InMempool)
    \<and> fst (get_combine_funding coordinator_funding_storage s') = Some (plain_utxo 91)"
proof -
  have q: "queue_ok spending_store" "st_funding spending_store (utxo_outpoint (plain_utxo 91)) =
      Some \<lparr>fd_utxo = plain_utxo 91, fd_spent = True, fd_from_speedup = False\<rparr>"
    "\<forall>q \<in> set (read_funding_records spending_store). fd_spent q"
    by (auto simp: spending_store_def queue_ok_def read_funding_records_def List.map_filter_simps plain_utxo_def
        utxo_outpoint_def empty_store_def split: if_splits)
  have amount: "min_funding_amount_sats default_funding_settings \<le> u_amount (plain_utxo 91)"
    by (simp add: default_funding_settings_def plain_amount settings_constants)
  show ?thesis using readded_funding_offered_twice [OF q amount, of "[]"] by (auto simp: spending_store_def)
qed

end
