(* ===== verification/Funding_Refinement.thy ===== *)
theory Funding_Refinement
  imports Funding_Facts
begin

text \<open>
  The funding queue as an abstract data type. The specification is a list of records in the order they are
  offered; the implementation keeps a list of outpoints and a record under each. Any sequence of
  calls of the funding manager gives the same answers on both.
\<close>

section \<open>The specification\<close>

definition fresh_funding :: "utxo \<Rightarrow> funding_data" where
  "fresh_funding u = \<lparr>fd_utxo = u, fd_spent = False, fd_from_speedup = False\<rparr>"

definition refresh :: "utxo \<Rightarrow> funding_data \<Rightarrow> funding_data" where
  "refresh u r = (if utxo_outpoint (fd_utxo r) = utxo_outpoint u then fresh_funding u else r)"

definition queued :: "funding_data list \<Rightarrow> out_point set" where
  "queued q = (\<lambda>r. utxo_outpoint (fd_utxo r)) ` set q"

text \<open>A new output goes last; one that is already queued is made free again where it is.\<close>

definition enqueue :: "utxo \<Rightarrow> funding_data list \<Rightarrow> funding_data list" where
  "enqueue u q = (if utxo_outpoint u \<in> queued q then map (refresh u) q else q @ [fresh_funding u])"

text \<open>The first record that qualifies is reserved.\<close>

definition take_first :: "(funding_data \<Rightarrow> bool) \<Rightarrow> funding_data list \<Rightarrow> funding_data option \<times> funding_data list" where
  "take_first p q =
     (case find p q of
        Some r \<Rightarrow> (Some r, mark_records (utxo_outpoint (fd_utxo r)) True q)
      | None \<Rightarrow> (None, q))"

section \<open>Calls\<close>

text \<open>
  The calls of the funding manager on the queue: \<open>set_funding\<close>, \<open>get_funding\<close> when no speedup is live,
  \<open>get_combine_funding\<close>, \<open>release_marks\<close>, \<open>clear_funding\<close> and \<open>has_funding\<close>.
\<close>

datatype queue_call =
    SetFunding utxo
  | GetFunding
  | GetCombineFunding
  | ReleaseMarks "utxo list"
  | ClearFunding
  | HasFunding

datatype queue_answer =
    Rejection "coordinator_news option"
  | Primary "failure + (utxo \<times> bool) option"
  | Second "utxo option"
  | Done
  | Has bool

fun spec_call :: "funding_settings \<Rightarrow> queue_call \<Rightarrow> funding_data list \<Rightarrow> queue_answer \<times> funding_data list" where
  "spec_call cfg (SetFunding u) q =
     (if u_amount u < min_funding_amount_sats cfg
      then (Rejection (Some (InvalidFundingUtxo (u_amount u) (min_funding_amount_sats cfg))), q)
      else (Rejection None, enqueue u q))"
| "spec_call cfg GetFunding q =
     (let (found, q') = take_first (\<lambda>r. \<not> fd_spent r) q
      in (Primary (Inr (map_option (\<lambda>r. (fd_utxo r, fd_from_speedup r)) found)), q'))"
| "spec_call cfg GetCombineFunding q =
     (let (found, q') = take_first (\<lambda>r. \<not> (fd_from_speedup r \<or> fd_spent r)) q
      in (Second (map_option fd_utxo found), q'))"
| "spec_call cfg (ReleaseMarks us) q = (Done, fold (\<lambda>u. mark_records (utxo_outpoint u) False) us q)"
| "spec_call cfg ClearFunding q = (Done, [])"
| "spec_call cfg HasFunding q = (Has (q \<noteq> []), q)"

fun manager_call :: "funding_settings \<Rightarrow> 's funding_storage \<Rightarrow> queue_call \<Rightarrow> 's \<Rightarrow> queue_answer \<times> 's" where
  "manager_call cfg fs (SetFunding u) s = map_prod Rejection id (set_funding cfg fs u s)"
| "manager_call cfg fs GetFunding s = map_prod Primary id (get_funding fs [] s)"
| "manager_call cfg fs GetCombineFunding s = map_prod Second id (get_combine_funding fs s)"
| "manager_call cfg fs (ReleaseMarks us) s = (Done, release_marks fs us s)"
| "manager_call cfg fs ClearFunding s = (Done, clear_funding fs s)"
| "manager_call cfg fs HasFunding s = (Has (has_funding fs s), s)"

fun run_calls :: "('c \<Rightarrow> 's \<Rightarrow> 'a \<times> 's) \<Rightarrow> 'c list \<Rightarrow> 's \<Rightarrow> 'a list \<times> 's" where
  "run_calls step [] s = ([], s)"
| "run_calls step (c # cs) s =
     (let (a, s1) = step c s; (as, s2) = run_calls step cs s1 in (a # as, s2))"

section \<open>Refinement\<close>

text \<open>The contract of the storage, with what happens to an output that is queued again.\<close>

locale funding_queue = funding_store fs ok
  for fs :: "'s funding_storage" and ok :: "'s \<Rightarrow> bool" +
  assumes read_append_again: "ok s \<Longrightarrow> utxo_outpoint u \<in> queued (fs_read_funding_records fs s) \<Longrightarrow>
      fs_read_funding_records fs (fs_append_funding fs u s) = map (refresh u) (fs_read_funding_records fs s)"
begin

lemma read_enqueue:
  "ok s \<Longrightarrow> fs_read_funding_records fs (fs_append_funding fs u s) = enqueue u (fs_read_funding_records fs s)"
  using read_append [of s u] read_append_again [of s u] by (auto simp: enqueue_def queued_def fresh_funding_def)

lemma read_release:
  "ok s \<Longrightarrow> ok (release_marks fs us s) \<and> fs_read_funding_records fs (release_marks fs us s)
     = fold (\<lambda>u. mark_records (utxo_outpoint u) False) us (fs_read_funding_records fs s)"
  unfolding release_marks_def
  by (induction us arbitrary: s) (simp_all add: ok_set_spent read_set_spent)

lemma call_refines:
  assumes "ok s" and "manager_call cfg fs c s = (a, s')"
  shows "ok s' \<and> spec_call cfg c (fs_read_funding_records fs s) = (a, fs_read_funding_records fs s')"
  using assms
  by (cases c)
    (auto simp: set_funding_def validate_funding_def get_funding_def get_combine_funding_def clear_funding_def
      has_funding_def take_first_def prog_simps ok_append read_enqueue ok_set_spent read_set_spent ok_clear read_clear
      read_release split: option.splits if_splits)

lemma calls_refine:
  "ok s \<Longrightarrow> run_calls (manager_call cfg fs) cs s = (as, s') \<Longrightarrow>
     ok s' \<and> run_calls (spec_call cfg) cs (fs_read_funding_records fs s) = (as, fs_read_funding_records fs s')"
proof (induction cs arbitrary: s as)
  case (Cons c cs)
  obtain a s1 where s1: "manager_call cfg fs c s = (a, s1)" by fastforce
  obtain bs s2 where s2: "run_calls (manager_call cfg fs) cs s1 = (bs, s2)" by fastforce
  then have "as = a # bs" "s' = s2" using Cons.prems(2) s1 by simp_all
  then show ?case using call_refines [OF Cons.prems(1) s1] Cons.IH [of s1 bs] s2 by auto
qed simp

end

lemma refresh_map_filter:
  assumes "\<And>op r. m op = Some r \<Longrightarrow> utxo_outpoint (fd_utxo r) = op" and "set xs \<subseteq> dom m"
  shows "List.map_filter (m(utxo_outpoint u \<mapsto> fresh_funding u)) xs = map (refresh u) (List.map_filter m xs)"
  using assms(2)
proof (induction xs)
  case (Cons x xs)
  then obtain r where "m x = Some r" by auto
  with Cons assms(1) [OF this] show ?case
    by (auto simp: List.map_filter_simps refresh_def)
qed (simp add: List.map_filter_simps)

interpretation stored_queue: funding_queue coordinator_funding_storage queue_ok
proof
  fix s u
  assume ok: "queue_ok s" and m: "utxo_outpoint u \<in> queued (fs_read_funding_records coordinator_funding_storage s)"
  have "utxo_outpoint u \<in> set (st_funding_list s)"
    using m queue_okD [OF ok] by (auto simp: queued_def coordinator_funding_storage_def read_funding_records_def mem_map_filter)
  then show "fs_read_funding_records coordinator_funding_storage (fs_append_funding coordinator_funding_storage u s)
      = map (refresh u) (fs_read_funding_records coordinator_funding_storage s)"
    using refresh_map_filter [of "st_funding s" "st_funding_list s" u] ok
    by (simp add: coordinator_funding_storage_def read_funding_records_def append_funding_queue push_new_def
        queue_ok_def fresh_funding_def)
qed

text \<open>
  C28. The funding queue is a list of records: any sequence of calls of the funding manager (adding funding,
  taking the first free record, taking a second one, releasing, clearing, asking whether there is any) gives on
  the stored queue the answers that the specification gives on the list of records, and leaves a
  queue that reads as the specified list. Adding an output that is already queued
  makes its record free again in its place.
\<close>

theorem funding_queue_refines:
  assumes "queue_ok s" and "run_calls (manager_call cfg coordinator_funding_storage) calls s = (answers, s')"
  shows "run_calls (spec_call cfg) calls (read_funding_records s) = (answers, read_funding_records s')"
  using stored_queue.calls_refine [OF assms] by (simp add: coordinator_funding_storage_def)

text \<open>Two outputs are queued, one is taken, and adding it again offers it again.\<close>

theorem funding_queue_refines_witness:
  "fst (run_calls (manager_call default_funding_settings coordinator_funding_storage)
     [SetFunding (plain_utxo 90), SetFunding (plain_utxo 91), GetFunding, GetCombineFunding, GetFunding,
      SetFunding (plain_utxo 90), GetFunding, ClearFunding, HasFunding] empty_store)
   = [Rejection None, Rejection None, Primary (Inr (Some (plain_utxo 90, False))), Second (Some (plain_utxo 91)),
      Primary (Inr None), Rejection None, Primary (Inr (Some (plain_utxo 90, False))), Done, Has False]"
proof -
  let ?calls = "[SetFunding (plain_utxo 90), SetFunding (plain_utxo 91), GetFunding, GetCombineFunding, GetFunding,
      SetFunding (plain_utxo 90), GetFunding, ClearFunding, HasFunding]"
  have "queue_ok empty_store" by (simp add: queue_ok_def empty_store_def)
  from funding_queue_refines [OF this prod.collapse [symmetric], of default_funding_settings ?calls]
  have "fst (run_calls (manager_call default_funding_settings coordinator_funding_storage) ?calls empty_store)
      = fst (run_calls (spec_call default_funding_settings) ?calls (read_funding_records empty_store))"
    by (metis fst_conv)
  also have "read_funding_records empty_store = []"
    by (simp add: read_funding_records_def empty_store_def List.map_filter_simps)
  finally show ?thesis
    by (simp add: take_first_def enqueue_def queued_def fresh_funding_def refresh_def mark_records_def mark_record_def
        plain_utxo_def utxo_outpoint_def default_funding_settings_def settings_constants)
qed

end
