(* ===== verification/Delivery.thy ===== *)
theory Delivery
  imports Tx_Engine Program_Logic Store_Records
begin

text \<open>
  Progress of the transaction engine: when the monitor answers, one run of \<open>dispatch_pending\<close> brings every due
  transaction that can be sent, and that the node takes, into the mempool, whatever happens to the others.
\<close>

section \<open>A monitor that answers\<close>

text \<open>
  The monitor is at height \<open>h\<close>, no call of it fails, and every transaction with \<open>live\<close> is in the mempool
  or mined. Its answers may otherwise change with every call: a transaction that is not \<open>live\<close> may be found, or not.
\<close>

definition seen :: "'e engine_context \<Rightarrow> tx_status \<Rightarrow> bool" where
  "seen cx st \<longleftrightarrow> is_in_mempool st \<or> is_confirmed st \<or> is_finalized st (max_monitoring_confirmations (cx_settings cx))"

definition answers :: "'e engine_context \<Rightarrow> block_height \<Rightarrow> (txid \<Rightarrow> bool) \<Rightarrow> bool" where
  "answers cx h live \<longleftrightarrow> (let sv = cx_services cx in
     (\<forall>e. fst (sv_get_monitor_height sv e) = Inr h)
   \<and> (\<forall>d m e. fst (sv_monitor sv d m e) = Inr ())
   \<and> (\<forall>x e. \<exists>n. fst (sv_get_tx_confirmations sv x e) = Inr n)
   \<and> (\<forall>x v m e. \<exists>b. fst (sv_is_utxo_unspent_rpc sv x v m e) = Inr b)
   \<and> (\<forall>x m e. \<exists>st. fst (sv_get_tx_status sv x m e) = Inr st \<and> (live x \<longrightarrow> seen cx st)))"

text \<open>The node takes a transaction whenever it is offered.\<close>

definition takes :: "'e engine_context \<Rightarrow> transaction \<Rightarrow> bool" where
  "takes cx tx \<longleftrightarrow> (\<forall>e. fst (sv_send_transaction (cx_services cx) tx e) = Inr ())"

lemma answersD:
  assumes "answers cx h live"
  shows "fst (sv_get_monitor_height (cx_services cx) e) = Inr h"
    and "fst (sv_monitor (cx_services cx) d m e) = Inr ()"
    and "\<exists>n. fst (sv_get_tx_confirmations (cx_services cx) x e) = Inr n"
    and "\<exists>b. fst (sv_is_utxo_unspent_rpc (cx_services cx) x v m e) = Inr b"
    and "\<exists>st. fst (sv_get_tx_status (cx_services cx) x m e) = Inr st \<and> (live x \<longrightarrow> seen cx st)"
  using assms unfolding answers_def Let_def by blast+

lemma yields_height:
  "answers cx h live \<Longrightarrow> (\<And>w e. I (w\<lparr>w_ext := e\<rparr>) = I w) \<Longrightarrow> yields I (monitor_height cx) (\<lambda>k. k = h)"
  unfolding monitor_height_def by (rule yields_call) (auto simp: answersD(1))

section \<open>The report of a run\<close>

definition parents_live :: "(txid \<Rightarrow> bool) \<Rightarrow> store \<Rightarrow> coordinated_tx \<Rightarrow> bool" where
  "parents_live live s t \<longleftrightarrow> (\<forall>i \<in> set (tx_input (ct_tx t)). st_txs s (op_txid i) \<noteq> None \<longrightarrow> live (op_txid i))"

text \<open>A transaction that passes the checks of the dispatcher and of the node.\<close>

definition sure :: "'e engine_context \<Rightarrow> (txid \<Rightarrow> bool) \<Rightarrow> store \<Rightarrow> coordinated_tx \<Rightarrow> bool" where
  "sure cx live s t \<longleftrightarrow> validate_failure (bs_dispatcher (cx_settings cx)) t = None
     \<and> failed_parent coordinator_dispatcher_storage s t = None \<and> parents_live live s t \<and> takes cx (ct_tx t)"

text \<open>Every entry of the report belongs to a transaction of the run, and those with \<open>S\<close> have successes only.\<close>

definition fits :: "(coordinated_tx \<Rightarrow> bool) \<Rightarrow> coordinated_tx set \<Rightarrow> (txid \<times> dispatch_outcome) list \<Rightarrow> bool" where
  "fits S T rs \<longleftrightarrow> (\<forall>y o'. (y, o') \<in> set rs \<longrightarrow> (\<exists>t \<in> T. ct_txid t = y \<and> (S t \<longrightarrow> o' = Success)))
     \<and> (\<forall>t \<in> T. S t \<longrightarrow> (ct_txid t, Success) \<in> set rs)"

lemma fits_empty: "fits S {} []"
  by (simp add: fits_def)

lemma fits_append: "fits S T rs \<Longrightarrow> fits S T' rs' \<Longrightarrow> fits S (T \<union> T') (rs @ rs')"
  unfolding fits_def set_append Un_iff by blast

lemma fits_one: "(S t \<Longrightarrow> rs = [(ct_txid t, Success)]) \<Longrightarrow> (\<And>y o'. (y, o') \<in> set rs \<Longrightarrow> y = ct_txid t) \<Longrightarrow> fits S {t} rs"
  by (cases "S t") (auto simp: fits_def)

lemma parents_ready_answers:
  assumes "answers cx h live"
  shows "\<exists>b e'. parents_ready coordinator_dispatcher_storage s (cx_services cx)
      (max_monitoring_confirmations (cx_settings cx)) t e = (Inr b, e') \<and> (parents_live live s t \<longrightarrow> b)"
proof -
  have "\<exists>b e'. parents_ready_loop coordinator_dispatcher_storage s (cx_services cx)
      (max_monitoring_confirmations (cx_settings cx)) is e = (Inr b, e')
    \<and> ((\<forall>i \<in> set is. st_txs s (op_txid i) \<noteq> None \<longrightarrow> live (op_txid i)) \<longrightarrow> b)" for "is"
  proof (induction "is" arbitrary: e)
    case (Cons i "is")
    obtain st e1 where "sv_get_tx_status (cx_services cx) (op_txid i) True e = (Inr st, e1)" "live (op_txid i) \<longrightarrow> seen cx st"
      using answersD(5) [OF assms] by (metis prod.collapse)
    then show ?case using Cons.IH [of e] Cons.IH [of e1]
      by (auto simp: prog_simps coordinator_dispatcher_storage_def is_tx_known_def get_tx_by_id_def seen_def)
  qed (auto simp: prog_simps)
  then show ?thesis unfolding parents_ready_def parents_live_def .
qed

lemma dispatch_loop_answers:
  assumes ans: "answers cx h live"
  shows "\<exists>more e'. dispatch_loop coordinator_dispatcher_storage s (cx_services cx)
      (max_monitoring_confirmations (cx_settings cx)) ts rs e = (Inr (rs @ more), e')
    \<and> fits (sure cx live s) (set ts) more"
proof (induction ts arbitrary: rs e)
  case Nil
  then show ?case by (simp add: prog_simps fits_empty)
next
  case (Cons t ts)
  let ?loop = "dispatch_loop coordinator_dispatcher_storage s (cx_services cx) (max_monitoring_confirmations (cx_settings cx))"
  have step: ?case if "?loop (t # ts) rs e = ?loop ts (rs @ es) e1"
      and own: "fits (sure cx live s) {t} es" for es e1
  proof -
    obtain more e' where "?loop ts (rs @ es) e1 = (Inr ((rs @ es) @ more), e')" "fits (sure cx live s) (set ts) more"
      using Cons.IH by blast
    then show ?thesis using that(1) fits_append [OF own] by (intro exI [of _ "es @ more"] exI [of _ e']) simp
  qed
  obtain ready e1 where ready: "parents_ready coordinator_dispatcher_storage s (cx_services cx)
      (max_monitoring_confirmations (cx_settings cx)) t e = (Inr ready, e1)" "parents_live live s t \<longrightarrow> ready"
    using parents_ready_answers [OF ans] by blast
  obtain out e2 where sent: "send_outcome (cx_services cx) t e1 = (Inr out, e2)" "takes cx (ct_tx t) \<longrightarrow> out = Success"
    by (cases "takes cx (ct_tx t)") (auto simp: send_outcome_def prog_simps takes_def)
  show ?case
  proof (cases "failed_parent coordinator_dispatcher_storage s t")
    case (Some p)
    then show ?thesis by (intro step [where es = "[(ct_txid t, ParentFailed p)]"] fits_one) (auto simp: sure_def)
  next
    case None
    show ?thesis
    proof (cases ready)
      case True
      then show ?thesis using None ready sent
        by (intro step [where es = "[(ct_txid t, out)]"] fits_one) (auto simp: sure_def prog_simps)
    next
      case False
      then show ?thesis using None ready
        by (intro step [where es = "[]"] fits_one) (auto simp: sure_def prog_simps)
    qed
  qed
qed

lemma run_dispatcher_answers:
  assumes "answers cx h live"
  shows "\<exists>rs w'. run_dispatcher cx txs w = (Inr rs, w') \<and> w_store w' = w_store w
    \<and> fits (sure cx live (w_store w)) (set txs) rs"
proof -
  let ?failure = "validate_failure (bs_dispatcher (cx_settings cx))"
  let ?fatal = "List.map_filter (\<lambda>t. map_option (Pair (ct_txid t)) (?failure t)) txs"
  let ?valid = "filter (\<lambda>t. ?failure t = None) txs"
  obtain more e' where loop: "dispatch_loop coordinator_dispatcher_storage (w_store w) (cx_services cx)
      (max_monitoring_confirmations (cx_settings cx)) ?valid ?fatal (w_ext w) = (Inr (?fatal @ more), e')"
    and more: "fits (sure cx live (w_store w)) (set ?valid) more"
    using dispatch_loop_answers [OF assms] by blast
  have fatal: "fits (sure cx live (w_store w)) {t \<in> set txs. ?failure t \<noteq> None} ?fatal"
    unfolding fits_def by (auto simp: mem_map_filter) (auto simp: sure_def)
  have "{t \<in> set txs. ?failure t \<noteq> None} \<union> set ?valid = set txs" by auto
  then have "fits (sure cx live (w_store w)) (set txs) (?fatal @ more)" using fits_append [OF fatal more] by simp
  then show ?thesis using loop
    by (simp add: run_dispatcher_def dispatch_def validate_txs_eq prog_simps del: dispatch_loop.simps)
qed

section \<open>Failures spare the other transactions\<close>

definition plain_at :: "store \<Rightarrow> txid \<Rightarrow> bool" where
  "plain_at s x \<longleftrightarrow> (\<exists>t. st_txs s x = Some t \<and> \<not> is_speedup t)"

lemma is_speedup_erase: "is_speedup (skeleton t) = is_speedup t"
  by (cases "ct_kind t") (simp_all add: is_speedup_def skeleton_def)

lemma plain_at_only_fails: "only_fails s s' \<Longrightarrow> keyed s \<Longrightarrow> plain_at s x \<Longrightarrow> plain_at s' x"
  using only_failsD(3) [of s s' x]
  by (auto simp: plain_at_def option_rel_Some1 fails_to_def) (metis is_speedup_erase)+

lemma doomed_plain:
  assumes "doomed s origin x" and "plain_at s x"
  shows "x = origin"
  using assms
proof cases
  case (dependent p d)
  then have "is_speedup d" by (auto simp: depends_on_tx_def speedup_kind_of_def is_speedup_def split: tx_kind.splits)
  then show ?thesis using dependent(2) assms(2) by (simp add: waiting_def plain_at_def)
qed

definition spares :: "txid \<Rightarrow> store \<Rightarrow> store \<Rightarrow> bool" where
  "spares x s s' \<longleftrightarrow> keyed s' \<and> plain_at s' x \<and> tx_state s' x = tx_state s x"

lemma cascade_spares:
  assumes "keyed s" and "plain_at s x" and "x \<noteq> ct_txid t"
  shows "\<exists>s'. fail_and_cascade t h fm s = (Inr (), s') \<and> spares x s s'"
proof -
  obtain s' where s': "fail_and_cascade t h fm s = (Inr (), s')" "cascade_post s (ct_txid t) s'"
    using fail_and_cascade_run [OF assms(1)] by blast
  then have o: "only_fails s s'" by (simp add: cascade_post_def)
  have "tx_state s' x = tx_state s x"
    using s'(2) doomed_plain [OF _ assms(2)] assms(3) unfolding cascade_post_def by metis
  then show ?thesis
    using s'(1) only_failsD(1) [OF o assms(1)] plain_at_only_fails [OF o assms(1,2)] by (auto simp: spares_def)
qed

lemma failed_child_spares:
  assumes "keyed s" and "plain_at s x" and "x \<noteq> ct_txid t"
  shows "\<exists>s'. settle_failed_child t h s = (Inr (), s') \<and> spares x s s'"
  using cascade_spares [OF assms, of h False]
  by (auto simp: settle_failed_child_def rebuild_survivors_def prog_simps spares_def keyed_def plain_at_def tx_state_def)

section \<open>One result\<close>

definition result_step :: "'e engine_context \<Rightarrow> coordinated_tx list \<Rightarrow> block_height \<Rightarrow> u64
    \<Rightarrow> txid \<times> dispatch_outcome \<Rightarrow> ('e, unit) world_prog" where
  "result_step cx txs h rate = (\<lambda>(txid, outcome).
     pbind (plift (find_tx_in_batch txs txid)) (\<lambda>t.
     handle_dispatch_result cx t txid outcome h (compute_fee_for_tx (ct_tx t) rate)))"

lemma dispatch_batch_steps:
  "dispatch_batch cx ts h =
     pbind (network_fee_rate_noted cx) (\<lambda>rate. pbind (apply_retry_rate_limit cx ts) (\<lambda>txs.
     pbind (run_dispatcher cx txs) (\<lambda>results. pfor results (result_step cx txs h rate))))"
  by (simp add: dispatch_batch_def result_step_def)

text \<open>The record of \<open>x\<close> is not a speedup and in the state \<open>st\<close>.\<close>

definition holds_at :: "txid \<Rightarrow> transaction_state \<Rightarrow> store \<Rightarrow> bool" where
  "holds_at x st s \<longleftrightarrow> keyed s \<and> plain_at s x \<and> tx_state s x = Some st"

lemma holds_note: "holds_at x st s \<Longrightarrow> holds_at x st (note_news n s)"
  by (simp add: holds_at_def keyed_def plain_at_def tx_state_def)

lemma holds_update: "holds_at x st s \<Longrightarrow> ct_txid t \<noteq> x \<Longrightarrow> holds_at x st (update_tx t s)"
  by (auto simp: holds_at_def keyed_def plain_at_def tx_state_def update_tx_def)

lemma holds_spares: "holds_at x st s \<Longrightarrow> spares x s s' \<Longrightarrow> holds_at x st s'"
  by (simp add: holds_at_def spares_def)

lemma holds_retry:
  assumes "holds_at x st s" "y \<noteq> x"
  shows "holds_at x st (mark_as_retry y s)"
proof -
  have "ct_txid t = y" if "st_txs s y = Some t" for t using assms(1) that by (auto simp: holds_at_def keyed_def)
  then show ?thesis using assms
    by (auto simp: mark_as_retry_def get_tx_by_id_def intro!: holds_note holds_update split: option.split)
qed

lemma yields_failures:
  assumes "ct_txid t \<noteq> x"
  shows "yields (holds_at x st) (fail_and_cascade t h fm) (\<lambda>_. True)"
    and "yields (holds_at x st) (settle_failed_child t h) (\<lambda>_. True)"
  using cascade_spares [of _ x t h fm] failed_child_spares [of _ x t h] holds_spares assms
  unfolding yields_def holds_at_def by (metis (no_types, lifting))+

lemma yields_input_missing:
  assumes "answers cx h live"
  shows "yields (in_store I) (some_input_missing cx ops) (\<lambda>_. True)"
proof (induction ops)
  case (Cons op ops)
  have "yields (in_store I) (call_monitor (sv_is_utxo_unspent_rpc (cx_services cx) (op_txid op) (op_vout op) True)) (\<lambda>_. True)"
    by (rule yields_call) (use answersD(4) [OF assms] in auto)
  then show ?case using Cons by (auto intro!: yields_bind yields_if yields_ret)
qed (simp add: yields_ret)

lemma yields_missing_kind: "answers cx h live \<Longrightarrow> yields (in_store I) (missing_input_kind cx t) (\<lambda>_. True)"
  unfolding missing_input_kind_def by (auto intro!: yields_bind [OF yields_input_missing] yields_if yields_ret)

lemma yields_monitor_again: "answers cx h live \<Longrightarrow> yields (in_store I) (monitor_again cx t y) (\<lambda>_. True)"
  unfolding monitor_again_def by (rule yields_call) (auto simp: answersD(2))

lemma predecessor_plain: "\<not> is_speedup t \<Longrightarrow> mark_predecessor t y = pret ()"
  by (auto simp: mark_predecessor_def is_speedup_def split: tx_kind.splits)

text \<open>The result of another transaction is handled without an error, whatever it is.\<close>

lemma yields_other_result:
  assumes ans: "answers cx h live" and t: "\<not> is_speedup t" "ct_txid t = y" "y \<noteq> x"
  shows "yields (in_store (holds_at x st)) (handle_dispatch_result cx t y o' h info) (\<lambda>_. True)"
proof -
  have accepted: "yields (in_store (holds_at x st)) (mark_accepted cx t y h info) (\<lambda>_. True)"
    and confirmed: "yields (in_store (holds_at x st)) (mark_already_confirmed cx t y h) (\<lambda>_. True)"
    unfolding mark_accepted_def mark_already_confirmed_def predecessor_plain [OF t(1)]
    by (intro yields_seq [OF yields_on_store [OF yields_ret]] yields_monitor_again [OF ans]
        yields_seq [OF yields_on_store [OF yields_modify]] TrueI holds_update; simp add: t)+
  have confs: "yields (in_store (holds_at x st)) (call_monitor (sv_get_tx_confirmations (cx_services cx) y)) (\<lambda>_. True)"
    by (rule yields_call) (use answersD(3) [OF ans] in auto)
  have classified: "yields (in_store (holds_at x st)) (classify_dispatch_error cx t y h info) (\<lambda>_. True)"
    unfolding classify_dispatch_error_def
    by (intro yields_bind [OF confs] yields_bind [OF yields_missing_kind [OF ans]] yields_option yields_if accepted confirmed
        yields_on_store yields_modify yields_failures holds_retry TrueI) (use t in auto)
  show ?thesis
    unfolding handle_dispatch_result_def
    by (rule yields_seq [OF yields_lift [where P = "\<lambda>_. True"]])
      (use t accepted classified in \<open>auto simp: verify_tx_id_def intro!: yields_on_store yields_failures split: dispatch_outcome.split\<close>)
qed

lemma result_step_run:
  assumes ans: "answers cx h live" and txs: "\<forall>t \<in> set txs. \<not> is_speedup t"
    and r: "y \<in> ct_txid ` set txs" "y = x \<longrightarrow> o' = Success" and w: "holds_at x st (w_store w)"
  shows "\<exists>w'. result_step cx txs h rate (y, o') w = (Inr (), w')
    \<and> holds_at x (if y = x then InMempool else st) (w_store w')"
proof -
  obtain t where t: "find_tx_in_batch txs y = Inr t" using find_tx_in_batch_total [OF r(1)] by blast
  then have id: "ct_txid t = y" and n: "\<not> is_speedup t" using find_tx_in_batch_Inr txs by blast+
  let ?info = "compute_fee_for_tx (ct_tx t) rate"
  have step: "result_step cx txs h rate (y, o') w = handle_dispatch_result cx t y o' h ?info w"
    by (simp add: result_step_def prog_simps t)
  show ?thesis
  proof (cases "y = x")
    case True
    let ?t = "t\<lparr>ct_state := InMempool, ct_broadcast_block_height := Some h, ct_fee_info := ?info, ct_fail_guard_until := None\<rparr>"
    have mempool: "holds_at x InMempool (update_tx ?t (w_store w))"
      using w id n True by (auto simp: holds_at_def keyed_def plain_at_def tx_state_def update_tx_def is_speedup_def)
    obtain w' where "monitor_again cx t y (w\<lparr>w_store := update_tx ?t (w_store w)\<rparr>) = (Inr (), w')" "holds_at x InMempool (w_store w')"
      using yieldsE [OF yields_monitor_again [OF ans, where I = "holds_at x InMempool"],
          of "w\<lparr>w_store := update_tx ?t (w_store w)\<rparr>" t y] mempool by auto
    then show ?thesis using True r(2) unfolding step
      by (simp add: handle_dispatch_result_def verify_tx_id_def id mark_accepted_def predecessor_plain [OF n] prog_simps)
  next
    case False
    obtain u w' where "handle_dispatch_result cx t y o' h ?info w = (Inr u, w')" "holds_at x st (w_store w')"
      using w by (rule yieldsE [OF yields_other_result [OF ans n id False]])
    then show ?thesis unfolding step using False by simp
  qed
qed

lemma results_run:
  assumes ans: "answers cx h live" and txs: "\<forall>t \<in> set txs. \<not> is_speedup t"
    and rs: "\<forall>(y, o') \<in> set rs. y \<in> ct_txid ` set txs \<and> (y = x \<longrightarrow> o' = Success)"
    and w: "holds_at x st (w_store w)"
  shows "\<exists>w'. pfor rs (result_step cx txs h rate) w = (Inr (), w')
    \<and> holds_at x (if x \<in> fst ` set rs then InMempool else st) (w_store w')"
  using rs w
proof (induction rs arbitrary: w st)
  case (Cons r rs)
  obtain y o' where r: "r = (y, o')" by fastforce
  have "y \<in> ct_txid ` set txs" "y = x \<longrightarrow> o' = Success" using Cons.prems(1) r by auto
  from result_step_run [OF ans txs this Cons.prems(2)]
  obtain w1 where w1: "result_step cx txs h rate (y, o') w = (Inr (), w1)"
      "holds_at x (if y = x then InMempool else st) (w_store w1)" by blast
  obtain w2 where "pfor rs (result_step cx txs h rate) w1 = (Inr (), w2)"
      "holds_at x (if x \<in> fst ` set rs then InMempool else (if y = x then InMempool else st)) (w_store w2)"
    using Cons.IH [OF _ w1(2)] Cons.prems(1) by auto
  then show ?case using w1(1) r by (auto simp: prog_simps split: if_splits)
qed (simp add: prog_simps)

section \<open>Delivery\<close>

text \<open>A record that \<open>dispatch_pending\<close> can send: due, well formed, with live tracked parents, and taken by the node.\<close>

definition deliverable :: "'e engine_context \<Rightarrow> block_height \<Rightarrow> (txid \<Rightarrow> bool) \<Rightarrow> store \<Rightarrow> coordinated_tx \<Rightarrow> bool" where
  "deliverable cx h live s t \<longleftrightarrow> \<not> is_speedup t \<and> ct_state t = ToDispatch \<and> is_ready_to_dispatch t h \<and> sure cx live s t"

lemma limited_run:
  "\<exists>w' ready. apply_retry_rate_limit cx txs w = (Inr (filter (\<lambda>t. is_retry t \<longrightarrow> ready) txs), w')
    \<and> w_store w' = w_store w \<and> (w_last_retry_at w = None \<longrightarrow> ready)"
proof -
  have "\<exists>ready w1. retry_ready cx w = (Inr ready, w1) \<and> w_store w1 = w_store w \<and> (w_last_retry_at w = None \<longrightarrow> ready)"
    by (cases "w_last_retry_at w") (auto simp: retry_ready_def read_clock_def prog_simps intro: exI [of _ True])
  then obtain ready w1 where w1: "retry_ready cx w = (Inr ready, w1)" "w_store w1 = w_store w"
      "w_last_retry_at w = None \<longrightarrow> ready"
    by (elim exE conjE) (rule that)
  then show ?thesis
    by (intro exI [of _ "snd (apply_retry_rate_limit cx txs w)"] exI [of _ ready])
      (simp add: apply_retry_rate_limit_def read_clock_def prog_simps Let_def cong: if_cong)
qed

lemma noted_run:
  "\<exists>rate w'. network_fee_rate_noted cx w = (Inr rate, w') \<and> st_txs (w_store w') = st_txs (w_store w)
    \<and> w_last_retry_at w' = w_last_retry_at w"
  by (auto simp: network_fee_rate_noted_def network_fee_rate_def prog_simps split: prod.split option.split)

definition due :: "'e engine_context \<Rightarrow> block_height \<Rightarrow> store \<Rightarrow> coordinated_tx list" where
  "due cx h s = filter (\<lambda>t. \<not> is_speedup t \<and> ct_state t = ToDispatch \<and> is_ready_to_dispatch t h) (get_active_txs (cx_scan cx) s)"

lemma mem_due:
  assumes "scan_spec (cx_scan cx)" and "keyed s" and "finite (dom (st_txs s))"
  shows "u \<in> set (due cx h s) \<longleftrightarrow> \<not> is_speedup u \<and> ct_state u = ToDispatch \<and> is_ready_to_dispatch u h
    \<and> st_txs s (ct_txid u) = Some u"
  using mem_get_all_txs [OF assms(1,3)] keyedD [OF assms(2)] by (auto simp: due_def get_active_txs_def)

lemma dispatch_pending_steps:
  assumes ans: "answers cx h live" and "t \<in> set (due cx h (w_store w))" and "\<not> is_retry t \<or> w_last_retry_at w = None"
  shows "\<exists>rate txs rs w'. dispatch_pending cx w = pfor rs (result_step cx txs h rate) w'
    \<and> st_txs (w_store w') = st_txs (w_store w) \<and> fits (sure cx live (w_store w')) (set txs) rs
    \<and> t \<in> set txs \<and> set txs \<subseteq> set (due cx h (w_store w))"
proof -
  let ?ts = "due cx h (w_store w)"
  obtain e0 where "sv_get_monitor_height (cx_services cx) (w_ext w) = (Inr h, e0)" using answersD(1) [OF ans] by (metis prod.collapse)
  then have height: "monitor_height cx w = (Inr h, w\<lparr>w_ext := e0\<rparr>)"
    by (simp add: monitor_height_def call_monitor_def prog_simps)
  have "?ts \<noteq> []" "get_active_txs (cx_scan cx) (w_store w) \<noteq> []" using assms(2) by (force simp: due_def filter_empty_conv)+
  then have run: "dispatch_pending cx w = dispatch_batch cx ?ts h (w\<lparr>w_ext := e0\<rparr>)"
    unfolding dispatch_pending_def by (simp add: height prog_simps Let_def due_def)
  obtain rate w1 where w1: "network_fee_rate_noted cx (w\<lparr>w_ext := e0\<rparr>) = (Inr rate, w1)"
      "st_txs (w_store w1) = st_txs (w_store w)" "w_last_retry_at w1 = w_last_retry_at w"
    using noted_run [of cx "w\<lparr>w_ext := e0\<rparr>"] by auto
  obtain ready w2 where w2: "apply_retry_rate_limit cx ?ts w1 = (Inr (filter (\<lambda>t. is_retry t \<longrightarrow> ready) ?ts), w2)"
      "w_store w2 = w_store w1" "w_last_retry_at w1 = None \<longrightarrow> ready"
    using limited_run by blast
  define txs where "txs = filter (\<lambda>t. is_retry t \<longrightarrow> ready) ?ts"
  obtain rs w3 where w3: "run_dispatcher cx txs w2 = (Inr rs, w3)" "w_store w3 = w_store w2"
      "fits (sure cx live (w_store w2)) (set txs) rs"
    using run_dispatcher_answers [OF ans] by blast
  have "dispatch_pending cx w = pfor rs (result_step cx txs h rate) w3"
    unfolding run dispatch_batch_steps pbind_run w1(1) prod.case sum.case w2(1) txs_def [symmetric] w3 ..
  moreover have "t \<in> set txs" "set txs \<subseteq> set ?ts" using assms(2,3) w2(3) w1(3) unfolding txs_def by auto
  ultimately show ?thesis using w1(2) w2(2) w3(2,3) by metis
qed

text \<open>What happens to the other transactions of the run does not disturb a deliverable record.\<close>

lemma dispatch_pending_delivers:
  assumes "answers cx h live" and "scan_spec (cx_scan cx)" and "keyed (w_store w)" and "finite (dom (st_txs (w_store w)))"
    and "st_txs (w_store w) x = Some t" and "deliverable cx h live (w_store w) t"
    and "\<not> is_retry t \<or> w_last_retry_at w = None"
  shows "\<exists>w'. dispatch_pending cx w = (Inr (), w') \<and> holds_at x InMempool (w_store w')"
proof -
  note stored = mem_due [OF assms(2-4)]
  have id: "ct_txid t = x" using keyedD [OF assms(3,5)] .
  have "t \<in> set (due cx h (w_store w))" using stored assms(5,6) id by (simp add: deliverable_def)
  from dispatch_pending_steps [OF assms(1) this assms(7)] obtain rate txs rs w1 where
      run: "dispatch_pending cx w = pfor rs (result_step cx txs h rate) w1"
    and same: "st_txs (w_store w1) = st_txs (w_store w)" and fits: "fits (sure cx live (w_store w1)) (set txs) rs"
    and t: "t \<in> set txs" and sub: "set txs \<subseteq> set (due cx h (w_store w))"
    by blast
  have only: "u = t" if "u \<in> set txs" "ct_txid u = x" for u
    using stored [THEN iffD1, OF subsetD [OF sub that(1)]] that(2) assms(5) by simp
  have sure: "sure cx live (w_store w1) t"
    using assms(6) same by (simp add: deliverable_def sure_def parents_live_def failed_parent_def
        coordinator_dispatcher_storage_def is_tx_known_def is_tx_failed_def get_tx_by_id_def)
  then have "(x, Success) \<in> set rs" using fits t id by (auto simp: fits_def)
  then have "x \<in> fst ` set rs" by force
  moreover have "\<forall>(y, o') \<in> set rs. y \<in> ct_txid ` set txs \<and> (y = x \<longrightarrow> o' = Success)"
    using fits only sure unfolding fits_def by fastforce
  moreover have "\<forall>u \<in> set txs. \<not> is_speedup u" using sub stored by blast
  moreover have "holds_at x ToDispatch (w_store w1)"
    using assms(3,5,6) same by (simp add: holds_at_def keyed_def plain_at_def tx_state_def deliverable_def)
  ultimately show ?thesis using results_run [OF assms(1), of txs rs x ToDispatch w1 rate] unfolding run by simp
qed

end
