(* ===== verification/Tick_Phases.thy ===== *)
theory Tick_Phases
  imports Delivery Broadcast_Facts Speedup_Facts Coordinator_Facts
begin

text \<open>
  The phases of a tick, seen from one transaction \<open>x\<close> that is not a speedup: the reviews change its record only
  as the monitor reports, and what the tick does after \<open>dispatch_pending\<close> does not change its state any more.
\<close>

section \<open>The reviews and the other transactions\<close>

text \<open>
  The record of \<open>x\<close> is \<open>r\<close>, every other record has one in \<open>s0\<close>, which was failed if it is, and no speedup
  was listed since.
\<close>

definition aside :: "txid \<Rightarrow> coordinated_tx \<Rightarrow> store \<Rightarrow> store \<Rightarrow> bool" where
  "aside x r s0 s \<longleftrightarrow> keyed s \<and> st_txs s x = Some r \<and> set (st_speedup_list s) \<subseteq> set (st_speedup_list s0)
     \<and> (\<forall>y u. st_txs s y = Some u \<longrightarrow> st_txs s0 y \<noteq> None \<and> (ct_state u = Failed \<longrightarrow> tx_state s0 y = Some Failed))"

lemma aside_refl: "keyed s \<Longrightarrow> st_txs s x = Some r \<Longrightarrow> aside x r s s"
  by (auto simp: aside_def tx_state_def)

lemma aside_same:
  "aside x r s0 s \<Longrightarrow> st_txs s' = st_txs s \<Longrightarrow> st_speedup_list s' = st_speedup_list s \<Longrightarrow> aside x r s0 s'"
  by (simp add: aside_def keyed_def)

lemma aside_note: "aside x r s0 s \<Longrightarrow> aside x r s0 (note_news n s)"
  by (rule aside_same) simp_all

lemma aside_update:
  assumes "aside x r s0 s" "ct_txid t \<noteq> x" "st_txs s0 (ct_txid t) \<noteq> None" "ct_state t \<noteq> Failed"
  shows "aside x r s0 (update_tx t s)"
  using assms by (auto simp: aside_def keyed_def update_tx_def)

lemma aside_remove: "aside x r s0 s \<Longrightarrow> y \<noteq> x \<Longrightarrow> aside x r s0 (remove_tx y s)"
  by (auto simp: aside_def keyed_def remove_tx_def remove_speedup_from_list_def)

text \<open>No transition leads to \<open>Failed\<close>.\<close>

lemma aside_transition:
  assumes "aside x r s0 s" "y \<noteq> x" "st \<noteq> Failed" "is_terminal st \<longrightarrow> h \<noteq> None"
  shows "\<exists>s'. update_tx_state_impl y st h s = (Inr (), s') \<and> aside x r s0 s'"
proof (cases "st_txs s y")
  case None
  then show ?thesis using assms by (auto simp: update_tx_state_impl_def get_tx_by_id_def intro: aside_note)
next
  case (Some t)
  then have "ct_txid t = y" "st_txs s0 y \<noteq> None" using assms(1) by (auto simp: aside_def keyed_def)
  then show ?thesis using assms Some
    by (auto simp: update_tx_state_impl_def get_tx_by_id_def Let_def intro!: aside_note aside_update)
qed

lemma yields_marks:
  assumes "y \<noteq> x"
  shows "yields (aside x r s0) (mark_finalized y h) (\<lambda>_. True)" "yields (aside x r s0) (mark_confirmed y) (\<lambda>_. True)"
    "yields (aside x r s0) (mark_orphan y) (\<lambda>_. True)"
  using aside_transition [OF _ assms]
  by (simp_all add: yields_def mark_finalized_def mark_confirmed_def mark_orphan_def settle_tx_def update_tx_state_def
      is_terminal_def)

lemma aside_requeue: "aside x r s0 s \<Longrightarrow> y \<noteq> x \<Longrightarrow> aside x r s0 (requeue_not_found y d s)"
  by (auto simp: requeue_not_found_def get_tx_by_id_def intro!: aside_note aside_update split: option.split)
    (auto simp: aside_def keyed_def)

text \<open>In the world, with the time of the last retry.\<close>

definition at_rest :: "txid \<Rightarrow> coordinated_tx \<Rightarrow> 'e world \<Rightarrow> 'e world \<Rightarrow> bool" where
  "at_rest x r w0 w \<longleftrightarrow> aside x r (w_store w0) (w_store w) \<and> w_last_retry_at w = w_last_retry_at w0"

lemma rest_store: "yields (aside x r (w_store w0)) m P \<Longrightarrow> yields (at_rest x r w0) (on_store m) P"
  by (fastforce simp: yields_def at_rest_def on_store_run)

lemma rest_modify: "(\<And>s. aside x r (w_store w0) s \<Longrightarrow> aside x r (w_store w0) (f s)) \<Longrightarrow> yields (at_rest x r w0) (on_store (pmodify f)) (\<lambda>_. True)"
  by (intro rest_store yields_modify TrueI)

lemma rest_outside: "at_rest x r w0 (w\<lparr>w_ext := e\<rparr>) = at_rest x r w0 w"
  by (simp add: at_rest_def)

lemma rest_height: "answers cx h live \<Longrightarrow> yields (at_rest x r w0) (monitor_height cx) (\<lambda>k. k = h)"
  by (rule yields_height) (simp_all add: rest_outside)

lemma rest_status:
  assumes "answers cx h live" and "\<And>e st. fst (sv_get_tx_status (cx_services cx) y m e) = Inr st \<Longrightarrow> P st"
  shows "yields (at_rest x r w0) (call_monitor (sv_get_tx_status (cx_services cx) y m)) P"
  by (rule yields_call [OF _ rest_outside]) (metis answersD(5) [OF assms(1)] assms(2))

lemma evict_aside:
  assumes s: "aside x r s0 s" and x: "\<not> is_terminal (ct_state r)"
  shows "aside x r s0 (evict_stale_txs cfg scan h s)"
proof -
  have "ct_txid t \<noteq> x" if "t \<in> set (get_settled_txs scan s)" for t
    using that s x by (auto simp: get_settled_txs_def get_all_txs_def mem_map_filter aside_def keyed_def is_terminal_def)
  moreover have "aside x r s0 (fold (evict_one cfg h psp cov) ts s)" if "\<forall>t \<in> set ts. ct_txid t \<noteq> x" "aside x r s0 s" for psp cov ts s
    using that by (induction ts arbitrary: s) (auto simp: evict_one_def intro: aside_note aside_remove split: option.split)
  ultimately show ?thesis using s by (simp add: evict_stale_txs_def)
qed

lemma rest_review_transaction:
  assumes "answers cx h live" "ct_txid t \<noteq> x" "st_txs (w_store w0) (ct_txid t) \<noteq> None"
  shows "yields (at_rest x r w0) (review_transaction cx h t) (\<lambda>_. True)"
  unfolding review_transaction_def Let_def using assms
  by (intro yields_bind [OF rest_status [where P = "\<lambda>_. True"]] yields_if yields_ret TrueI rest_modify rest_store
      yields_marks)
    (auto simp: mark_reorg_def intro: aside_update aside_note aside_requeue)

lemma rest_review_active:
  assumes acc: "answers cx h live" and x: "ct_state r = ToDispatch"
  shows "yields (at_rest x r w0) (review_active cx) (\<lambda>_. True)"
proof -
  let ?reviewed = "\<lambda>t. ct_state t \<in> {InMempool, Confirmed} \<longrightarrow> ct_txid t \<noteq> x \<and> st_txs (w_store w0) (ct_txid t) \<noteq> None"
  have active: "yields (aside x r (w_store w0)) (pget (get_active_txs (cx_scan cx))) (\<lambda>ts. \<forall>t \<in> set ts. ?reviewed t)"
    by (rule yields_get) (use x in \<open>auto simp: get_active_txs_def get_all_txs_def mem_map_filter aside_def keyed_def tx_state_def\<close>)
  show ?thesis
    unfolding review_active_def review_transactions_def Let_def
    by (auto intro!: yields_bind [OF rest_height [OF acc]] yields_bind [OF rest_store [OF active]] yields_if yields_ret
        yields_for rest_review_transaction [OF acc] yields_seq [OF rest_modify] evict_aside)
      (simp add: x is_terminal_def)
qed

text \<open>No speedup of the coordinator has become final.\<close>

definition calm :: "'e engine_context \<Rightarrow> store \<Rightarrow> bool" where
  "calm cx s \<longleftrightarrow> (\<forall>y \<in> set (st_speedup_list s). \<forall>e st. fst (sv_get_tx_status (cx_services cx) y True e) = Inr st
     \<longrightarrow> \<not> is_finalized st (max_monitoring_confirmations (cx_settings cx)))"

lemma rest_review_speedup:
  assumes "answers cx h live" "ct_state t \<in> {InMempool, Confirmed} \<Longrightarrow> ct_txid t \<noteq> x" "st_txs (w_store w0) (ct_txid t) \<noteq> None"
    and "calm cx (w_store w0)" "ct_txid t \<in> set (st_speedup_list (w_store w0))"
  shows "yields (at_rest x r w0) (review_speedup cx all h t) (\<lambda>_. True)"
  unfolding review_speedup_def Let_def using assms
  by (intro yields_bind [OF rest_status [where P = "\<lambda>st. \<not> is_finalized st (max_monitoring_confirmations (cx_settings cx))"]]
      yields_if yields_ret TrueI rest_modify rest_store yields_marks)
    (auto simp: mark_reorg_def calm_def intro: aside_update aside_note aside_requeue)

lemma rest_review_speedups:
  assumes acc: "answers cx h live" and calm: "calm cx (w_store w0)"
    and x: "ct_state r = ToDispatch \<or> x \<notin> set (st_speedup_list (w_store w0))"
  shows "yields (at_rest x r w0) (review_speedups cx) (\<lambda>_. True)"
proof -
  let ?listed = "\<lambda>t. (ct_state t \<in> {InMempool, Confirmed} \<longrightarrow> ct_txid t \<noteq> x) \<and> st_txs (w_store w0) (ct_txid t) \<noteq> None
    \<and> ct_txid t \<in> set (st_speedup_list (w_store w0))"
  have listed: "yields (aside x r (w_store w0)) (pget get_speedups_ordered) (\<lambda>ts. \<forall>t \<in> set ts. ?listed t)"
    by (rule yields_get) (use x in \<open>auto simp: get_speedups_ordered_def mem_map_filter aside_def keyed_def tx_state_def subset_iff\<close>)
  show ?thesis
    unfolding review_speedups_def
    by (auto intro!: yields_bind [OF rest_height [OF acc]] yields_bind [OF rest_store [OF listed]] yields_if yields_ret
        yields_for rest_review_speedup [OF acc _ _ calm])
qed

section \<open>The review of the transaction itself\<close>

text \<open>The state a status asks for, in the order in which the code looks at it.\<close>

definition verdict :: "'e engine_context \<Rightarrow> tx_status \<Rightarrow> transaction_state option" where
  "verdict cx st =
     (if is_in_mempool st then Some InMempool
      else if is_not_found st then Some ToDispatch
      else if is_finalized st (max_monitoring_confirmations (cx_settings cx)) then Some Finalized
      else if is_confirmed st then Some Confirmed
      else if is_orphan st then Some InMempool
      else None)"

text \<open>Whenever it is asked, the monitor says that \<open>x\<close> is to be in the state \<open>v\<close>.\<close>

definition reports :: "'e engine_context \<Rightarrow> txid \<Rightarrow> transaction_state \<Rightarrow> bool" where
  "reports cx x v \<longleftrightarrow> (\<forall>m e st. fst (sv_get_tx_status (cx_services cx) x m e) = Inr st \<longrightarrow> verdict cx st = Some v)"

definition follows :: "transaction_state \<Rightarrow> coordinated_tx \<Rightarrow> coordinated_tx \<Rightarrow> bool" where
  "follows v t t' \<longleftrightarrow> ct_state t' = v \<and> ct_txid t' = ct_txid t \<and> ct_tx t' = ct_tx t \<and> ct_kind t' = ct_kind t
     \<and> ct_target_block_height t' = ct_target_block_height t \<and> ct_retry_count t' = ct_retry_count t"

lemma aside_own:
  "aside x r s0 s \<Longrightarrow> ct_txid t = x \<Longrightarrow> st_txs s0 x \<noteq> None \<Longrightarrow> ct_state t \<noteq> Failed \<Longrightarrow> aside x t s0 (update_tx t s)"
  by (auto simp: aside_def keyed_def update_tx_def)

lemma aside_txid: "aside x r s0 s \<Longrightarrow> ct_txid r = x \<and> st_txs s0 x \<noteq> None"
  by (auto simp: aside_def keyed_def)

lemma own_mark:
  assumes s: "aside x t s0 s" and state: "ct_state t \<in> {InMempool, Confirmed}"
    and v: "v \<noteq> Failed" "is_terminal v \<longleftrightarrow> hs \<noteq> None"
  shows "\<exists>t' s'. update_tx_state_impl x v hs s = (Inr (), s') \<and> follows v t t' \<and> aside x t' s0 s'"
proof -
  let ?t = "(if is_terminal v then t\<lparr>ct_settled_block_height := hs\<rparr> else t)\<lparr>ct_state := v\<rparr>"
  have "can_transition_to (ct_state t) v" using state v(1) by (cases v) auto
  then have "update_tx_state_impl x v hs s = (Inr (), update_tx ?t s)"
    using s v(2) by (auto simp: update_tx_state_impl_def get_tx_by_id_def aside_def Let_def)
  moreover have "aside x ?t s0 (update_tx ?t s)" using aside_txid [OF s] v(1) by (intro aside_own [OF s]) auto
  moreover have "follows v t ?t" by (simp add: follows_def)
  ultimately show ?thesis by blast
qed

lemma own_review:
  assumes ans: "answers cx h live" and rep: "reports cx x v"
    and w: "at_rest x t w0 w" and state: "ct_state t \<in> {InMempool, Confirmed}"
  shows "\<exists>t' w'. review_transaction cx h t w = (Inr (), w') \<and> follows v t t' \<and> at_rest x t' w0 w'"
proof -
  have s: "aside x t (w_store w0) (w_store w)" and retry: "w_last_retry_at w = w_last_retry_at w0"
    using w by (simp_all add: at_rest_def)
  note id = aside_txid [OF s]
  then have x: "x = ct_txid t" by simp
  obtain st e where st: "sv_get_tx_status (cx_services cx) (ct_txid t) (\<exists>b. ct_broadcast_block_height t = Some b) (w_ext w) = (Inr st, e)"
    using answersD(5) [OF ans] by (metis prod.collapse)
  then have v: "verdict cx st = Some v" using rep id unfolding reports_def by (metis fst_conv)
  have finish: ?thesis if "follows v t t'" "aside x t' (w_store w0) s'" "g (w_store w) = (Inr (), s')"
      and "review_transaction cx h t w = on_store g (w\<lparr>w_ext := e\<rparr>)" for g s' t'
    using that retry by (auto simp: on_store_run at_rest_def)
  have same: "follows (ct_state t) t t" by (simp add: follows_def)
  let ?max = "max_monitoring_confirmations (cx_settings cx)"
  have call: "call_monitor (sv_get_tx_status (cx_services cx) (ct_txid t) (\<exists>b. ct_broadcast_block_height t = Some b)) w
      = (Inr st, w\<lparr>w_ext := e\<rparr>)" by (simp add: call_monitor_def on_ext_run pmap_err_run st)
  note run = review_transaction_def Let_def pbind_run call
  consider (pool) "is_in_mempool st" | (gone) "\<not> is_in_mempool st" "is_not_found st"
    | (final) "\<not> is_in_mempool st" "\<not> is_not_found st" "is_finalized st ?max"
    | (mined) "\<not> is_in_mempool st" "\<not> is_not_found st" "\<not> is_finalized st ?max" "is_confirmed st"
    | (orphan) "\<not> is_in_mempool st" "\<not> is_not_found st" "\<not> is_finalized st ?max" "\<not> is_confirmed st" "is_orphan st"
    using v by (auto simp: verdict_def split: if_splits)
  then show ?thesis
  proof cases
    case pool
    then have v: "v = InMempool" using v by (simp add: verdict_def)
    show ?thesis
    proof (cases "ct_state t = Confirmed")
      case True
      let ?t = "t\<lparr>ct_state := InMempool, ct_broadcast_block_height := Some h\<rparr>"
      have "aside x ?t (w_store w0) (update_tx ?t (w_store w))" using id by (intro aside_own [OF s]) auto
      moreover have "follows v t ?t" by (simp add: follows_def v)
      ultimately show ?thesis
        by (elim finish [where g = "pmodify (mark_reorg t h)", rotated]) (use pool True in \<open>simp_all add: run prog_simps mark_reorg_def\<close>)
    next
      case False
      then have "ct_state t = v" using state v by simp
      with same have "follows v t t" by simp
      then show ?thesis
      proof (cases "is_stuck_in_mempool t h")
        case True
        let ?note = "note_news (TransactionStuckInMempool (ct_txid t) (ct_context t))"
        show ?thesis
          by (rule finish [OF \<open>follows v t t\<close> aside_note [OF s], where g = "pmodify ?note"]) (use pool False True in \<open>simp_all add: run prog_simps\<close>)
      next
        case still: False
        show ?thesis
          by (rule finish [OF \<open>follows v t t\<close> s, where g = "pret ()"]) (use pool False still in \<open>simp_all add: run prog_simps\<close>)
      qed
    qed
  next
    case gone
    then have v: "v = ToDispatch" using v by (simp add: verdict_def)
    let ?t = "t\<lparr>ct_state := ToDispatch, ct_fail_guard_until := Some (unwrap_or (ct_fail_guard_until t) (h + ?max))\<rparr>"
    have "requeue_not_found x (h + ?max) (w_store w) = update_tx ?t (w_store w)"
      using s state by (auto simp: requeue_not_found_def get_tx_by_id_def aside_def)
    moreover have "aside x ?t (w_store w0) (update_tx ?t (w_store w))" using id by (intro aside_own [OF s]) auto
    moreover have "follows v t ?t" by (simp add: follows_def v)
    ultimately show ?thesis
      by (elim finish [where g = "pmodify (requeue_not_found x (h + ?max))", rotated]) (use gone x in \<open>simp_all add: run prog_simps\<close>)
  next
    case final
    then have v: "v = Finalized" using v by (simp add: verdict_def)
    obtain t' s' where "update_tx_state_impl x Finalized (Some h) (w_store w) = (Inr (), s')" "follows v t t'" "aside x t' (w_store w0) s'"
      using own_mark [OF s state, of Finalized "Some h"] v by (auto simp: is_terminal_def)
    then show ?thesis
      by (elim finish [where g = "mark_finalized x h", rotated])
        (use x final in \<open>simp_all add: run mark_finalized_def settle_tx_def is_terminal_def\<close>)
  next
    case mined
    then have v: "v = Confirmed" using v by (simp add: verdict_def)
    obtain t' s' where "update_tx_state_impl x Confirmed None (w_store w) = (Inr (), s')" "follows v t t'" "aside x t' (w_store w0) s'"
      using own_mark [OF s state, of Confirmed None] v by (auto simp: is_terminal_def)
    then show ?thesis
      by (elim finish [where g = "mark_confirmed x", rotated])
        (use x mined in \<open>simp_all add: run mark_confirmed_def update_tx_state_def is_terminal_def\<close>)
  next
    case orphan
    then have v: "v = InMempool" using v by (simp add: verdict_def)
    obtain t' s' where "update_tx_state_impl x InMempool None (w_store w) = (Inr (), s')" "follows v t t'" "aside x t' (w_store w0) s'"
      using own_mark [OF s state, of InMempool None] v by (auto simp: is_terminal_def)
    then show ?thesis
      by (elim finish [where g = "mark_orphan x", rotated])
        (use x orphan in \<open>simp_all add: run mark_orphan_def update_tx_state_def is_terminal_def\<close>)
  qed
qed

lemma pfor_append: "pfor (xs @ ys) f = pseq (pfor xs f) (pfor ys f)"
  by (induction xs) (auto simp: fun_eq_iff prog_simps split: prod.split sum.split)

text \<open>The review reaches the record of \<open>x\<close> once; the others are reviewed before and after it.\<close>

lemma review_once:
  assumes ans: "answers cx h live" and rep: "reports cx x v" and state: "ct_state t \<in> {InMempool, Confirmed}"
    and known: "\<forall>u \<in> set ts. st_txs (w_store w0) (ct_txid u) \<noteq> None" and ids: "distinct (map ct_txid ts)"
    and t: "t \<in> set ts" "ct_txid t = x" and w: "at_rest x t w0 w"
  shows "\<exists>t' w'. pfor ts (review_transaction cx h) w = (Inr (), w') \<and> follows v t t' \<and> at_rest x t' w0 w'"
proof -
  obtain pre post where ts: "ts = pre @ t # post" using split_list [OF t(1)] by blast
  have others: "yields (at_rest x r w0) (pfor us (review_transaction cx h)) (\<lambda>_. True)"
    if "us = pre \<or> us = post" for us r
    using that ids known t(2) unfolding ts by (intro yields_for rest_review_transaction [OF ans]) (auto simp: image_iff)
  obtain w1 where w1: "pfor pre (review_transaction cx h) w = (Inr (), w1)" "at_rest x t w0 w1"
    using yieldsE [OF others w] by (metis unit.exhaust)
  obtain t' w2 where w2: "review_transaction cx h t w1 = (Inr (), w2)" "follows v t t'" "at_rest x t' w0 w2"
    using own_review [OF ans rep w1(2) state] by blast
  obtain w3 where "pfor post (review_transaction cx h) w2 = (Inr (), w3)" "at_rest x t' w0 w3"
    using yieldsE [OF others w2(3)] by (metis unit.exhaust)
  then show ?thesis using w1(1) w2(1,2) unfolding ts pfor_append by (auto simp: prog_simps)
qed

lemma distinct_active:
  assumes "scan_spec scan" "keyed s" "finite (dom (st_txs s))"
  shows "distinct (map ct_txid (get_active_txs scan s))"
proof -
  have "map ct_txid (List.map_filter (st_txs s) xs) = filter (\<lambda>x. st_txs s x \<noteq> None) xs" for xs
    by (induction xs) (auto simp: List.map_filter_simps keyedD [OF assms(2)] split: option.split)
  then have "distinct (map ct_txid (get_all_txs scan s))"
    using assms(1,3) by (simp add: get_all_txs_def scan_spec_def)
  then show ?thesis by (simp add: get_active_txs_def distinct_map_filter)
qed

lemma review_active_follows:
  assumes ans: "answers cx h live" and scan: "scan_spec (cx_scan cx)" and rep: "reports cx x v"
    and t: "ct_state t \<in> {InMempool, Confirmed}" "\<not> is_speedup t" and fin: "finite (dom (st_txs (w_store w0)))"
    and w: "at_rest x t w0 w"
  shows "\<exists>t' w'. review_active cx w = (Inr (), w') \<and> follows v t t' \<and> at_rest x t' w0 w'"
proof -
  obtain w1 where w1: "monitor_height cx w = (Inr h, w1)" "at_rest x t w0 w1"
    using yieldsE [OF rest_height [OF ans] w] by metis
  define w2 where "w2 = w1\<lparr>w_store := evict_stale_txs (bs_storage (cx_settings cx)) (cx_scan cx) h (w_store w1)\<rparr>"
  have s2: "aside x t (w_store w0) (w_store w2)" "w_last_retry_at w2 = w_last_retry_at w0"
    using w1(2) t(1) by (auto simp: w2_def at_rest_def is_terminal_def intro!: evict_aside)
  let ?active = "get_active_txs (cx_scan cx) (w_store w2)"
  let ?ts = "filter (\<lambda>t. \<not> is_speedup t \<and> ct_state t \<in> {InMempool, Confirmed}) ?active"
  have k: "keyed (w_store w2)" and st: "st_txs (w_store w2) x = Some t" using s2(1) by (simp_all add: aside_def)
  have "dom (st_txs (w_store w2)) \<subseteq> dom (st_txs (w_store w0))" using s2(1) by (auto simp: aside_def)
  then have fin2: "finite (dom (st_txs (w_store w2)))" using fin by (rule finite_subset)
  note stored = mem_get_all_txs [OF scan fin2]
  have id: "ct_txid t = x" using aside_txid [OF s2(1)] by simp
  have t_in: "t \<in> set ?ts" using stored st t by (auto simp: get_active_txs_def)
  then have "?ts \<noteq> []" "?active \<noteq> []" by (auto simp: filter_empty_conv)
  then have run: "review_active cx w = pfor ?ts (review_transaction cx h) w2"
    by (simp add: review_active_def review_transactions_def prog_simps w1(1) w2_def Let_def)
  have "\<forall>u \<in> set ?ts. st_txs (w_store w0) (ct_txid u) \<noteq> None"
    using stored k s2(1) by (auto simp: get_active_txs_def aside_def keyed_def)
  moreover have "distinct (map ct_txid ?ts)" using distinct_active [OF scan k fin2] by (rule distinct_map_filter)
  moreover have "at_rest x t w0 w2" using s2 by (simp add: at_rest_def)
  ultimately show ?thesis unfolding run using review_once [OF ans rep t(1) _ _ t_in id] by blast
qed

section \<open>What comes after the dispatch keeps every record\<close>

definition retains :: "store \<Rightarrow> store \<Rightarrow> bool" where
  "retains s s' \<longleftrightarrow> (keyed s \<longrightarrow> keyed s' \<and> dom (st_txs s) \<subseteq> dom (st_txs s'))"

interpretation retains: step_relation retains
  by unfold_locales (auto simp: retains_def)

interpretation retains_world: step_relation "store_rel retains"
  by (rule store_rel_step_relation) unfold_locales

lemmas retains_outside = store_rel_same [OF retains.step_relation_axioms]

lemma quiet_retains: "quiet s s' \<Longrightarrow> retains s s'"
  by (auto simp: quiet_def retains_def tx_state_def fun_eq_iff dom_def) (metis not_None_eq option.map_disc_iff)

lemma keeps_quiet_retains: "keeps (store_rel quiet) m \<Longrightarrow> keeps (store_rel retains) m"
  by (auto simp: keeps_def store_rel_def intro: quiet_retains)

lemma retains_update: "retains s (update_tx t s)"
  by (auto simp: retains_def keyed_def update_tx_def)

lemma retains_note: "retains s (note_news n s)"
  by (rule quiet_retains [OF quiet_note])

lemma retains_insert_speedup: "retains s (insert_speedup t s)"
  by (auto simp: retains_def keyed_def insert_speedup_def insert_tx_def)

lemma only_fails_retains: "only_fails s s' \<Longrightarrow> retains s s'"
  by (auto simp: only_fails_def retains_def) (metis option_rel_Some1)

lemma retains_cascade: "keeps retains (fail_and_cascade t h fm)"
  using fail_and_cascade_keeps [of t h fm] by (auto simp: keeps_def intro: only_fails_retains)

lemma retains_retry: "retains s (mark_as_retry x s)"
  by (simp add: mark_as_retry_def get_tx_by_id_def retains_note retains_update split: option.split)

lemma retains_predecessor: "keeps retains (mark_predecessor t x)"
  unfolding mark_predecessor_def
  by (auto intro!: retains.keeps_rules keeps_intros retains.keeps_modify retains_update split: tx_kind.split speedup_kind.split)

lemma retains_failed_child: "keeps retains (settle_failed_child t h)"
  unfolding settle_failed_child_def rebuild_survivors_def
  by (auto intro!: retains.keeps_rules keeps_intros retains.keeps_modify retains_cascade
      simp: retains_def keyed_def prepend_pending_speedup_parents_def Let_def)

lemma retains_call: "keeps (store_rel retains) (call_monitor m)"
  by (rule retains_outside [OF same_store_call])

lemma retains_result: "keeps (store_rel retains) (handle_dispatch_result cx t x outcome h fi)"
  unfolding handle_dispatch_result_def classify_dispatch_error_def mark_accepted_def mark_already_confirmed_def monitor_again_def
  by (auto intro!: retains_world.keeps_rules keeps_intros store_rel_on_store retains.keeps_modify retains_update
      retains_predecessor retains_cascade retains_failed_child retains_retry retains_call
      retains_outside [OF missing_input_kind_store] split: dispatch_outcome.split)

lemma retains_dispatcher: "keeps (store_rel retains) (run_dispatcher cx txs)"
  unfolding run_dispatcher_def case_prod_unfold
  by (intro retains_outside same_store.keeps_rules same_store_ext)

lemma retains_limit: "keeps (store_rel retains) (apply_retry_rate_limit cx txs)"
  unfolding apply_retry_rate_limit_def retry_ready_def read_clock_def Let_def
  by (intro retains_outside same_store.keeps_rules keeps_intros same_store_ext same_store.keeps_modify)
    (simp add: same_store_def)

lemma retains_pending_speedups: "keeps (store_rel retains) (dispatch_pending_speedups cx)"
  unfolding dispatch_pending_speedups_def monitor_height_def Let_def
  by (intro retains_world.keeps_rules keeps_intros store_rel_on_store retains.keeps_get retains_call retains_limit
      retains_dispatcher retains_result)

lemma retains_save_speedup: "keeps (store_rel retains) (save_speedup cx tx fi k h)"
  unfolding save_speedup_def
  by (intro retains_world.keeps_rules store_rel_on_store retains.keeps_modify retains_insert_speedup retains_call)

lemmas quiet_steps = keeps_quiet_retains [OF quiet_rate] keeps_quiet_retains [OF quiet_build_speedup]
  keeps_quiet_retains [OF quiet_noted] keeps_quiet_retains [OF quiet_height] keeps_quiet_retains [OF quiet_listed]

lemma retains_boost: "keeps (store_rel retains) (boost_if_stale cx skip)"
  unfolding boost_if_stale_def save_boost_def Let_def
  by (intro retains_world.keeps_rules keeps_intros quiet_steps retains_save_speedup store_rel_on_store
      retains.keeps_modify quiet_retains [OF quiet_at_cap])

lemma retains_create_cpfp: "keeps (store_rel retains) (create_cpfp_batch cx)"
  unfolding create_cpfp_batch_def save_cpfp_def Let_def
  by (intro retains_world.keeps_rules keeps_intros quiet_steps retains_save_speedup store_rel_on_store
      retains.keeps_modify retains.keeps_step quiet_retains [OF quiet_pending] quiet_retains [OF quiet_unpend])

section \<open>The dispatch of the others\<close>

text \<open>A transaction that does not wait is not touched by \<open>dispatch_pending\<close>, whatever happens to those that do.\<close>

lemma dispatch_pending_passes:
  fixes cx :: "'e engine_context"
  assumes ans: "answers cx h live" and st: "st \<noteq> ToDispatch"
  shows "yields (in_store (holds_at x st)) (dispatch_pending cx) (\<lambda>_. True)"
proof -
  let ?I = "\<lambda>w :: 'e world. holds_at x st (w_store w)"
  let ?others = "\<lambda>ts. \<forall>t \<in> set ts. ct_state t = ToDispatch \<longrightarrow> ct_txid t \<noteq> x"
  have active: "yields (holds_at x st) (pget (get_active_txs (cx_scan cx))) ?others"
    by (rule yields_get) (use st in \<open>auto simp: get_active_txs_def get_all_txs_def mem_map_filter holds_at_def keyed_def tx_state_def\<close>)
  have noted: "yields ?I (network_fee_rate_noted cx) (\<lambda>_. True)"
    unfolding yields_def
  proof (intro allI impI)
    fix w assume w: "?I w"
    obtain rate w' where "network_fee_rate_noted cx w = (Inr rate, w')" "st_txs (w_store w') = st_txs (w_store w)"
      using noted_run by blast
    then show "\<exists>r u. network_fee_rate_noted cx w = (Inr r, u) \<and> True \<and> ?I u"
      using w by (simp add: holds_at_def keyed_def plain_at_def tx_state_def)
  qed
  have limited: "yields ?I (apply_retry_rate_limit cx txs) (\<lambda>ts. set ts \<subseteq> set txs)" for txs
    unfolding yields_def
  proof (intro allI impI)
    fix w assume w: "?I w"
    obtain w' ready where "apply_retry_rate_limit cx txs w = (Inr (filter (\<lambda>t. is_retry t \<longrightarrow> ready) txs), w')" "w_store w' = w_store w"
      using limited_run by blast
    then show "\<exists>ts u. apply_retry_rate_limit cx txs w = (Inr ts, u) \<and> set ts \<subseteq> set txs \<and> ?I u" using w by auto
  qed
  have reported: "yields ?I (run_dispatcher cx txs) (\<lambda>rs. \<forall>r \<in> set rs. fst r \<in> ct_txid ` set txs)" for txs
    unfolding yields_def
  proof (intro allI impI)
    fix w assume w: "?I w"
    obtain rs w' where "run_dispatcher cx txs w = (Inr rs, w')" "w_store w' = w_store w"
        "fits (sure cx live (w_store w)) (set txs) rs"
      using run_dispatcher_answers [OF ans] by blast
    then show "\<exists>rs u. run_dispatcher cx txs w = (Inr rs, u) \<and> (\<forall>r \<in> set rs. fst r \<in> ct_txid ` set txs) \<and> ?I u"
      using w by (fastforce simp: fits_def)
  qed
  have result: "yields ?I (result_step cx txs h rate r) (\<lambda>_. True)"
    if r: "fst r \<in> ct_txid ` set txs" and txs: "\<forall>t \<in> set txs. \<not> is_speedup t \<and> ct_txid t \<noteq> x" for txs rate r
  proof -
    obtain t where t: "find_tx_in_batch txs (fst r) = Inr t" using find_tx_in_batch_total [OF r] by blast
    have "\<not> is_speedup t" "ct_txid t = fst r" "fst r \<noteq> x" using find_tx_in_batch_Inr [OF t] txs by auto
    then show ?thesis
      unfolding result_step_def case_prod_unfold
      by (intro yields_bind [OF yields_lift [OF t, where P = "\<lambda>u. u = t"]] refl) (auto intro: yields_other_result [OF ans])
  qed
  show ?thesis
    unfolding dispatch_pending_def Let_def dispatch_batch_steps
    by (auto intro!: yields_bind [OF yields_height [OF ans]] yields_bind [OF yields_on_store [OF active]] yields_if yields_ret
        yields_bind [OF noted] yields_bind [OF limited] yields_bind [OF reported] yields_for result) (drule (1) subsetD, blast)+
qed

section \<open>The tick\<close>

text \<open>The dispatch of the speedups, the boost and the batch.\<close>

definition speedup_steps :: "'e engine_context \<Rightarrow> ('e, unit) world_prog" where
  "speedup_steps cx = pbind (dispatch_pending_speedups cx) (\<lambda>boost_failed.
     pseq (boost_if_stale cx boost_failed) (create_cpfp_batch cx))"

lemma retains_speedup_steps: "keeps (store_rel retains) (speedup_steps cx)"
  unfolding speedup_steps_def
  by (intro retains_world.keeps_rules retains_pending_speedups retains_boost retains_create_cpfp)

text \<open>They do not change the state of a record that is not a speedup and does not wait.\<close>

definition steady :: "txid \<Rightarrow> transaction_state \<Rightarrow> coordinated_tx \<Rightarrow> bool" where
  "steady x st t \<longleftrightarrow> (ct_txid t = x \<longrightarrow> \<not> is_speedup t \<and> ct_state t = st)"

lemma steady_property: "st \<noteq> ToDispatch \<Longrightarrow> open_property (steady x st) (\<lambda>y. y \<noteq> x) (\<lambda>y. y \<noteq> x) (\<lambda>tx. tx_compute_txid tx \<noteq> x)"
  by unfold_locales (auto simp: steady_def evolves_def speedup_record_def)

lemma speedup_steps_steady:
  assumes ok: "store_ok (\<lambda>t. True) (w_store w)" and x: "holds_at x st (w_store w)" "st \<noteq> ToDispatch"
    and new: "builds_in (\<lambda>y. y \<noteq> x) cx"
  shows "tx_state (w_store (snd (speedup_steps cx w))) x = Some st"
proof -
  note op = steady_property [OF x(2), of x]
  note rp = open_property.axioms(1) [OF op] and new_tx = new [unfolded builds_in_makes]
  have "store_ok (steady x st) (w_store w)"
    using ok x by (auto simp: store_ok_def steady_def holds_at_def plain_at_def tx_state_def)
  moreover have "runs (in_store (store_ok (steady x st))) (speedup_steps cx) (\<lambda>_. True)"
    unfolding speedup_steps_def
    by (intro runs_bind [OF record_property.runs_dispatch_pending_speedups [OF rp]]
        runs_seq [OF open_property.runs_boost [OF op new_tx]] open_property.runs_create_cpfp [OF op new_tx])
  ultimately have after: "store_ok (steady x st) (w_store (snd (speedup_steps cx w)))" by (simp add: runs_def)
  have "retains (w_store w) (w_store (snd (speedup_steps cx w)))"
    using retains_speedup_steps [of cx] by (simp add: keeps_def store_rel_def)
  then obtain t where "st_txs (w_store (snd (speedup_steps cx w))) x = Some t"
    using store_ok_keyed [OF ok] x(1) by (auto simp: retains_def holds_at_def tx_state_def)
  then show ?thesis using store_okD [OF after] by (auto simp: steady_def tx_state_def)
qed

text \<open>The monitor is up: its own tick succeeds and it is ready.\<close>

definition up :: "'e engine_context \<Rightarrow> bool" where
  "up cx \<longleftrightarrow> (\<forall>e. fst (sv_monitor_tick (cx_services cx) e) = Inr () \<and> fst (sv_is_ready (cx_services cx) e) = Inr True)"

text \<open>A program that returns hands over to the next.\<close>

lemma yields_then:
  assumes "yields I m P" "I w" "\<And>x w'. P x \<Longrightarrow> I w' \<Longrightarrow> \<exists>u. f x w' = g u \<and> I u"
  shows "\<exists>u. pbind m f w = g u \<and> I u"
proof -
  obtain x w' where "m w = (Inr x, w')" "P x" "I w'" using assms(1,2) by (rule yieldsE)
  then show ?thesis using assms(3) [of x w'] by (simp add: pbind_run)
qed

lemma yields_then_if: "yields I m (\<lambda>v. v = True) \<Longrightarrow> I w \<Longrightarrow> (\<And>w'. I w' \<Longrightarrow> \<exists>u. n w' = g u \<and> I u)
    \<Longrightarrow> \<exists>u. pbind m (\<lambda>v. if \<not> v then k else n) w = g u \<and> I u"
  by (erule yields_then) auto

lemma yields_then_seq: "yields I m P \<Longrightarrow> I w \<Longrightarrow> (\<And>w'. I w' \<Longrightarrow> \<exists>u. n w' = g u \<and> I u) \<Longrightarrow> \<exists>u. pseq m n w = g u \<and> I u"
  unfolding pseq_def by (erule yields_then)

text \<open>A tick gets to its reviews.\<close>

definition dispatch_steps :: "'e engine_context \<Rightarrow> ('e, unit) world_prog" where
  "dispatch_steps cx = pseq (dispatch_pending cx) (speedup_steps cx)"

lemma tick_opens:
  assumes ans: "answers cx h live" and up: "up cx" and ok: "store_ok (\<lambda>t. True) (w_store w)"
    and x: "st_txs (w_store w) x = Some r"
  shows "\<exists>w'. tick cx w = pseq (review_active cx) (pseq (review_speedups cx) (dispatch_steps cx)) w' \<and> at_rest x r w w'
    \<and> store_ok (\<lambda>t. True) (w_store w')"
proof -
  define I where "I w' \<longleftrightarrow> at_rest x r w w' \<and> store_ok (\<lambda>t. True) (w_store w')" for w'
  have both: "yields I m P" if "yields (at_rest x r w) m P" "runs (in_store (store_ok (\<lambda>t. True))) m Q"
      for m :: "('a, 'b) world_prog" and P Q
    using yields_runs [OF that] by (simp add: I_def [abs_def])
  have called: "yields I (call_monitor m) (\<lambda>v. v = a)" if "\<And>e. fst (m e) = Inr a" for m :: "('a, 'b) ext_prog" and a
    by (rule both [OF yields_call [OF _ rest_outside] runs_call]) (simp add: that)
  note monitor = called [of "sv_monitor_tick (cx_services cx)" "()"] called [of "sv_is_ready (cx_services cx)" True]
  have ready: "yields I (call_monitor (sv_monitor_tick (cx_services cx))) (\<lambda>v. v = ())" "yields I (is_ready cx) (\<lambda>v. v = True)"
    using up monitor unfolding is_ready_def up_def by blast+
  have height: "yields I (monitor_height cx) (\<lambda>k. k = h)" by (rule both [OF rest_height [OF ans] runs_height])
  have clean: "yields I (on_store (pmodify (cleanup_news k))) (\<lambda>_. True)" for k
    by (intro both [OF rest_modify runs_on_store [OF runs_modify [where P = "\<lambda>_. True"]]] cleanup_ok TrueI)
      (auto simp: cleanup_news_def intro: aside_same)
  have "I w" using ok x by (simp add: I_def at_rest_def aside_refl store_ok_keyed)
  then have "\<exists>w'. tick cx w = pseq (review_active cx) (pseq (review_speedups cx) (dispatch_steps cx)) w' \<and> I w'"
    unfolding tick_def speedup_steps_def dispatch_steps_def
    by (intro yields_then_seq [OF ready(1)] yields_then_if [OF ready(2)] yields_then [OF height] yields_then_seq [OF clean]) blast+
  then show ?thesis by (auto simp: I_def)
qed

text \<open>From the reviews on, with the result they have for \<open>x\<close>.\<close>

lemma tick_reviewed:
  assumes "answers cx h live" and "up cx" and "store_ok (\<lambda>t. True) (w_store w)" and "calm cx (w_store w)"
    and "st_txs (w_store w) x = Some r"
    and review: "\<And>w1. at_rest x r w w1 \<Longrightarrow> \<exists>r' w2. review_active cx w1 = (Inr (), w2) \<and> at_rest x r' w w2 \<and> F r'
      \<and> (ct_state r' = ToDispatch \<or> x \<notin> set (st_speedup_list (w_store w)))"
  shows "\<exists>r' w'. tick cx w = dispatch_steps cx w' \<and> at_rest x r' w w' \<and> F r' \<and> store_ok (\<lambda>t. True) (w_store w')"
proof -
  obtain w1 where w1: "tick cx w = pseq (review_active cx) (pseq (review_speedups cx) (dispatch_steps cx)) w1"
      "at_rest x r w w1" "store_ok (\<lambda>t. True) (w_store w1)"
    using tick_opens [OF assms(1-3,5)] by blast
  obtain r' w2 where w2: "review_active cx w1 = (Inr (), w2)" "at_rest x r' w w2" "F r'"
      "ct_state r' = ToDispatch \<or> x \<notin> set (st_speedup_list (w_store w))"
    using review [OF w1(2)] by blast
  obtain w3 where w3: "review_speedups cx w2 = (Inr (), w3)" "at_rest x r' w w3"
    using yieldsE [OF rest_review_speedups [OF assms(1,4) w2(4)] w2(2)] by (metis unit.exhaust)
  have "store_ok (\<lambda>t. True) (w_store w2)" using runsD(1) [OF recorded.runs_review_active w1(3) w2(1)] by simp
  from runsD(1) [OF recorded.runs_review_speedups this w3(1)] have "store_ok (\<lambda>t. True) (w_store w3)" by simp
  then show ?thesis using w1(1) w2(1,3) w3 by (auto simp: pseq_run)
qed

end
