(* ===== verification/Progress.thy ===== *)
theory Progress
  imports Tick_Phases
begin

text \<open>
  Progress of the whole coordinator: one tick brings a transaction that can be sent into the mempool, and one that
  was sent into the state that the monitor reports. Nothing else that the tick does stands in the way.
\<close>

section \<open>A tick delivers\<close>

lemma deliverable_aside:
  assumes "aside x r s0 s" "deliverable cx h live s0 t"
  shows "deliverable cx h live s t"
proof -
  have known: "st_txs s y \<noteq> None \<Longrightarrow> st_txs s0 y \<noteq> None" for y using assms(1) by (auto simp: aside_def)
  have failed: "is_tx_failed y s \<Longrightarrow> is_tx_failed y s0" for y
    using assms(1) by (fastforce simp: aside_def is_tx_failed_def tx_state_def get_tx_by_id_def split: option.splits)
  show ?thesis using assms(2) known failed
    unfolding deliverable_def sure_def parents_live_def failed_parent_def find_None_iff coordinator_dispatcher_storage_def
      is_tx_known_def tx_exists_def get_tx_by_id_def dispatcher_storage.select_convs by blast
qed

lemma dispatch_steps_deliver:
  assumes "answers cx h live" and "scan_spec (cx_scan cx)" and "store_ok (\<lambda>t. True) (w_store w)"
    and "builds_in (\<lambda>y. y \<noteq> x) cx" and "st_txs (w_store w) x = Some t" and "deliverable cx h live (w_store w) t"
    and "\<not> is_retry t \<or> w_last_retry_at w = None"
  shows "tx_state (w_store (snd (dispatch_steps cx w))) x = Some InMempool"
proof -
  have "finite (dom (st_txs (w_store w)))" using store_okD(1) [OF assms(3)] by (simp add: structured_def)
  then obtain w2 where w2: "dispatch_pending cx w = (Inr (), w2)" "holds_at x InMempool (w_store w2)"
    using dispatch_pending_delivers [OF assms(1,2) store_ok_keyed [OF assms(3)] _ assms(5-7)] by blast
  have "store_ok (\<lambda>t. True) (w_store w2)" using runsD(1) [OF recorded.runs_dispatch_pending assms(3) w2(1)] .
  then show ?thesis using speedup_steps_steady [OF _ w2(2) _ assms(4)] by (simp add: dispatch_steps_def w2(1) pseq_run)
qed

lemma tick_brings:
  assumes "reachable w" and "answers cx h live" and "up cx" and "scan_spec (cx_scan cx)" and "calm cx (w_store w)"
    and "builds_in (\<lambda>y. y \<noteq> x) cx" and "st_txs (w_store w) x = Some t" and "deliverable cx h live (w_store w) t"
    and "\<not> is_retry t \<or> w_last_retry_at w = None"
  shows "tx_state (w_store (snd (tick cx w))) x = Some InMempool"
proof -
  have ok: "store_ok (\<lambda>t. True) (w_store w)" using assms(1) by (rule reachable_store_ok)
  have t: "ct_state t = ToDispatch" using assms(8) by (simp add: deliverable_def)
  have "\<exists>r w2. review_active cx w1 = (Inr (), w2) \<and> at_rest x r w w2 \<and> r = t
      \<and> (ct_state r = ToDispatch \<or> x \<notin> set (st_speedup_list (w_store w)))" if "at_rest x t w w1" for w1
    using yieldsE [OF rest_review_active [OF assms(2) t] that] t by (metis unit.exhaust)
  from tick_reviewed [OF assms(2,3) ok assms(5,7) this] obtain w1 where w1: "tick cx w = dispatch_steps cx w1"
      "at_rest x t w w1" "store_ok (\<lambda>t. True) (w_store w1)" by blast
  then have rest: "aside x t (w_store w) (w_store w1)" "w_last_retry_at w1 = w_last_retry_at w" by (simp_all add: at_rest_def)
  then have "st_txs (w_store w1) x = Some t" by (simp add: aside_def)
  then show ?thesis
    using dispatch_steps_deliver [OF assms(2,4) w1(3) assms(6) _ deliverable_aside [OF rest(1) assms(8)]] assms(9) rest(2)
    by (simp add: w1(1))
qed

text \<open>
  C5. Progress: if the monitor is up and answers, no speedup of the coordinator has become final, and the builder makes no
  transaction with its id, then a tick from a reachable state brings into the mempool a due transaction that waits to
  be dispatched, is not a speedup, passes the checks, has no failed tracked parent and only tracked parents in the
  mempool or mined, and that the node takes, when it is a first attempt or no retry was made since the start. Whatever
  the node, the monitor and the builder otherwise say of the other transactions, before, in or after its dispatch, does
  not disturb it.
\<close>

theorem tick_delivers:
  assumes "reachable w" and "answers cx h live" and "up cx" and "scan_spec (cx_scan cx)" and "calm cx (w_store w)"
    and "builds_in (\<lambda>y. y \<noteq> x) cx" and "st_txs (w_store w) x = Some t" and "deliverable cx h live (w_store w) t"
    and "\<not> is_retry t \<or> w_last_retry_at w = None"
  shows "tx_state (w_store (snd (tick cx w))) x = Some InMempool"
  by (rule tick_brings [OF assms])

section \<open>A tick follows the monitor\<close>

text \<open>
  C6. A transaction in flight follows the monitor: if the monitor is up and answers, no speedup has become final, and the
  builder makes no transaction with its id, then a tick from a reachable state leaves a transaction that is in the mempool
  or confirmed, and neither a speedup nor listed as one, in the state that the monitor reports for it: in the mempool (back
  from confirmed after a reorganization), confirmed or finalized. If it is reported as gone, the same tick sends it again
  and leaves it in the mempool, provided that it is due, passes the checks, the node takes it, and it was never
  retried or no retry was made since the start.
\<close>

theorem tick_follows_monitor:
  assumes "reachable w" and "answers cx h live" and "up cx" and "scan_spec (cx_scan cx)" and "calm cx (w_store w)"
    and "builds_in (\<lambda>y. y \<noteq> x) cx" and "st_txs (w_store w) x = Some t" and "\<not> is_speedup t"
    and "ct_state t \<in> {InMempool, Confirmed}" and "x \<notin> set (st_speedup_list (w_store w))" and "reports cx x v"
    and "v = ToDispatch \<longrightarrow> is_ready_to_dispatch t h \<and> sure cx live (w_store w) t \<and> (\<not> is_retry t \<or> w_last_retry_at w = None)"
  shows "tx_state (w_store (snd (tick cx w))) x = Some (if v = ToDispatch then InMempool else v)"
proof -
  have ok: "store_ok (\<lambda>t. True) (w_store w)" using assms(1) by (rule reachable_store_ok)
  then have fin: "finite (dom (st_txs (w_store w)))" using store_okD(1) by (simp add: structured_def)
  have "\<exists>r w2. review_active cx w1 = (Inr (), w2) \<and> at_rest x r w w2 \<and> follows v t r
      \<and> (ct_state r = ToDispatch \<or> x \<notin> set (st_speedup_list (w_store w)))" if "at_rest x t w w1" for w1
    using review_active_follows [OF assms(2,4,11,9,8) fin that] assms(10) by blast
  from tick_reviewed [OF assms(2,3) ok assms(5,7) this] obtain r w1 where w1: "tick cx w = dispatch_steps cx w1"
      "at_rest x r w w1" "follows v t r" "store_ok (\<lambda>t. True) (w_store w1)" by blast
  then have rest: "aside x r (w_store w) (w_store w1)" "w_last_retry_at w1 = w_last_retry_at w" by (simp_all add: at_rest_def)
  then have r: "st_txs (w_store w1) x = Some r" "keyed (w_store w1)" by (simp_all add: aside_def)
  have plain: "\<not> is_speedup r" using w1(3) assms(8) by (simp add: follows_def is_speedup_def)
  show ?thesis
  proof (cases "v = ToDispatch")
    case True
    have "sure cx live (w_store w) r = sure cx live (w_store w) t"
      using w1(3) by (simp add: follows_def sure_def validate_failure_def failed_parent_def parents_live_def)
    then have "deliverable cx h live (w_store w) r" "\<not> is_retry r \<or> w_last_retry_at w1 = None"
      using w1(3) assms(12) plain rest(2) True
      by (simp_all add: deliverable_def follows_def is_ready_to_dispatch_def is_retry_def)
    then show ?thesis
      using dispatch_steps_deliver [OF assms(2,4) w1(4) assms(6) r(1) deliverable_aside [OF rest(1)]] True by (simp add: w1(1))
  next
    case False
    then have "holds_at x v (w_store w1)" using r plain w1(3) by (simp add: holds_at_def plain_at_def tx_state_def follows_def)
    then obtain w2 where w2: "dispatch_pending cx w1 = (Inr (), w2)" "holds_at x v (w_store w2)"
      using yieldsE [OF dispatch_pending_passes [OF assms(2) False]] by (metis unit.exhaust)
    have "store_ok (\<lambda>t. True) (w_store w2)" using runsD(1) [OF recorded.runs_dispatch_pending w1(4) w2(1)] .
    then show ?thesis using speedup_steps_steady [OF _ w2(2) False assms(6)] False
      by (simp add: w1(1) dispatch_steps_def w2(1) pseq_run)
  qed
qed

section \<open>From the call of the client to the mempool\<close>

lemma register_answers:
  assumes "answers cx h live" and "st_txs (w_store w) (tx_compute_txid tx) = None"
  shows "\<exists>fee w'. register_tx cx tx kind c target trigger stuck w = (Inr (), w') \<and> w_store w' =
      (let s = insert_tx (fresh_record tx kind c (unwrap_or target h) trigger stuck fee) (w_store w)
       in if needs_cpfp kind then add_pending_speedup_parent (tx_compute_txid tx) s else s)"
proof -
  obtain e1 where "sv_get_monitor_height (cx_services cx) (w_ext w) = (Inr h, e1)"
    using answersD(1) [OF assms(1)] by (metis prod.collapse)
  then have height: "monitor_height cx w = (Inr h, w\<lparr>w_ext := e1\<rparr>)"
    by (simp add: monitor_height_def call_monitor_def prog_simps)
  obtain rate n e2 where rate: "network_fee_rate cx (w\<lparr>w_ext := e1\<rparr>) = (Inr (rate, n), w\<lparr>w_ext := e2\<rparr>)"
    by (auto simp: network_fee_rate_def prog_simps intro: prod.exhaust)
  obtain e3 where "sv_monitor (cx_services cx) (Transactions [tx_compute_txid tx] c trigger) False e2 = (Inr (), e3)"
    using answersD(2) [OF assms(1)] by (metis prod.collapse)
  then have "call_monitor (sv_monitor (cx_services cx) (Transactions [tx_compute_txid tx] c trigger) False)
      (w\<lparr>w_ext := e2\<rparr>) = (Inr (), w\<lparr>w_ext := e3\<rparr>)"
    by (simp add: call_monitor_def prog_simps)
  with height rate assms(2) show ?thesis
    by (auto simp: register_tx_def Let_def prog_simps get_tx_by_id_def fresh_record_def needs_cpfp_def split: tx_kind.split)
qed

text \<open>The parents a new transaction has in the store are in the mempool or mined, and none has failed.\<close>

definition parents_fine :: "(txid \<Rightarrow> bool) \<Rightarrow> store \<Rightarrow> transaction \<Rightarrow> bool" where
  "parents_fine live s tx \<longleftrightarrow> (\<forall>i \<in> set (tx_input tx). op_txid i \<noteq> tx_compute_txid tx
     \<and> (st_txs s (op_txid i) \<noteq> None \<longrightarrow> live (op_txid i) \<and> tx_state s (op_txid i) \<noteq> Some Failed))"

text \<open>
  C4. From the call to the mempool: a new transaction that is dispatched, with or without a speedup, when the
  monitor is up and answers, the node takes the transaction, no speedup of the coordinator has become
  final and the builder makes no transaction with its id, is in the mempool after the next tick, if it has inputs, is
  within the weight limit, its target height is reached and its tracked parents are in the mempool or mined.
\<close>

theorem dispatched_is_broadcast:
  assumes "reachable w" and "answers cx h live" and "up cx" and "scan_spec (cx_scan cx)" and "calm cx (w_store w)"
    and "builds_in (\<lambda>y. y \<noteq> tx_compute_txid tx) cx" and "st_txs (w_store w) (tx_compute_txid tx) = None"
    and "takes cx tx" and "tx_input tx \<noteq> []" and "tx_weight tx \<le> max_tx_weight (bs_dispatcher (cx_settings cx))"
    and "unwrap_or target h \<le> h" and "parents_fine live (w_store w) tx"
  shows "tx_state (w_store (snd (pseq (dispatch_tx cx tx data c target trigger) (tick cx) w))) (tx_compute_txid tx)
    = Some InMempool"
proof -
  obtain kind where kind: "kind = (case data of Some d \<Rightarrow> NeedsSpeedup d | None \<Rightarrow> Normal)"
      "dispatch_tx cx tx data c target trigger = register_tx cx tx kind c target trigger None"
    using dispatch_tx_register by blast
  obtain fee w1 where run: "dispatch_tx cx tx data c target trigger w = (Inr (), w1)" and w1: "w_store w1 =
      (let s = insert_tx (fresh_record tx kind c (unwrap_or target h) trigger None fee) (w_store w)
       in if needs_cpfp kind then add_pending_speedup_parent (tx_compute_txid tx) s else s)"
    using register_answers [OF assms(2,7)] kind(2) by metis
  let ?t = "fresh_record tx kind c (unwrap_or target h) trigger None fee"
  have st: "st_txs (w_store w1) = (st_txs (w_store w))(tx_compute_txid tx \<mapsto> ?t)"
      "st_speedup_list (w_store w1) = st_speedup_list (w_store w)"
    by (simp_all add: w1 Let_def insert_tx_def add_pending_speedup_parent_def fresh_record_def)
  have "reachable w1" using reachable.event [OF assms(1), of cx "Dispatch tx data c target trigger"] run by simp
  moreover have "calm cx (w_store w1)" using assms(5) by (simp add: calm_def st)
  moreover have "deliverable cx h live (w_store w1) ?t"
    using assms(8-12) kind(1)
    by (auto simp: deliverable_def sure_def fresh_record_def is_speedup_def is_ready_to_dispatch_def validate_failure_def
        parents_live_def failed_parent_def find_None_iff coordinator_dispatcher_storage_def is_tx_failed_def
        get_tx_by_id_def tx_state_def st parents_fine_def split: option.splits)
  moreover have "st_txs (w_store w1) (tx_compute_txid tx) = Some ?t" "\<not> is_retry ?t"
    by (simp_all add: st is_retry_def fresh_record_def)
  ultimately have "tx_state (w_store (snd (tick cx w1))) (tx_compute_txid tx) = Some InMempool"
    using assms(2-4,6) by (intro tick_brings [where live = live and h = h]) auto
  then show ?thesis by (simp add: pseq_run run)
qed

section \<open>An installation with two transactions\<close>

lemma demo_up: "answers (demo_context (demo_services live)) 120 live" "up (demo_context (demo_services live))"
    "scan_spec (cx_scan (demo_context (demo_services live)))"
    "takes (demo_context (demo_services live)) tx" "x \<noteq> 70 \<Longrightarrow> builds_in (\<lambda>y. y \<noteq> x) (demo_context (demo_services live))"
  by (auto simp: answers_def seen_def up_def takes_def demo_context_def demo_services_def demo_status_def prog_simps sorted_scan_spec
      builds_in_def built_by_def demo_build_def dest: arg_cong [where f = tx_compute_txid])

lemma demo_weight: "600 \<le> max_tx_weight (bs_dispatcher (cx_settings (demo_context sv)))"
  by (simp add: demo_context_def default_bitcoin_settings_def default_dispatcher_settings_def DEFAULT_MAX_TX_WEIGHT_def)

text \<open>Transaction 6, which has no inputs, is dispatched after 5.\<close>

definition two_dispatched :: "transaction list world" where
  "two_dispatched = snd (run_event (demo_context (demo_services (\<lambda>x. False)))
     (Dispatch ((plain_tx 6)\<lparr>tx_input := []\<rparr>) None ''client'' None None) first_dispatch)"

lemma two_dispatched_reachable: "reachable two_dispatched"
  unfolding two_dispatched_def by (rule reachable.event [OF first_dispatch_reachable]) (rule prod.collapse [symmetric])

lemma first_dispatch_run:
  "\<exists>fee. w_store first_dispatch = insert_tx (fresh_record (plain_tx 5) Normal ''client'' 120 None None fee) empty_store"
  using register_answers [OF demo_up(1), of "demo_world empty_store" "plain_tx 5" "\<lambda>x. False" Normal "''client''" None None None]
  by (auto simp: first_dispatch_def dispatch_tx_def dispatch_without_speedup_def demo_world_def empty_store_def needs_cpfp_def)

lemma two_dispatched_run:
  "\<exists>fee fee'. w_store two_dispatched = insert_tx (fresh_record ((plain_tx 6)\<lparr>tx_input := []\<rparr>) Normal ''client'' 120 None None fee')
     (insert_tx (fresh_record (plain_tx 5) Normal ''client'' 120 None None fee) empty_store)"
proof -
  obtain fee where fee: "w_store first_dispatch = insert_tx (fresh_record (plain_tx 5) Normal ''client'' 120 None None fee) empty_store"
    using first_dispatch_run by blast
  then have new: "st_txs (w_store first_dispatch) (tx_compute_txid ((plain_tx 6)\<lparr>tx_input := []\<rparr>)) = None"
    by (simp add: insert_tx_def fresh_record_def plain_tx_def empty_store_def)
  show ?thesis
    using register_answers [OF demo_up(1) new, of "\<lambda>x. False" Normal "''client''" None None None]
    unfolding two_dispatched_def run_event.simps dispatch_tx_def dispatch_without_speedup_def option.case fee
    by (auto simp: needs_cpfp_def) blast
qed

theorem tick_delivers_witness:
  "tx_state (w_store (snd (tick (demo_context (demo_services (\<lambda>x. False))) two_dispatched))) 5 = Some InMempool"
proof -
  obtain fee fee' where s: "w_store two_dispatched = insert_tx (fresh_record ((plain_tx 6)\<lparr>tx_input := []\<rparr>) Normal ''client'' 120 None None fee')
     (insert_tx (fresh_record (plain_tx 5) Normal ''client'' 120 None None fee) empty_store)"
    using two_dispatched_run by blast
  let ?t = "fresh_record (plain_tx 5) Normal ''client'' 120 None None fee"
  have x: "st_txs (w_store two_dispatched) 5 = Some ?t"
    by (simp add: s insert_tx_def fresh_record_def plain_tx_def)
  have d: "deliverable (demo_context (demo_services (\<lambda>x. False))) 120 (\<lambda>x. False) (w_store two_dispatched) ?t"
    using demo_weight demo_up(4)
    by (simp add: deliverable_def sure_def fresh_record_def is_speedup_def is_ready_to_dispatch_def validate_failure_def plain_tx_def
        not_less failed_parent_def parents_live_def coordinator_dispatcher_storage_def
        is_tx_known_def tx_exists_def is_tx_failed_def get_tx_by_id_def s insert_tx_def empty_store_def)
  have "calm (demo_context (demo_services (\<lambda>x. False))) (w_store two_dispatched)"
    by (simp add: calm_def s insert_tx_def empty_store_def)
  moreover have "\<not> is_retry ?t" by (simp add: is_retry_def fresh_record_def)
  ultimately show ?thesis using tick_delivers [OF two_dispatched_reachable demo_up(1-3) _ demo_up(5) x d] by simp
qed

text \<open>Transaction 7 spends an output of 5, which the monitor reports to be in the mempool.\<close>

theorem dispatched_is_broadcast_witness:
  "tx_state (w_store (snd (pseq (dispatch_tx (demo_context (demo_services (\<lambda>x. x = 5)))
      ((plain_tx 7)\<lparr>tx_input := [OutPoint 5 0]\<rparr>) None ''client'' (Some 120) None)
      (tick (demo_context (demo_services (\<lambda>x. x = 5)))) first_dispatch))) 7 = Some InMempool"
proof -
  let ?tx = "(plain_tx 7)\<lparr>tx_input := [OutPoint 5 0]\<rparr>" and ?cx = "demo_context (demo_services (\<lambda>x. x = 5))"
  obtain fee where s: "w_store first_dispatch = insert_tx (fresh_record (plain_tx 5) Normal ''client'' 120 None None fee) empty_store"
    using first_dispatch_run by blast
  have "calm ?cx (w_store first_dispatch)" by (simp add: calm_def s insert_tx_def empty_store_def)
  moreover have "parents_fine (\<lambda>x. x = 5) (w_store first_dispatch) ?tx"
    by (simp add: parents_fine_def tx_state_def s insert_tx_def fresh_record_def plain_tx_def)
  moreover have "st_txs (w_store first_dispatch) (tx_compute_txid ?tx) = None"
    by (simp add: s insert_tx_def fresh_record_def plain_tx_def empty_store_def)
  ultimately show ?thesis
    using dispatched_is_broadcast [OF first_dispatch_reachable demo_up(1-3), of "\<lambda>x. x = 5" ?tx "Some 120" None "''client''" None]
      demo_up(4,5) demo_weight by (simp add: plain_tx_def)
qed

section \<open>The tick after the broadcast\<close>

text \<open>Transaction 5 was broadcast by the first tick.\<close>

definition broadcast_world :: "transaction list world" where
  "broadcast_world = snd (run_event (demo_context (demo_services (\<lambda>x. False))) Tick first_dispatch)"

lemma one_record:
  assumes "ct_txid t = 5" and "s = insert_tx t empty_store"
  shows "get_speedups_ordered s = []" "cleanup_news h s = s" "get_all_txs sorted_scan s = [t]"
    "\<not> is_terminal (ct_state t) \<Longrightarrow> evict_stale_txs cfg sorted_scan h s = s"
  using assms
  by (auto simp: get_speedups_ordered_def cleanup_news_def get_all_txs_def sorted_scan_def insert_tx_def empty_store_def
      List.map_filter_simps evict_stale_txs_def get_settled_txs_def is_terminal_def)

lemma demo_calls:
  "monitor_height (demo_context (demo_services live)) w = (Inr 120, w)"
  "network_fee_rate (demo_context (demo_services live)) w = (Inr (10, None), w)"
  by (simp_all add: monitor_height_def network_fee_rate_def call_monitor_def demo_defs default_fee_settings_def
      get_network_fee_rate_def prog_simps)

lemma demo_monitor: "call_monitor (sv_monitor (cx_services (demo_context (demo_services live))) d m) w = (Inr (), w)"
  by (simp add: call_monitor_def demo_defs prog_simps)

lemma broadcast_steps:
  fixes t :: coordinated_tx
  assumes "w_store w = insert_tx t empty_store" and t: "ct_txid t = 5" "ct_tx t = plain_tx 5" "ct_state t = ToDispatch"
    "ct_kind t = Normal" "ct_target_block_height t = 120" "ct_retry_count t = 0" and "w_last_retry_at w = None"
  shows "\<exists>w' t'. dispatch_pending (demo_context (demo_services (\<lambda>x. False))) w = (Inr (), w')
    \<and> w_store w' = insert_tx t' empty_store \<and> ct_txid t' = 5 \<and> ct_tx t' = plain_tx 5 \<and> ct_kind t' = Normal
    \<and> ct_state t' = InMempool \<and> ct_target_block_height t' = 120 \<and> ct_retry_count t' = 0"
proof -
  let ?cx = "demo_context (demo_services (\<lambda>x. False))"
  have cfg: "cx_scan ?cx = sorted_scan" by (simp add: demo_context_def)
  have a: "get_active_txs sorted_scan (w_store w) = [t]"
    using one_record(3) [OF t(1) assms(1)] t(3) by (simp add: get_active_txs_def)
  have retry: "apply_retry_rate_limit ?cx [t] w = (Inr [t], w)"
    using t(6) assms(8) by (simp add: apply_retry_rate_limit_def retry_ready_def is_retry_def prog_simps)
  have "st_txs (w_store w) 90 = None" using assms(1) t(1) by (simp add: insert_tx_def empty_store_def)
  then have run: "run_dispatcher ?cx [t] w = (Inr [(5, Success)], w\<lparr>w_ext := w_ext w @ [plain_tx 5]\<rparr>)"
    using t(1,2) by (simp add: run_dispatcher_def dispatch_def validate_txs_def validate_step_def validate_failure_def
       failed_parent_def parents_ready_def send_outcome_def coordinator_dispatcher_storage_def demo_defs default_dispatcher_settings_def
       plain_tx_def is_tx_known_def tx_exists_def get_tx_by_id_def prog_simps)
  let ?t = "t\<lparr>ct_state := InMempool, ct_broadcast_block_height := Some 120,
     ct_fee_info := compute_fee_for_tx (plain_tx 5) 10, ct_fail_guard_until := None\<rparr>"
  have "dispatch_pending ?cx w = (Inr (), w\<lparr>w_store := update_tx ?t (w_store w), w_ext := w_ext w @ [plain_tx 5]\<rparr>)"
    using t
    by (simp add: dispatch_pending_def dispatch_batch_def network_fee_rate_noted_def prog_simps demo_calls cfg a retry
        run is_speedup_def is_ready_to_dispatch_def find_tx_in_batch_def handle_dispatch_result_def verify_tx_id_def
        mark_accepted_def mark_predecessor_def monitor_again_def demo_monitor)
  moreover have "update_tx ?t (w_store w) = insert_tx ?t empty_store"
    using t(1) by (simp add: assms(1) update_tx_def insert_tx_def empty_store_def)
  ultimately show ?thesis using t by (intro exI [of _ ?t] exI conjI) (assumption | simp)+
qed

text \<open>Without speedups and without parents that wait for one, the second half of a tick does nothing.\<close>

lemma speedup_steps_idle:
  assumes "get_speedups_ordered (w_store w) = []" "st_pending_parents (w_store w) = []"
  shows "w_store (snd (speedup_steps (demo_context (demo_services live)) w)) = w_store w"
  using assms
  by (simp add: speedup_steps_def dispatch_pending_speedups_def boost_if_stale_def boost_target_def create_cpfp_batch_def
      get_pending_speedup_parents_def prog_simps demo_calls)

lemma broadcast_world_run:
  "\<exists>t. w_store broadcast_world = insert_tx t empty_store \<and> ct_txid t = 5 \<and> ct_tx t = plain_tx 5 \<and> ct_kind t = Normal
     \<and> ct_state t = InMempool \<and> ct_target_block_height t = 120 \<and> ct_retry_count t = 0"
proof -
  let ?cx = "demo_context (demo_services (\<lambda>x. False))"
  obtain fee where s: "w_store first_dispatch = insert_tx (fresh_record (plain_tx 5) Normal ''client'' 120 None None fee) empty_store"
    using first_dispatch_run by blast
  let ?t = "fresh_record (plain_tx 5) Normal ''client'' 120 None None fee"
  have t: "ct_txid ?t = 5" "ct_tx ?t = plain_tx 5" "ct_state ?t = ToDispatch" "ct_kind ?t = Normal"
      "ct_target_block_height ?t = 120" "ct_retry_count ?t = 0"
    by (simp_all add: fresh_record_def plain_tx_def)
  note one = one_record [OF t(1) s]
  have cfg: "cx_scan ?cx = sorted_scan" by (simp add: demo_context_def)
  have open_calls: "call_monitor (sv_monitor_tick (cx_services ?cx)) w = (Inr (), w)" "is_ready ?cx w = (Inr True, w)" for w
    by (simp_all add: is_ready_def call_monitor_def demo_defs prog_simps)
  have review: "review_active ?cx first_dispatch = (Inr (), first_dispatch)" "review_speedups ?cx first_dispatch = (Inr (), first_dispatch)"
    using one(1,3) one(4) t(3)
    by (simp_all add: review_active_def review_speedups_def demo_calls cfg get_active_txs_def is_terminal_def prog_simps)
  have steps: "tick ?cx first_dispatch = dispatch_steps ?cx first_dispatch"
    using one(2) by (simp add: tick_def open_calls demo_calls review prog_simps dispatch_steps_def speedup_steps_def)
  have "w_last_retry_at first_dispatch = None"
    by (simp add: first_dispatch_def demo_dispatch)
  then obtain w' t' where w': "dispatch_pending ?cx first_dispatch = (Inr (), w')" "w_store w' = insert_tx t' empty_store"
      "ct_txid t' = 5" "ct_tx t' = plain_tx 5" "ct_kind t' = Normal" "ct_state t' = InMempool"
      "ct_target_block_height t' = 120" "ct_retry_count t' = 0"
    using broadcast_steps [OF s t] by blast
  have "w_store (snd (speedup_steps ?cx w')) = w_store w'"
    using one_record(1) [OF w'(3,2)] by (rule speedup_steps_idle) (simp add: w'(2) insert_tx_def empty_store_def)
  then show ?thesis using w' by (auto simp: broadcast_world_def steps dispatch_steps_def pseq_run)
qed

lemma broadcast_world_reachable: "reachable broadcast_world"
  unfolding broadcast_world_def by (rule reachable.event [OF first_dispatch_reachable]) (rule prod.collapse [symmetric])

text \<open>A monitor that reports every transaction to be final.\<close>

definition final_services :: "transaction list services" where
  "final_services = (demo_services (\<lambda>x. False))\<lparr>sv_get_tx_status := (\<lambda>x m. pret
     \<lparr>is_in_mempool = False, is_not_found = False, is_finalized = (\<lambda>m. True), is_confirmed = True, is_orphan = False\<rparr>)\<rparr>"

lemma final_up: "answers (demo_context final_services) 120 (\<lambda>x. True)" "up (demo_context final_services)"
    "scan_spec (cx_scan (demo_context final_services))" "reports (demo_context final_services) 5 Finalized"
    "builds_in (\<lambda>y. y \<noteq> 5) (demo_context final_services)"
  by (auto simp: answers_def seen_def up_def reports_def verdict_def final_services_def demo_context_def demo_services_def
      prog_simps sorted_scan_spec builds_in_def built_by_def demo_build_def dest: arg_cong [where f = tx_compute_txid])

text \<open>The next tick marks transaction 5 as final if it is final, and sends it again if the monitor does not find it.\<close>

theorem tick_follows_monitor_witness:
  "tx_state (w_store (snd (tick (demo_context final_services) broadcast_world))) 5 = Some Finalized
   \<and> tx_state (w_store (snd (tick (demo_context (demo_services (\<lambda>x. False))) broadcast_world))) 5 = Some InMempool"
proof -
  let ?cx = "demo_context (demo_services (\<lambda>x. False))"
  obtain t where s: "w_store broadcast_world = insert_tx t empty_store" and t: "ct_txid t = 5" "ct_tx t = plain_tx 5"
      "ct_kind t = Normal" "ct_state t = InMempool" "ct_target_block_height t = 120" "ct_retry_count t = 0"
    using broadcast_world_run by blast
  have x: "st_txs (w_store broadcast_world) 5 = Some t" "\<not> is_speedup t" "ct_state t \<in> {InMempool, Confirmed}"
      "5 \<notin> set (st_speedup_list (w_store broadcast_world))" "calm cx (w_store broadcast_world)" for cx :: "transaction list engine_context"
    using t by (simp_all add: s insert_tx_def empty_store_def is_speedup_def calm_def)
  have "reports ?cx 5 ToDispatch" by (simp add: reports_def verdict_def demo_context_def demo_services_def demo_status_def prog_simps)
  moreover have "is_ready_to_dispatch t 120" "sure ?cx (\<lambda>x. False) (w_store broadcast_world) t" "\<not> is_retry t"
    using t demo_weight demo_up(4)
    by (simp_all add: sure_def is_ready_to_dispatch_def validate_failure_def plain_tx_def is_retry_def not_less failed_parent_def
        parents_live_def coordinator_dispatcher_storage_def is_tx_known_def tx_exists_def get_tx_by_id_def s insert_tx_def empty_store_def)
  ultimately show ?thesis
    using tick_follows_monitor [OF broadcast_world_reachable final_up(1-3) x(5) final_up(5) x(1-4) final_up(4)]
      tick_follows_monitor [OF broadcast_world_reachable demo_up(1-3) x(5) demo_up(5) x(1-4), where v = ToDispatch and live = "\<lambda>x. False"]
    by simp
qed

end
