(* ===== verification/Settled_Records.thy ===== *)
theory Settled_Records
  imports Coordinator_Facts Broadcast_Facts
begin








text \<open>
  The exception is real: storing a speedup that was built again makes a failed record wait for its broadcast once more.
\<close>

lemma rebuilt_speedup_revives:
  "tx_state (w_store (snd (save_speedup (demo_context (demo_services (\<lambda>x. False))) (demo_build [plain_utxo 91] 2400) fee
       (CPFP [2] c) 120 (demo_world (empty_store\<lparr>st_txs := [70 \<mapsto> plain_cpfp 70 [2] 91 Failed], st_speedup_list := [70]\<rparr>))))) 70
   = Some ToDispatch"
  by (simp add: save_speedup_def prog_simps insert_speedup_def insert_tx_def speedup_record_def demo_world_def demo_build_def
      tx_state_def call_monitor_def demo_defs)

end
