(* ===== verification/Backend_Storage.thy ===== *)
theory Backend_Storage
  imports Store_Keys Store_Funding
begin

text \<open>
  \<open>src/core/storage.rs\<close> down to the key-value backend. The theories \<open>Store\<close> and \<open>Store_Funding\<close>
  describe what the methods of \<open>CoordinatorStorage\<close> do when the backend works; here each method is the
  sequence of reads and writes it makes, every one of which may fail. The
  backend (\<open>Storage\<close> of the crate \<open>storage_backend\<close>), the format in which \<open>serde\<close> stores a value and the
  printing of ids are other crates, hence parameters.
\<close>

section \<open>The backend\<close>

text \<open>
  \<open>StorageKey::new\<close> on the segments of a key, and \<open>get\<close>, \<open>set\<close>, \<open>remove\<close> and \<open>partial_get\<close> of
  \<open>KeyValueStore\<close>, on keys \<open>'k\<close>, stored values \<open>'v\<close> and a state \<open>'b\<close>. Errors are \<open>StorageError\<close>s.
\<close>

record ('b, 'k, 'v) backend =
  be_key :: "string list \<Rightarrow> string + 'k"
  be_get :: "'k \<Rightarrow> ('b, string, 'v option) prog"
  be_set :: "'k \<Rightarrow> 'v \<Rightarrow> ('b, string, unit) prog"
  be_remove :: "'k \<Rightarrow> ('b, string, unit) prog"
  be_partial_get :: "'k \<Rightarrow> ('b, string, 'v list) prog"

text \<open>Writing and reading the five types of stored values.\<close>

record 'v formats =
  put_tx :: "coordinated_tx \<Rightarrow> 'v"
  read_tx :: "'v \<Rightarrow> string + coordinated_tx"
  put_news :: "stored_news_item list \<Rightarrow> 'v"
  read_news :: "'v \<Rightarrow> string + stored_news_item list"
  put_ids :: "txid list \<Rightarrow> 'v"
  read_ids :: "'v \<Rightarrow> string + txid list"
  put_ops :: "out_point list \<Rightarrow> 'v"
  read_ops :: "'v \<Rightarrow> string + out_point list"
  put_funding :: "funding_data \<Rightarrow> 'v"
  read_funding :: "'v \<Rightarrow> string + funding_data"

text \<open>\<open>CoordinatorStorage\<close>: its backend and settings, with the formats and the printing of ids.\<close>

record ('b, 'k, 'v) coordinator_storage =
  cs_backend :: "('b, 'k, 'v) backend"
  cs_formats :: "'v formats"
  cs_show_txid :: "txid \<Rightarrow> string"
  cs_show_op :: "out_point \<Rightarrow> string"
  cs_settings :: coordinator_storage_settings

definition storage_error :: "string \<Rightarrow> failure" where
  "storage_error e = Err (StorageBackendError e)"

definition path_of :: "('b, 'k, 'v) coordinator_storage \<Rightarrow> store_key \<Rightarrow> string list" where
  "path_of cs = get_key (cs_show_txid cs) (cs_show_op cs)"

definition kv_key_at :: "('b, 'k, 'v) coordinator_storage \<Rightarrow> string list \<Rightarrow> ('b, failure, 'k) prog" where
  "kv_key_at cs path =
     plift (case be_key (cs_backend cs) path of Inl e \<Rightarrow> Inl (storage_error e) | Inr k \<Rightarrow> Inr k)"

definition kv_key :: "('b, 'k, 'v) coordinator_storage \<Rightarrow> store_key \<Rightarrow> ('b, failure, 'k) prog" where
  "kv_key cs key = kv_key_at cs (path_of cs key)"

definition kv_decode :: "('v \<Rightarrow> string + 'a) \<Rightarrow> 'v \<Rightarrow> ('b, failure, 'a) prog" where
  "kv_decode read v = plift (case read v of Inl e \<Rightarrow> Inl (storage_error e) | Inr x \<Rightarrow> Inr x)"

definition kv_get ::
    "('b, 'k, 'v) coordinator_storage \<Rightarrow> ('v \<Rightarrow> string + 'a) \<Rightarrow> store_key \<Rightarrow> ('b, failure, 'a option) prog" where
  "kv_get cs read key =
     pbind (kv_key cs key) (\<lambda>k.
     pbind (pmap_err storage_error (be_get (cs_backend cs) k)) (\<lambda>found.
       case found of None \<Rightarrow> pret None | Some v \<Rightarrow> pbind (kv_decode read v) (\<lambda>x. pret (Some x))))"

text \<open>\<open>get(..)?.unwrap_or_default()\<close> of a list.\<close>

definition kv_get_list ::
    "('b, 'k, 'v) coordinator_storage \<Rightarrow> ('v \<Rightarrow> string + 'a list) \<Rightarrow> store_key \<Rightarrow> ('b, failure, 'a list) prog" where
  "kv_get_list cs read key = pbind (kv_get cs read key) (\<lambda>found. pret (unwrap_or found []))"

definition kv_set ::
    "('b, 'k, 'v) coordinator_storage \<Rightarrow> store_key \<Rightarrow> 'v \<Rightarrow> ('b, failure, unit) prog" where
  "kv_set cs key v =
     pbind (kv_key cs key) (\<lambda>k. pmap_err storage_error (be_set (cs_backend cs) k v))"

definition kv_remove :: "('b, 'k, 'v) coordinator_storage \<Rightarrow> store_key \<Rightarrow> ('b, failure, unit) prog" where
  "kv_remove cs key = pbind (kv_key cs key) (\<lambda>k. pmap_err storage_error (be_remove (cs_backend cs) k))"

primrec kv_decode_all :: "('v \<Rightarrow> string + 'a) \<Rightarrow> 'v list \<Rightarrow> ('b, failure, 'a list) prog" where
  "kv_decode_all read [] = pret []"
| "kv_decode_all read (v # vs) =
     pbind (kv_decode read v) (\<lambda>x. pbind (kv_decode_all read vs) (\<lambda>xs. pret (x # xs)))"

text \<open>
  In the code a method computes the key once and uses it for the read and for the write;
  \<open>StorageKey::new\<close> has no effect, so it is repeated here.
\<close>

section \<open>Transaction records\<close>

definition kv_insert_tx :: "('b, 'k, 'v) coordinator_storage \<Rightarrow> coordinated_tx \<Rightarrow> ('b, failure, unit) prog" where
  "kv_insert_tx cs t = kv_set cs (KTx (ct_txid t)) (put_tx (cs_formats cs) t)"

definition kv_insert_txs ::
    "('b, 'k, 'v) coordinator_storage \<Rightarrow> coordinated_tx list \<Rightarrow> ('b, failure, unit) prog" where
  "kv_insert_txs cs ts = pfor ts (kv_insert_tx cs)"

definition kv_update_tx :: "('b, 'k, 'v) coordinator_storage \<Rightarrow> coordinated_tx \<Rightarrow> ('b, failure, unit) prog" where
  "kv_update_tx cs t = kv_set cs (KTx (ct_txid t)) (put_tx (cs_formats cs) t)"

definition kv_remove_speedup_from_list ::
    "('b, 'k, 'v) coordinator_storage \<Rightarrow> txid \<Rightarrow> ('b, failure, unit) prog" where
  "kv_remove_speedup_from_list cs txid =
     pbind (kv_get_list cs (read_ids (cs_formats cs)) KSpeedupList) (\<lambda>xs.
     let kept = retain_ne txid xs
     in if length kept \<noteq> length xs then kv_set cs KSpeedupList (put_ids (cs_formats cs) kept) else pret ())"

definition kv_remove_tx :: "('b, 'k, 'v) coordinator_storage \<Rightarrow> txid \<Rightarrow> ('b, failure, unit) prog" where
  "kv_remove_tx cs txid = pseq (kv_remove cs (KTx txid)) (kv_remove_speedup_from_list cs txid)"

definition kv_get_tx_by_id ::
    "('b, 'k, 'v) coordinator_storage \<Rightarrow> txid \<Rightarrow> ('b, failure, coordinated_tx option) prog" where
  "kv_get_tx_by_id cs txid = kv_get cs (read_tx (cs_formats cs)) (KTx txid)"

definition kv_get_all_txs ::
    "('b, 'k, 'v) coordinator_storage \<Rightarrow> ('b, failure, coordinated_tx list) prog" where
  "kv_get_all_txs cs =
     pbind (kv_key_at cs txs_prefix) (\<lambda>k.
     pbind (pmap_err storage_error (be_partial_get (cs_backend cs) k))
       (kv_decode_all (read_tx (cs_formats cs))))"

definition kv_get_by_state ::
    "('b, 'k, 'v) coordinator_storage \<Rightarrow> transaction_state \<Rightarrow> ('b, failure, coordinated_tx list) prog" where
  "kv_get_by_state cs st = pbind (kv_get_all_txs cs) (\<lambda>txs. pret (filter (\<lambda>t. ct_state t = st) txs))"

definition kv_get_active_txs ::
    "('b, 'k, 'v) coordinator_storage \<Rightarrow> ('b, failure, coordinated_tx list) prog" where
  "kv_get_active_txs cs =
     pbind (kv_get_all_txs cs) (\<lambda>txs. pret (filter (\<lambda>t. ct_state t \<in> {ToDispatch, InMempool, Confirmed}) txs))"

definition kv_exists :: "('b, 'k, 'v) coordinator_storage \<Rightarrow> txid \<Rightarrow> ('b, failure, bool) prog" where
  "kv_exists cs txid = pbind (kv_get_tx_by_id cs txid) (\<lambda>found. pret (found \<noteq> None))"

definition kv_get_settled_txs ::
    "('b, 'k, 'v) coordinator_storage \<Rightarrow> ('b, failure, coordinated_tx list) prog" where
  "kv_get_settled_txs cs =
     pbind (kv_get_all_txs cs) (\<lambda>txs. pret (filter (\<lambda>t. ct_state t \<in> {Finalized, Failed}) txs))"

section \<open>News\<close>

definition kv_add_news ::
    "('b, 'k, 'v) coordinator_storage \<Rightarrow> coordinator_news \<Rightarrow> ('b, failure, bool) prog" where
  "kv_add_news cs n =
     pbind (kv_get_list cs (read_news (cs_formats cs)) KNews) (\<lambda>all.
     if \<exists>item \<in> set all. sn_news item = n then pret False
     else pseq (kv_set cs KNews
                  (put_news (cs_formats cs) (all @ [\<lparr>sn_news = n, sn_acked_at_block = None\<rparr>])))
            (pret True))"

definition kv_get_news ::
    "('b, 'k, 'v) coordinator_storage \<Rightarrow> ('b, failure, coordinator_news list) prog" where
  "kv_get_news cs =
     pbind (kv_get_list cs (read_news (cs_formats cs)) KNews) (\<lambda>all.
       pret (map sn_news (filter (\<lambda>item. sn_acked_at_block item = None) all)))"

definition kv_ack_news ::
    "('b, 'k, 'v) coordinator_storage \<Rightarrow> coordinator_news \<Rightarrow> block_height \<Rightarrow> ('b, failure, unit) prog" where
  "kv_ack_news cs n current_height =
     pbind (kv_get_list cs (read_news (cs_formats cs)) KNews) (\<lambda>all.
       kv_set cs KNews (put_news (cs_formats cs) (ack_first n current_height all)))"

definition kv_cleanup_news ::
    "('b, 'k, 'v) coordinator_storage \<Rightarrow> block_height \<Rightarrow> ('b, failure, unit) prog" where
  "kv_cleanup_news cs current_height =
     pbind (kv_get_list cs (read_news (cs_formats cs)) KNews) (\<lambda>all.
       kv_set cs KNews (put_news (cs_formats cs)
         (filter (\<lambda>item. case sn_acked_at_block item of
            None \<Rightarrow> True | Some h \<Rightarrow> current_height \<le> h) all)))"

section \<open>State changes\<close>

definition kv_update_tx_state_impl ::
    "('b, 'k, 'v) coordinator_storage \<Rightarrow> txid \<Rightarrow> transaction_state \<Rightarrow> block_height option
      \<Rightarrow> ('b, failure, unit) prog" where
  "kv_update_tx_state_impl cs txid new_state height =
     (if is_terminal new_state \<and> height = None
      then pthrow (Err (Internal ''settle_tx must be used for terminal states (Finalized/Failed)''))
      else pbind (kv_get_tx_by_id cs txid) (\<lambda>found. case found of
        None \<Rightarrow> pseq (kv_add_news cs (TxNotFound txid)) (pret ())
      | Some t \<Rightarrow>
          if \<not> can_transition_to (ct_state t) new_state
          then pseq (kv_add_news cs (InvalidStateTransition txid (ct_state t) new_state)) (pret ())
          else let t' = (if is_terminal new_state then t\<lparr>ct_settled_block_height := height\<rparr> else t)
               in kv_update_tx cs (t'\<lparr>ct_state := new_state\<rparr>)))"

definition kv_update_tx_state ::
    "('b, 'k, 'v) coordinator_storage \<Rightarrow> txid \<Rightarrow> transaction_state \<Rightarrow> ('b, failure, unit) prog" where
  "kv_update_tx_state cs txid new_state = kv_update_tx_state_impl cs txid new_state None"

definition kv_settle_tx ::
    "('b, 'k, 'v) coordinator_storage \<Rightarrow> txid \<Rightarrow> transaction_state \<Rightarrow> block_height
      \<Rightarrow> ('b, failure, unit) prog" where
  "kv_settle_tx cs txid new_state height =
     (if \<not> is_terminal new_state
      then pthrow (Err (Internal ''settle_tx must only be called with Finalized or Failed''))
      else kv_update_tx_state_impl cs txid new_state (Some height))"

definition kv_requeue_not_found ::
    "('b, 'k, 'v) coordinator_storage \<Rightarrow> txid \<Rightarrow> block_height \<Rightarrow> ('b, failure, unit) prog" where
  "kv_requeue_not_found cs txid guard_deadline =
     pbind (kv_get_tx_by_id cs txid) (\<lambda>found. case found of
       None \<Rightarrow> pseq (kv_add_news cs (TxNotFound txid)) (pret ())
     | Some t \<Rightarrow>
         if \<not> can_transition_to (ct_state t) ToDispatch
         then pseq (kv_add_news cs (InvalidStateTransition txid (ct_state t) ToDispatch)) (pret ())
         else kv_update_tx cs (t\<lparr>ct_state := ToDispatch,
                ct_fail_guard_until := Some (unwrap_or (ct_fail_guard_until t) guard_deadline)\<rparr>))"

definition kv_mark_as_retry :: "('b, 'k, 'v) coordinator_storage \<Rightarrow> txid \<Rightarrow> ('b, failure, unit) prog" where
  "kv_mark_as_retry cs txid =
     pbind (kv_get_tx_by_id cs txid) (\<lambda>found. case found of
       None \<Rightarrow> pseq (kv_add_news cs (TxNotFound txid)) (pret ())
     | Some t \<Rightarrow>
         if \<not> can_transition_to (ct_state t) ToDispatch
         then pseq (kv_add_news cs (InvalidStateTransition txid (ct_state t) ToDispatch)) (pret ())
         else kv_update_tx cs (t\<lparr>ct_state := ToDispatch, ct_retry_count := ct_retry_count t + 1\<rparr>))"

section \<open>Speedups\<close>

definition kv_insert_speedup ::
    "('b, 'k, 'v) coordinator_storage \<Rightarrow> coordinated_tx \<Rightarrow> ('b, failure, unit) prog" where
  "kv_insert_speedup cs t =
     pseq (kv_insert_tx cs t)
     (pbind (kv_get_list cs (read_ids (cs_formats cs)) KSpeedupList) (\<lambda>xs.
       if ct_txid t \<notin> set xs
       then kv_set cs KSpeedupList (put_ids (cs_formats cs) (xs @ [ct_txid t])) else pret ()))"

text \<open>The loops that read the records of a list of ids.\<close>

primrec kv_read_txs ::
    "('b, 'k, 'v) coordinator_storage \<Rightarrow> txid list \<Rightarrow> ('b, failure, coordinated_tx list) prog" where
  "kv_read_txs cs [] = pret []"
| "kv_read_txs cs (x # xs) =
     pbind (kv_get_tx_by_id cs x) (\<lambda>found.
     pbind (kv_read_txs cs xs) (\<lambda>ts.
       pret (case found of Some t \<Rightarrow> t # ts | None \<Rightarrow> ts)))"

definition kv_get_speedups_ordered ::
    "('b, 'k, 'v) coordinator_storage \<Rightarrow> ('b, failure, coordinated_tx list) prog" where
  "kv_get_speedups_ordered cs =
     pbind (kv_get_list cs (read_ids (cs_formats cs)) KSpeedupList) (kv_read_txs cs)"

section \<open>Pending speedup parents\<close>

definition kv_add_pending_speedup_parent ::
    "('b, 'k, 'v) coordinator_storage \<Rightarrow> txid \<Rightarrow> ('b, failure, unit) prog" where
  "kv_add_pending_speedup_parent cs txid =
     pbind (kv_get_list cs (read_ids (cs_formats cs)) KPendingSpeedupParents) (\<lambda>xs.
       if txid \<notin> set xs
       then kv_set cs KPendingSpeedupParents (put_ids (cs_formats cs) (xs @ [txid])) else pret ())"

definition kv_prepend_pending_speedup_parents ::
    "('b, 'k, 'v) coordinator_storage \<Rightarrow> txid list \<Rightarrow> ('b, failure, unit) prog" where
  "kv_prepend_pending_speedup_parents cs txids =
     (if txids = [] then pret ()
      else pbind (kv_get_list cs (read_ids (cs_formats cs)) KPendingSpeedupParents) (\<lambda>xs.
        let to_prepend = filter (\<lambda>id. id \<notin> set xs) txids
        in if to_prepend = [] then pret ()
           else kv_set cs KPendingSpeedupParents (put_ids (cs_formats cs) (to_prepend @ xs))))"

definition kv_remove_pending_speedup_parent ::
    "('b, 'k, 'v) coordinator_storage \<Rightarrow> txid \<Rightarrow> ('b, failure, unit) prog" where
  "kv_remove_pending_speedup_parent cs txid =
     pbind (kv_get_list cs (read_ids (cs_formats cs)) KPendingSpeedupParents) (\<lambda>xs.
     let kept = retain_ne txid xs
     in if length kept \<noteq> length xs
        then kv_set cs KPendingSpeedupParents (put_ids (cs_formats cs) kept) else pret ())"

primrec kv_live_parents ::
    "('b, 'k, 'v) coordinator_storage \<Rightarrow> txid list \<Rightarrow> coordinated_tx list
      \<Rightarrow> ('b, failure, coordinated_tx list) prog" where
  "kv_live_parents cs [] live = pret live"
| "kv_live_parents cs (x # xs) live =
     pbind (kv_get_tx_by_id cs x) (\<lambda>found. case found of
       Some t \<Rightarrow>
         if ct_state t \<in> {InMempool, Confirmed, Finalized} then kv_live_parents cs xs (live @ [t])
         else if ct_state t = Failed
         then pseq (kv_remove_pending_speedup_parent cs x) (kv_live_parents cs xs live)
         else kv_live_parents cs xs live
     | None \<Rightarrow> pseq (kv_remove_pending_speedup_parent cs x) (kv_live_parents cs xs live))"

definition kv_get_pending_speedup_parents ::
    "('b, 'k, 'v) coordinator_storage \<Rightarrow> ('b, failure, coordinated_tx list) prog" where
  "kv_get_pending_speedup_parents cs =
     pbind (kv_get_list cs (read_ids (cs_formats cs)) KPendingSpeedupParents)
       (\<lambda>xs. kv_live_parents cs xs [])"

primrec kv_protocol_parents ::
    "('b, 'k, 'v) coordinator_storage \<Rightarrow> txid list \<Rightarrow> ('b, failure, txid list) prog" where
  "kv_protocol_parents cs [] = pret []"
| "kv_protocol_parents cs (p # ps) =
     pbind (kv_get_tx_by_id cs p) (\<lambda>found.
     pbind (kv_protocol_parents cs ps) (\<lambda>qs.
       pret (case found of
           Some parent \<Rightarrow> if is_needs_speedup parent then p # qs else qs
         | None \<Rightarrow> qs)))"

definition kv_requeue_protocol_parents ::
    "('b, 'k, 'v) coordinator_storage \<Rightarrow> coordinated_tx \<Rightarrow> ('b, failure, unit) prog" where
  "kv_requeue_protocol_parents cs failed_cpfp =
     (case ct_kind failed_cpfp of
        Speedup (CPFP parents _) \<Rightarrow>
          pbind (kv_protocol_parents cs parents) (kv_prepend_pending_speedup_parents cs)
      | _ \<Rightarrow> pret ())"

section \<open>Eviction\<close>

definition covered_by :: "coordinated_tx list \<Rightarrow> txid set" where
  "covered_by speedups =
     (\<Union>t \<in> set speedups.
        if ct_state t \<in> {Failed, Finalized} then {}
        else case ct_kind t of Speedup (CPFP parents _) \<Rightarrow> set parents | _ \<Rightarrow> {})"

definition kv_evict_one ::
    "('b, 'k, 'v) coordinator_storage \<Rightarrow> block_height \<Rightarrow> txid list \<Rightarrow> txid set \<Rightarrow> coordinated_tx
      \<Rightarrow> ('b, failure, unit) prog" where
  "kv_evict_one cs current_height psp covered t =
     (case ct_settled_block_height t of
        None \<Rightarrow> pret ()
      | Some settled_height \<Rightarrow>
          if max_tracking_confirmations (cs_settings cs) \<le> saturating_sub current_height settled_height
          then if is_needs_speedup t \<and> (ct_txid t \<in> set psp \<or> ct_txid t \<in> covered)
               then pret ()
               else pseq (kv_remove_tx cs (ct_txid t))
                      (pseq (kv_add_news cs (TransactionEvicted (ct_txid t) (ct_context t))) (pret ()))
          else pret ())"

definition kv_evict_stale_txs ::
    "('b, 'k, 'v) coordinator_storage \<Rightarrow> block_height \<Rightarrow> ('b, failure, unit) prog" where
  "kv_evict_stale_txs cs current_height =
     pbind (kv_get_settled_txs cs) (\<lambda>settled.
     pbind (kv_get_list cs (read_ids (cs_formats cs)) KPendingSpeedupParents) (\<lambda>psp.
     pbind (kv_get_speedups_ordered cs) (\<lambda>speedups.
       pfor settled (kv_evict_one cs current_height psp (covered_by speedups)))))"

section \<open>Funding queue\<close>

definition kv_get_funding_record ::
    "('b, 'k, 'v) coordinator_storage \<Rightarrow> out_point \<Rightarrow> ('b, failure, funding_data option) prog" where
  "kv_get_funding_record cs op = kv_get cs (read_funding (cs_formats cs)) (KFunding op)"

definition kv_is_speedup_derived ::
    "('b, 'k, 'v) coordinator_storage \<Rightarrow> out_point \<Rightarrow> ('b, failure, bool) prog" where
  "kv_is_speedup_derived cs op =
     pbind (kv_get_funding_record cs op) (\<lambda>found. case found of
       Some r \<Rightarrow> pret (fd_from_speedup r)
     | None \<Rightarrow> pbind (kv_get_tx_by_id cs (op_txid op)) (\<lambda>tx.
         pret (case tx of Some t \<Rightarrow> is_speedup t | None \<Rightarrow> False)))"

definition kv_funding_list :: "('b, 'k, 'v) coordinator_storage \<Rightarrow> ('b, failure, out_point list) prog" where
  "kv_funding_list cs = kv_get_list cs (read_ops (cs_formats cs)) KFundingList"

definition kv_set_funding_list ::
    "('b, 'k, 'v) coordinator_storage \<Rightarrow> out_point list \<Rightarrow> ('b, failure, unit) prog" where
  "kv_set_funding_list cs xs = kv_set cs KFundingList (put_ops (cs_formats cs) xs)"

definition kv_put_funding_record ::
    "('b, 'k, 'v) coordinator_storage \<Rightarrow> out_point \<Rightarrow> funding_data \<Rightarrow> ('b, failure, unit) prog" where
  "kv_put_funding_record cs op r = kv_set cs (KFunding op) (put_funding (cs_formats cs) r)"

primrec kv_read_records ::
    "('b, 'k, 'v) coordinator_storage \<Rightarrow> out_point list \<Rightarrow> ('b, failure, funding_data list) prog" where
  "kv_read_records cs [] = pret []"
| "kv_read_records cs (op # ops) =
     pbind (kv_get_funding_record cs op) (\<lambda>found.
     pbind (kv_read_records cs ops) (\<lambda>rs.
       pret (case found of Some r \<Rightarrow> r # rs | None \<Rightarrow> rs)))"

definition kv_read_funding_records ::
    "('b, 'k, 'v) coordinator_storage \<Rightarrow> ('b, failure, funding_data list) prog" where
  "kv_read_funding_records cs = pbind (kv_funding_list cs) (kv_read_records cs)"

definition kv_append_funding :: "('b, 'k, 'v) coordinator_storage \<Rightarrow> utxo \<Rightarrow> ('b, failure, unit) prog" where
  "kv_append_funding cs u =
     (let op = utxo_outpoint u
      in pseq (kv_put_funding_record cs op \<lparr>fd_utxo = u, fd_spent = False, fd_from_speedup = False\<rparr>)
           (pbind (kv_funding_list cs) (\<lambda>xs.
             if op \<notin> set xs then kv_set_funding_list cs (xs @ [op]) else pret ())))"

definition kv_set_spent ::
    "('b, 'k, 'v) coordinator_storage \<Rightarrow> out_point \<Rightarrow> bool \<Rightarrow> ('b, failure, unit) prog" where
  "kv_set_spent cs op b =
     pbind (kv_get_funding_record cs op) (\<lambda>found. case found of
       Some r \<Rightarrow> if fd_spent r \<noteq> b then kv_put_funding_record cs op (r\<lparr>fd_spent := b\<rparr>) else pret ()
     | None \<Rightarrow>
         pbind (kv_get_tx_by_id cs (op_txid op)) (\<lambda>tx. case tx of
           Some t \<Rightarrow>
             (case ct_kind t of
                Speedup k \<Rightarrow>
                  if sc_spent (context_of k) \<noteq> b
                  then kv_update_tx cs (t\<lparr>ct_kind := Speedup (map_context (set_context_spent b) k)\<rparr>)
                  else pret ()
              | _ \<Rightarrow> pret ())
         | None \<Rightarrow> pret ()))"

definition kv_clear_funding_records ::
    "('b, 'k, 'v) coordinator_storage \<Rightarrow> ('b, failure, unit) prog" where
  "kv_clear_funding_records cs =
     pbind (kv_funding_list cs) (\<lambda>xs.
       pseq (pfor xs (\<lambda>op. kv_remove cs (KFunding op))) (kv_remove cs KFundingList))"

primrec kv_remove_matched ::
    "('b, 'k, 'v) coordinator_storage \<Rightarrow> nat list \<Rightarrow> out_point list \<Rightarrow> ('b, failure, out_point list) prog" where
  "kv_remove_matched cs [] xs = pret xs"
| "kv_remove_matched cs (i # is) xs =
     pbind (plift (vec_remove i xs)) (\<lambda>(removed, xs').
     pseq (kv_remove cs (KFunding removed)) (kv_remove_matched cs is xs'))"

definition kv_replace_funding_on_finalize ::
    "('b, 'k, 'v) coordinator_storage \<Rightarrow> txid \<Rightarrow> ('b, failure, unit) prog" where
  "kv_replace_funding_on_finalize cs txid =
     pbind (kv_get_tx_by_id cs txid) (\<lambda>found. case found of
       None \<Rightarrow> pret ()
     | Some t \<Rightarrow>
         (case speedup_change_utxo t of
            Inl (Err _) \<Rightarrow> pret ()
          | Inl other \<Rightarrow> pthrow other
          | Inr change \<Rightarrow>
              pbind (plift (speedup_kind_of t)) (\<lambda>k.
              let ctx = context_of k;
                  consumed = map utxo_outpoint (sc_funding_inputs ctx)
              in pbind (kv_funding_list cs) (\<lambda>queue.
              let (to_remove_idx, insert_pos) = collect_consumed consumed queue
              in if to_remove_idx = [] then pret ()
                 else pbind (kv_remove_matched cs (rev to_remove_idx) queue) (\<lambda>xs.
                   let change_op = utxo_outpoint change;
                       r = \<lparr>fd_utxo = change, fd_spent = sc_spent ctx, fd_from_speedup = True\<rparr>
                   in pseq (kv_put_funding_record cs change_op r)
                      (case insert_pos of
                         None \<Rightarrow> pthrow (Panic ''unwrap on None'')
                       | Some p \<Rightarrow>
                           pseq (kv_set_funding_list cs (vec_insert (min p (length xs)) change_op xs))
                             (kv_remove_speedup_from_list cs (ct_txid t))))))))"

section \<open>Dispatcher storage\<close>

definition kv_is_tx_known :: "('b, 'k, 'v) coordinator_storage \<Rightarrow> txid \<Rightarrow> ('b, failure, bool) prog" where
  "kv_is_tx_known cs txid = pbind (kv_get_tx_by_id cs txid) (\<lambda>found. pret (found \<noteq> None))"

definition kv_is_tx_failed :: "('b, 'k, 'v) coordinator_storage \<Rightarrow> txid \<Rightarrow> ('b, failure, bool) prog" where
  "kv_is_tx_failed cs txid =
     pbind (kv_get_tx_by_id cs txid) (\<lambda>found.
       pret (case found of Some t \<Rightarrow> ct_state t = Failed | None \<Rightarrow> False))"

end
