(* ===== verification/Backend_Logic.thy ===== *)
theory Backend_Logic
  imports Backend_Storage Store_Facts
begin

text \<open>
  What is asked of the key-value backend (the locale \<open>key_value_storage\<close>), how its contents stand for a
  \<open>store\<close>, and the judgement \<open>performs\<close>: from a backend that holds the store \<open>s\<close> a method makes the
  writes \<open>ws\<close> one after the other and returns \<open>r\<close>, or the backend fails, and then a first part of \<open>ws\<close>
  has been made. A \<open>healthy\<close> backend does not fail. The rules for reads, writes and sequences let each method be run symbolically.
\<close>

section \<open>Writes\<close>

datatype store_write =
    PutTx coordinated_tx
  | DropTx txid
  | SetNews "stored_news_item list"
  | SetSpeedups "txid list"
  | SetPending "txid list"
  | SetFundingList "out_point list"
  | PutFunding out_point funding_data
  | DropFunding out_point

primrec apply_write :: "store_write \<Rightarrow> store \<Rightarrow> store" where
  "apply_write (PutTx t) s = insert_tx t s"
| "apply_write (DropTx txid) s = s\<lparr>st_txs := (st_txs s)(txid := None)\<rparr>"
| "apply_write (SetNews items) s = s\<lparr>st_news := items\<rparr>"
| "apply_write (SetSpeedups xs) s = s\<lparr>st_speedup_list := xs\<rparr>"
| "apply_write (SetPending xs) s = s\<lparr>st_pending_parents := xs\<rparr>"
| "apply_write (SetFundingList xs) s = set_funding_list xs s"
| "apply_write (PutFunding op r) s = put_funding_record op r s"
| "apply_write (DropFunding op) s = drop_funding_record op s"

definition apply_writes :: "store_write list \<Rightarrow> store \<Rightarrow> store" where
  "apply_writes ws s = fold apply_write ws s"

lemma apply_writes_simps [simp]:
  "apply_writes [] s = s"
  "apply_writes (w # ws) s = apply_writes ws (apply_write w s)"
  "apply_writes (ws @ vs) s = apply_writes vs (apply_writes ws s)"
  by (simp_all add: apply_writes_def)

section \<open>The store a backend holds\<close>

definition holds_list :: "('a list \<Rightarrow> 'v) \<Rightarrow> 'v option \<Rightarrow> 'a list \<Rightarrow> bool" where
  "holds_list put found xs \<longleftrightarrow> found = Some (put xs) \<or> found = None \<and> xs = []"

definition matches ::
    "('b, 'k, 'v) coordinator_storage \<Rightarrow> (string list \<rightharpoonup> 'v) \<Rightarrow> store \<Rightarrow> bool" where
  "matches cs h s \<longleftrightarrow>
     (\<forall>x. h (path_of cs (KTx x)) = map_option (put_tx (cs_formats cs)) (st_txs s x))
   \<and> (\<forall>op. h (path_of cs (KFunding op)) = map_option (put_funding (cs_formats cs)) (st_funding s op))
   \<and> holds_list (put_news (cs_formats cs)) (h (path_of cs KNews)) (st_news s)
   \<and> holds_list (put_ids (cs_formats cs)) (h (path_of cs KSpeedupList)) (st_speedup_list s)
   \<and> holds_list (put_ids (cs_formats cs)) (h (path_of cs KPendingSpeedupParents)) (st_pending_parents s)
   \<and> holds_list (put_ops (cs_formats cs)) (h (path_of cs KFundingList)) (st_funding_list s)
   \<and> (\<forall>path. h path \<noteq> None \<longrightarrow> has_prefix txs_prefix path \<longrightarrow> (\<exists>x. path = path_of cs (KTx x)))"

section \<open>A backend that works\<close>

text \<open>From such a state on no call fails.\<close>

coinductive healthy :: "('b, 'k, 'v) coordinator_storage \<Rightarrow> 'b \<Rightarrow> bool" for cs where
  "(\<And>path. \<exists>k. be_key (cs_backend cs) path = Inr k) \<Longrightarrow>
   (\<And>k. \<exists>x b'. be_get (cs_backend cs) k b = (Inr x, b') \<and> healthy cs b') \<Longrightarrow>
   (\<And>k v. \<exists>b'. be_set (cs_backend cs) k v b = (Inr (), b') \<and> healthy cs b') \<Longrightarrow>
   (\<And>k. \<exists>b'. be_remove (cs_backend cs) k b = (Inr (), b') \<and> healthy cs b') \<Longrightarrow>
   (\<And>k. \<exists>vs b'. be_partial_get (cs_backend cs) k b = (Inr vs, b') \<and> healthy cs b') \<Longrightarrow>
   healthy cs b"

text \<open>What a call of the backend does to its health.\<close>

definition stays_healthy :: "('b, 'k, 'v) coordinator_storage \<Rightarrow> ('b, string, 'a) prog \<Rightarrow> bool" where
  "stays_healthy cs m \<longleftrightarrow> (\<forall>b r b'. healthy cs b \<longrightarrow> m b = (r, b') \<longrightarrow> (\<exists>x. r = Inr x) \<and> healthy cs b')"

lemma stays_healthyD:
  assumes "stays_healthy cs m" "m b = (r, b')" "healthy cs b"
  shows "r \<noteq> Inl e" "healthy cs b'"
  using assms unfolding stays_healthy_def by fastforce+

lemma healthy_calls:
  "stays_healthy cs (be_get (cs_backend cs) k)"
  "stays_healthy cs (be_set (cs_backend cs) k v)"
  "stays_healthy cs (be_remove (cs_backend cs) k)"
  "stays_healthy cs (be_partial_get (cs_backend cs) k)"
  unfolding stays_healthy_def by (metis healthy.cases prod.inject)+

lemma healthy_key: "healthy cs b \<Longrightarrow> be_key (cs_backend cs) path \<noteq> Inl e"
  by (metis Inl_Inr_False healthy.cases)

section \<open>The laws\<close>

text \<open>
  \<open>holds b\<close> is the contents of the backend in the state \<open>b\<close>. A read changes nothing and gives what is
  there, a write that succeeds is in force, one that fails is either in force or not; \<open>partial_get\<close>
  lists the values under a prefix, each once, in an order that is not known. Values are read back as
  they were written, and different ids print differently. Every call may fail at any time.
\<close>

locale key_value_storage =
  fixes cs :: "('b, 'k, 'v) coordinator_storage"
    and holds :: "'b \<Rightarrow> string list \<Rightarrow> 'v option"
  assumes get_law:
      "be_key (cs_backend cs) path = Inr k \<Longrightarrow> be_get (cs_backend cs) k b = (r, b') \<Longrightarrow>
       holds b' = holds b \<and> (\<forall>found. r = Inr found \<longrightarrow> found = holds b path)"
    and set_law:
      "be_key (cs_backend cs) path = Inr k \<Longrightarrow> be_set (cs_backend cs) k v b = (u, b') \<Longrightarrow>
       holds b' = (holds b)(path \<mapsto> v) \<or> (\<exists>e. u = Inl e) \<and> holds b' = holds b"
    and remove_law:
      "be_key (cs_backend cs) path = Inr k \<Longrightarrow> be_remove (cs_backend cs) k b = (u, b') \<Longrightarrow>
       holds b' = (holds b)(path := None) \<or> (\<exists>e. u = Inl e) \<and> holds b' = holds b"
    and partial_get_law:
      "be_key (cs_backend cs) path = Inr k \<Longrightarrow> be_partial_get (cs_backend cs) k b = (q, b') \<Longrightarrow>
       holds b' = holds b \<and> (\<forall>vs. q = Inr vs \<longrightarrow> (\<exists>paths. distinct paths
         \<and> set paths = {p. holds b p \<noteq> None \<and> has_prefix path p} \<and> map Some vs = map (holds b) paths))"
    and formats_law:
      "read_tx (cs_formats cs) (put_tx (cs_formats cs) t) = Inr t"
      "read_news (cs_formats cs) (put_news (cs_formats cs) items) = Inr items"
      "read_ids (cs_formats cs) (put_ids (cs_formats cs) ids) = Inr ids"
      "read_ops (cs_formats cs) (put_ops (cs_formats cs) ops) = Inr ops"
      "read_funding (cs_formats cs) (put_funding (cs_formats cs) fd) = Inr fd"
    and show_law: "inj (cs_show_txid cs)" "inj (cs_show_op cs)"
begin

lemma path_eq [simp]: "path_of cs x = path_of cs y \<longleftrightarrow> x = y"
  unfolding path_of_def by (rule get_key_inj [OF show_law])

lemma path_prefix [simp]: "has_prefix txs_prefix (path_of cs x) \<longleftrightarrow> (\<exists>id. x = KTx id)"
  unfolding path_of_def by (rule get_key_prefix)

definition performs ::
    "store \<Rightarrow> ('b, failure, 'a) prog \<Rightarrow> failure + 'a \<Rightarrow> store_write list \<Rightarrow> bool" where
  "performs s m r ws \<longleftrightarrow> (\<forall>b r' b'. matches cs (holds b) s \<longrightarrow> m b = (r', b') \<longrightarrow>
     r' = r \<and> matches cs (holds b') (apply_writes ws s) \<and> (healthy cs b \<longrightarrow> healthy cs b')
     \<or> \<not> healthy cs b \<and> (\<exists>e n. r' = Inl (storage_error e) \<and> matches cs (holds b') (apply_writes (take n ws) s)))"

lemma performsI:
  assumes "\<And>b r' b'. matches cs (holds b) s \<Longrightarrow> m b = (r', b') \<Longrightarrow>
     r' = r \<and> matches cs (holds b') (apply_writes ws s) \<and> (healthy cs b \<longrightarrow> healthy cs b')
     \<or> \<not> healthy cs b \<and> (\<exists>e n. r' = Inl (storage_error e) \<and> matches cs (holds b') (apply_writes (take n ws) s))"
  shows "performs s m r ws"
  using assms unfolding performs_def by blast

lemma performsD:
  assumes "performs s m r ws" "matches cs (holds b) s" "m b = (r', b')"
  obtains (returns) "r' = r" "matches cs (holds b') (apply_writes ws s)" "healthy cs b \<longrightarrow> healthy cs b'"
    | (breaks) e n where "\<not> healthy cs b" "r' = Inl (storage_error e)" "matches cs (holds b') (apply_writes (take n ws) s)"
  using assms unfolding performs_def by blast

subsection \<open>Control\<close>

lemma performs_ret: "performs s (pret x) (Inr x) []"
  by (rule performsI) (simp add: pret_run)

lemma performs_throw: "performs s (pthrow e) (Inl e) []"
  by (rule performsI) (simp add: pthrow_run)

lemma performs_lift: "performs s (plift r) r []"
  by (rule performsI) (simp add: plift_run)

lemma performs_bind:
  assumes m: "performs s m (Inr x) ws" and f: "performs (apply_writes ws s) (f x) r vs"
  shows "performs s (pbind m f) r (ws @ vs)"
proof (rule performsI)
  fix b r' b' assume b: "matches cs (holds b) s" and run: "pbind m f b = (r', b')"
  obtain a c where mb: "m b = (a, c)" by fastforce
  from m b mb show "r' = r \<and> matches cs (holds b') (apply_writes (ws @ vs) s) \<and> (healthy cs b \<longrightarrow> healthy cs b')
     \<or> \<not> healthy cs b \<and> (\<exists>e n. r' = Inl (storage_error e) \<and> matches cs (holds b') (apply_writes (take n (ws @ vs)) s))"
  proof (cases rule: performsD)
    case returns
    note first = returns
    have "f x c = (r', b')" using run mb returns(1) by (simp add: pbind_run)
    with f returns(2) show ?thesis
    proof (cases rule: performsD)
      case returns
      then show ?thesis using first(3) by simp
    next
      case (breaks e n)
      then show ?thesis using first(3) by (auto intro!: exI [of _ "length ws + n"])
    qed
  next
    case (breaks e n)
    then have "r' = Inl (storage_error e)" "b' = c" using run mb by (simp_all add: pbind_run)
    moreover have "take n ws = take (min n (length ws)) (ws @ vs)" by (simp add: min_def)
    ultimately show ?thesis using breaks(1,3) by metis
  qed
qed

lemma performs_bind_stop: "performs s m (Inl e) ws \<Longrightarrow> performs s (pbind m f) (Inl e) ws"
  unfolding performs_def by (auto simp: pbind_run split: prod.splits sum.splits)

lemma performs_seq:
  "performs s m (Inr x) ws \<Longrightarrow> performs (apply_writes ws s) n r vs \<Longrightarrow> performs s (pseq m n) r (ws @ vs)"
  unfolding pseq_def by (rule performs_bind)

lemma performs_seq_stop: "performs s m (Inl e) ws \<Longrightarrow> performs s (pseq m n) (Inl e) ws"
  unfolding pseq_def by (rule performs_bind_stop)

text \<open>A read, and a write that something follows.\<close>

lemma performs_read:
  "performs s m (Inr x) [] \<Longrightarrow> performs s (f x) r ws \<Longrightarrow> performs s (pbind m f) r ws"
  using performs_bind [of s m x "[]" f r ws] by simp

lemma performs_then:
  "performs s m (Inr x) [w] \<Longrightarrow> performs (apply_write w s) n r ws \<Longrightarrow> performs s (pseq m n) r (w # ws)"
  using performs_seq [of s m x "[w]" n r ws] by simp

lemma performs_bind_ret:
  "performs s m (Inr x) ws \<Longrightarrow> performs s (pbind m (\<lambda>x. pret (g x))) (Inr (g x)) ws"
  using performs_bind [OF _ performs_ret, of s m x ws g] by simp

lemma performs_seq_ret: "performs s m (Inr x) ws \<Longrightarrow> performs s (pseq m (pret y)) (Inr y) ws"
  unfolding pseq_def by (rule performs_bind_ret)

lemma performs_step:
  "performs s (f x) (Inr ()) (w x s) \<Longrightarrow>
   performs (apply_writes (w x s) s) (pfor xs f) (Inr ()) ws \<Longrightarrow>
   performs s (pfor (x # xs) f) (Inr ()) (w x s @ ws)"
  by (simp add: performs_seq)

subsection \<open>Keys and cells\<close>

lemma key_cases:
  assumes "kv_key cs key b = (r, b')"
  obtains (ok) k where "r = Inr k" "b' = b" "be_key (cs_backend cs) (path_of cs key) = Inr k"
    | (bad) e where "r = Inl (storage_error e)" "b' = b" "\<not> healthy cs b"
proof (cases "be_key (cs_backend cs) (path_of cs key)")
  case (Inl e)
  then show thesis using assms bad healthy_key [of cs b "path_of cs key" e]
    by (auto simp: kv_key_def kv_key_at_def plift_run)
next
  case (Inr k)
  then show thesis using assms ok by (auto simp: kv_key_def kv_key_at_def plift_run)
qed

lemma performs_lookup:
  fixes x :: 'a
  assumes at: "\<And>h. matches cs h s \<Longrightarrow> (case h (path_of cs key) of
      None \<Rightarrow> g None = x | Some v \<Rightarrow> \<exists>y. read v = Inr y \<and> g (Some y) = x)"
  shows "performs s (pbind (kv_get cs read key) (\<lambda>found. pret (g found))) (Inr x) []"
proof (rule performsI)
  fix b r b' assume b: "matches cs (holds b) s"
    and run: "pbind (kv_get cs read key) (\<lambda>found. pret (g found)) b = (r, b')"
  obtain r1 b1 where key: "kv_key cs key b = (r1, b1)" by fastforce
  then show "r = Inr x \<and> matches cs (holds b') (apply_writes [] s) \<and> (healthy cs b \<longrightarrow> healthy cs b')
     \<or> \<not> healthy cs b \<and> (\<exists>e n. r = Inl (storage_error e) \<and> matches cs (holds b') (apply_writes (take n []) s))"
  proof (cases rule: key_cases)
    case (ok k)
    obtain r2 b2 where get: "be_get (cs_backend cs) k b = (r2, b2)" by fastforce
    have m: "matches cs (holds b2) s" and val: "r2 = Inr found \<Longrightarrow> found = holds b (path_of cs key)" for found
      using get_law [OF ok(3) get] b by auto
    note h = stays_healthyD [OF healthy_calls(1) get]
    show ?thesis
    proof (cases r2)
      case (Inl e)
      then show ?thesis using run key ok get m h by (auto simp: kv_get_def pbind_run pmap_err_run)
    next
      case (Inr found)
      have "kv_get cs read key b = (case found of None \<Rightarrow> pret None
          | Some v \<Rightarrow> pbind (kv_decode read v) (\<lambda>x. pret (Some x))) b2"
        using key ok get Inr by (simp add: kv_get_def pbind_run pmap_err_run)
      then have "r = Inr x \<and> b' = b2"
        using run at [OF b] unfolding val [OF Inr, symmetric]
        by (cases found) (auto simp: pbind_run kv_decode_def plift_run pret_run)
      then show ?thesis using m h by simp
    qed
  next
    case (bad e)
    then show ?thesis using run key b by (auto simp: kv_get_def pbind_run)
  qed
qed

lemma bind_ret: "pbind m pret = m"
  by (rule ext) (simp add: pbind_run pret_run split: prod.split sum.split)

lemma performs_get:
  assumes "\<And>x. read (put x) = Inr x" and "\<And>h. matches cs h s \<Longrightarrow> h (path_of cs key) = map_option put x"
  shows "performs s (kv_get cs read key) (Inr x) []"
proof -
  have "case h (path_of cs key) of None \<Rightarrow> None = x | Some v \<Rightarrow> \<exists>y. read v = Inr y \<and> Some y = x"
    if "matches cs h s" for h
    using assms(1) assms(2) [OF that] by (cases x) simp_all
  then have "performs s (pbind (kv_get cs read key) (\<lambda>found. pret found)) (Inr x) []" by (rule performs_lookup)
  then show ?thesis by (simp add: bind_ret)
qed

lemma performs_get_list:
  assumes "\<And>x. read (put x) = Inr x"
    and "\<And>h. matches cs h s \<Longrightarrow> holds_list put (h (path_of cs key)) xs"
  shows "performs s (kv_get_list cs read key) (Inr xs) []"
  unfolding kv_get_list_def
proof (rule performs_lookup)
  fix h assume "matches cs h s"
  from assms(2) [OF this] show "case h (path_of cs key) of None \<Rightarrow> unwrap_or None [] = xs
      | Some v \<Rightarrow> \<exists>ys. read v = Inr ys \<and> unwrap_or (Some ys) [] = xs"
    using assms(1) by (auto simp: holds_list_def)
qed

lemma performs_update:
  assumes law: "\<And>k b r b'. be_key (cs_backend cs) (path_of cs key) = Inr k \<Longrightarrow> op k b = (r, b') \<Longrightarrow>
      holds b' = (holds b)(path_of cs key := new) \<or> (\<exists>e. r = Inl e) \<and> holds b' = holds b"
    and ok: "\<And>k. stays_healthy cs (op k)"
    and at: "\<And>h. matches cs h s \<Longrightarrow> matches cs (h(path_of cs key := new)) (apply_write w s)"
  shows "performs s (pbind (kv_key cs key) (\<lambda>k. pmap_err storage_error (op k))) (Inr ()) [w]"
proof (rule performsI)
  fix b r b' assume b: "matches cs (holds b) s"
    and run: "pbind (kv_key cs key) (\<lambda>k. pmap_err storage_error (op k)) b = (r, b')"
  obtain r1 b1 where key: "kv_key cs key b = (r1, b1)" by fastforce
  then show "r = Inr () \<and> matches cs (holds b') (apply_writes [w] s) \<and> (healthy cs b \<longrightarrow> healthy cs b')
     \<or> \<not> healthy cs b \<and> (\<exists>e n. r = Inl (storage_error e) \<and> matches cs (holds b') (apply_writes (take n [w]) s))"
  proof (cases rule: key_cases)
    case (ok k)
    obtain r2 b2 where op: "op k b = (r2, b2)" by fastforce
    have r: "r = (case r2 of Inl e \<Rightarrow> Inl (storage_error e) | Inr u \<Rightarrow> Inr u)" "b' = b2"
      using run key ok op by (auto simp: pbind_run pmap_err_run split: sum.splits)
    note h = stays_healthyD [OF assms(2) op]
    show ?thesis
    proof (cases r2)
      case (Inl e)
      have "holds b2 = (holds b)(path_of cs key := new) \<or> holds b2 = holds b" using law [OF ok(3) op] by blast
      then have "\<exists>n. matches cs (holds b2) (apply_writes (take n [w]) s)"
        using at [OF b] b by (auto intro: exI [of _ "0"] exI [of _ "Suc 0"])
      then show ?thesis using r Inl h by auto
    next
      case (Inr u)
      then show ?thesis using r h law [OF ok(3) op] at [OF b] by auto
    qed
  next
    case (bad e)
    then show ?thesis using run key b by (auto simp: pbind_run intro!: exI [of _ "0"])
  qed
qed

lemma performs_set:
  assumes "\<And>h. matches cs h s \<Longrightarrow> matches cs (h(path_of cs key \<mapsto> v)) (apply_write w s)"
  shows "performs s (kv_set cs key v) (Inr ()) [w]"
  unfolding kv_set_def by (rule performs_update [OF set_law healthy_calls(2) assms])

lemma performs_remove:
  assumes "\<And>h. matches cs h s \<Longrightarrow> matches cs (h(path_of cs key := None)) (apply_write w s)"
  shows "performs s (kv_remove cs key) (Inr ()) [w]"
  unfolding kv_remove_def by (rule performs_update [OF remove_law healthy_calls(3) assms])

subsection \<open>The cells of the store\<close>

lemma performs_get_tx: "performs s (kv_get_tx_by_id cs x) (Inr (get_tx_by_id x s)) []"
  unfolding kv_get_tx_by_id_def get_tx_by_id_def
  by (rule performs_get [where put = "put_tx (cs_formats cs)"]) (simp_all add: formats_law matches_def)

lemma performs_get_tx_then:
  assumes "performs s (f (get_tx_by_id x s)) r ws"
  shows "performs s (pbind (kv_get_tx_by_id cs x) f) r ws"
  by (rule performs_read [where f = f, OF performs_get_tx assms])

lemma performs_get_record: "performs s (kv_get_funding_record cs op) (Inr (get_funding_record op s)) []"
  unfolding kv_get_funding_record_def get_funding_record_def
  by (rule performs_get [where put = "put_funding (cs_formats cs)"]) (simp_all add: formats_law matches_def)

lemma performs_lists:
  "performs s (kv_get_list cs (read_news (cs_formats cs)) KNews) (Inr (st_news s)) []"
  "performs s (kv_get_list cs (read_ids (cs_formats cs)) KSpeedupList) (Inr (st_speedup_list s)) []"
  "performs s (kv_get_list cs (read_ids (cs_formats cs)) KPendingSpeedupParents) (Inr (st_pending_parents s)) []"
  "performs s (kv_get_list cs (read_ops (cs_formats cs)) KFundingList) (Inr (st_funding_list s)) []"
  by (rule performs_get_list [where put = "put_news (cs_formats cs)"], simp_all add: formats_law matches_def)
    (rule performs_get_list [where put = "put_ids (cs_formats cs)"]
      performs_get_list [where put = "put_ops (cs_formats cs)"], simp_all add: formats_law matches_def)+

lemma performs_put_tx: "performs s (kv_update_tx cs t) (Inr ()) [PutTx t]"
  unfolding kv_update_tx_def
  by (rule performs_set) (auto simp: matches_def insert_tx_def)

lemma performs_drop_tx: "performs s (kv_remove cs (KTx x)) (Inr ()) [DropTx x]"
  by (rule performs_remove) (auto simp: matches_def)

lemma performs_set_news: "performs s (kv_set cs KNews (put_news (cs_formats cs) xs)) (Inr ()) [SetNews xs]"
  by (rule performs_set) (auto simp: matches_def holds_list_def)

lemma performs_set_speedups:
  "performs s (kv_set cs KSpeedupList (put_ids (cs_formats cs) xs)) (Inr ()) [SetSpeedups xs]"
  by (rule performs_set) (auto simp: matches_def holds_list_def)

lemma performs_set_pending:
  "performs s (kv_set cs KPendingSpeedupParents (put_ids (cs_formats cs) xs)) (Inr ()) [SetPending xs]"
  by (rule performs_set) (auto simp: matches_def holds_list_def)

lemma performs_set_funding_list: "performs s (kv_set_funding_list cs xs) (Inr ()) [SetFundingList xs]"
  unfolding kv_set_funding_list_def
  by (rule performs_set) (auto simp: matches_def holds_list_def set_funding_list_def)

lemma performs_clear_funding_list: "performs s (kv_remove cs KFundingList) (Inr ()) [SetFundingList []]"
  by (rule performs_remove) (auto simp: matches_def holds_list_def set_funding_list_def)

lemma performs_put_record: "performs s (kv_put_funding_record cs op r) (Inr ()) [PutFunding op r]"
  unfolding kv_put_funding_record_def
  by (rule performs_set) (auto simp: matches_def put_funding_record_def)

lemma performs_drop_record: "performs s (kv_remove cs (KFunding op)) (Inr ()) [DropFunding op]"
  by (rule performs_remove) (auto simp: matches_def drop_funding_record_def)

end

end
