(* ===== verification/Backend_Refinement.thy ===== *)
theory Backend_Refinement
  imports Backend_Logic
begin

text \<open>
  Each method of \<open>CoordinatorStorage\<close> over a backend does what its counterpart in \<open>Store\<close> and
  \<open>Store_Funding\<close> says, or the backend has failed and a first part of the method's writes is made.
  The writes of each method are spelled out, so what an interrupted method leaves is known exactly.
\<close>

section \<open>The writes of each method\<close>

definition news_writes :: "coordinator_news \<Rightarrow> store \<Rightarrow> store_write list" where
  "news_writes n s =
     (if \<exists>item \<in> set (st_news s). sn_news item = n then []
      else [SetNews (st_news s @ [\<lparr>sn_news = n, sn_acked_at_block = None\<rparr>])])"

definition unlist_writes :: "txid \<Rightarrow> store \<Rightarrow> store_write list" where
  "unlist_writes x s =
     (if x \<in> set (st_speedup_list s) then [SetSpeedups (retain_ne x (st_speedup_list s))] else [])"

definition unpend_writes :: "txid \<Rightarrow> store \<Rightarrow> store_write list" where
  "unpend_writes x s =
     (if x \<in> set (st_pending_parents s) then [SetPending (retain_ne x (st_pending_parents s))] else [])"

definition remove_writes :: "txid \<Rightarrow> store \<Rightarrow> store_write list" where
  "remove_writes x s = DropTx x # unlist_writes x s"

text \<open>A change of one record: what is written depends on whether it is there and may move.\<close>

definition move_writes ::
    "txid \<Rightarrow> transaction_state \<Rightarrow> (coordinated_tx \<Rightarrow> coordinated_tx) \<Rightarrow> store \<Rightarrow> store_write list" where
  "move_writes x new_state change s =
     (case get_tx_by_id x s of
        None \<Rightarrow> news_writes (TxNotFound x) s
      | Some t \<Rightarrow>
          if \<not> can_transition_to (ct_state t) new_state
          then news_writes (InvalidStateTransition x (ct_state t) new_state) s
          else [PutTx (change t)])"

definition state_writes ::
    "txid \<Rightarrow> transaction_state \<Rightarrow> block_height option \<Rightarrow> store \<Rightarrow> store_write list" where
  "state_writes x new_state height s =
     (if is_terminal new_state \<and> height = None then []
      else move_writes x new_state (\<lambda>t.
        (if is_terminal new_state then t\<lparr>ct_settled_block_height := height\<rparr> else t)\<lparr>ct_state := new_state\<rparr>) s)"

definition requeue_writes :: "txid \<Rightarrow> block_height \<Rightarrow> store \<Rightarrow> store_write list" where
  "requeue_writes x deadline s =
     move_writes x ToDispatch (\<lambda>t. t\<lparr>ct_state := ToDispatch,
       ct_fail_guard_until := Some (unwrap_or (ct_fail_guard_until t) deadline)\<rparr>) s"

definition retry_writes :: "txid \<Rightarrow> store \<Rightarrow> store_write list" where
  "retry_writes x s =
     move_writes x ToDispatch (\<lambda>t. t\<lparr>ct_state := ToDispatch, ct_retry_count := ct_retry_count t + 1\<rparr>) s"

definition insert_speedup_writes :: "coordinated_tx \<Rightarrow> store \<Rightarrow> store_write list" where
  "insert_speedup_writes t s =
     PutTx t # (if ct_txid t \<in> set (st_speedup_list s) then []
                else [SetSpeedups (st_speedup_list s @ [ct_txid t])])"

definition pend_writes :: "txid \<Rightarrow> store \<Rightarrow> store_write list" where
  "pend_writes x s =
     (if x \<in> set (st_pending_parents s) then [] else [SetPending (st_pending_parents s @ [x])])"

definition prepend_writes :: "txid list \<Rightarrow> store \<Rightarrow> store_write list" where
  "prepend_writes xs s =
     (let new = filter (\<lambda>x. x \<notin> set (st_pending_parents s)) xs
      in if new = [] then [] else [SetPending (new @ st_pending_parents s)])"

definition requeue_parents_writes :: "coordinated_tx \<Rightarrow> store \<Rightarrow> store_write list" where
  "requeue_parents_writes cpfp s =
     (case ct_kind cpfp of
        Speedup (CPFP parents _) \<Rightarrow>
          prepend_writes (filter (\<lambda>p. case get_tx_by_id p s of
            Some parent \<Rightarrow> is_needs_speedup parent | None \<Rightarrow> False) parents) s
      | _ \<Rightarrow> [])"

primrec prune_writes :: "txid list \<Rightarrow> store \<Rightarrow> store_write list" where
  "prune_writes [] s = []"
| "prune_writes (x # xs) s =
     (let ws = (case get_tx_by_id x s of
           None \<Rightarrow> unpend_writes x s
         | Some t \<Rightarrow> if ct_state t = Failed then unpend_writes x s else [])
      in ws @ prune_writes xs (apply_writes ws s))"

definition evict_one_writes ::
    "coordinator_storage_settings \<Rightarrow> block_height \<Rightarrow> txid list \<Rightarrow> txid set \<Rightarrow> coordinated_tx \<Rightarrow> store
      \<Rightarrow> store_write list" where
  "evict_one_writes settings current_height psp covered t s =
     (case ct_settled_block_height t of
        None \<Rightarrow> []
      | Some settled_height \<Rightarrow>
          if max_tracking_confirmations settings \<le> saturating_sub current_height settled_height
             \<and> \<not> (is_needs_speedup t \<and> (ct_txid t \<in> set psp \<or> ct_txid t \<in> covered))
          then remove_writes (ct_txid t) s
            @ news_writes (TransactionEvicted (ct_txid t) (ct_context t)) (remove_tx (ct_txid t) s)
          else [])"

primrec loop_writes :: "('a \<Rightarrow> store \<Rightarrow> store_write list) \<Rightarrow> 'a list \<Rightarrow> store \<Rightarrow> store_write list" where
  "loop_writes w [] s = []"
| "loop_writes w (x # xs) s = w x s @ loop_writes w xs (apply_writes (w x s) s)"

definition evict_writes ::
    "coordinator_storage_settings \<Rightarrow> scan \<Rightarrow> block_height \<Rightarrow> store \<Rightarrow> store_write list" where
  "evict_writes settings scan current_height s =
     loop_writes (evict_one_writes settings current_height (st_pending_parents s) (live_covered s))
       (get_settled_txs scan s) s"

definition append_writes :: "utxo \<Rightarrow> store \<Rightarrow> store_write list" where
  "append_writes u s =
     PutFunding (utxo_outpoint u) \<lparr>fd_utxo = u, fd_spent = False, fd_from_speedup = False\<rparr>
     # (if utxo_outpoint u \<in> set (st_funding_list s) then []
        else [SetFundingList (st_funding_list s @ [utxo_outpoint u])])"

definition spent_writes :: "out_point \<Rightarrow> bool \<Rightarrow> store \<Rightarrow> store_write list" where
  "spent_writes op b s =
     (case get_funding_record op s of
        Some r \<Rightarrow> if fd_spent r \<noteq> b then [PutFunding op (r\<lparr>fd_spent := b\<rparr>)] else []
      | None \<Rightarrow>
          (case get_tx_by_id (op_txid op) s of
             Some t \<Rightarrow>
               (case ct_kind t of
                  Speedup k \<Rightarrow>
                    if sc_spent (context_of k) \<noteq> b
                    then [PutTx (t\<lparr>ct_kind := Speedup (map_context (set_context_spent b) k)\<rparr>)] else []
                | _ \<Rightarrow> [])
           | None \<Rightarrow> []))"

definition clear_writes :: "store \<Rightarrow> store_write list" where
  "clear_writes s = map DropFunding (st_funding_list s) @ [SetFundingList []]"

text \<open>The records dropped when a speedup is finalized, in the order in which they go.\<close>

primrec matched_ops :: "nat list \<Rightarrow> out_point list \<Rightarrow> out_point list" where
  "matched_ops [] xs = []"
| "matched_ops (i # is) xs =
     (case vec_remove i xs of Inl e \<Rightarrow> [] | Inr (op, xs') \<Rightarrow> op # matched_ops is xs')"

text \<open>The end of a finalization: the change is queued, and the speedup leaves the list.\<close>

definition queue_change_writes ::
    "funding_data \<Rightarrow> nat option \<Rightarrow> out_point list \<Rightarrow> txid \<Rightarrow> store \<Rightarrow> store_write list" where
  "queue_change_writes r pos xs x s =
     PutFunding (utxo_outpoint (fd_utxo r)) r #
       (case pos of None \<Rightarrow> []
        | Some p \<Rightarrow> SetFundingList (vec_insert (min p (length xs)) (utxo_outpoint (fd_utxo r)) xs)
            # unlist_writes x s)"

definition finalize_queue_writes :: "coordinated_tx \<Rightarrow> utxo \<Rightarrow> speedup_kind \<Rightarrow> store \<Rightarrow> store_write list" where
  "finalize_queue_writes t change k s =
     (let ctx = context_of k;
          (idx, pos) = collect_consumed (map utxo_outpoint (sc_funding_inputs ctx)) (st_funding_list s)
      in if idx = [] then []
         else map DropFunding (matched_ops (rev idx) (st_funding_list s)) @
           (case fst (remove_matched (rev idx) (st_funding_list s) s) of
              Inl e \<Rightarrow> []
            | Inr xs \<Rightarrow>
                queue_change_writes \<lparr>fd_utxo = change, fd_spent = sc_spent ctx, fd_from_speedup = True\<rparr>
                  pos xs (ct_txid t) s))"

definition finalize_writes :: "txid \<Rightarrow> store \<Rightarrow> store_write list" where
  "finalize_writes x s =
     (case get_tx_by_id x s of
        None \<Rightarrow> []
      | Some t \<Rightarrow>
          (case speedup_change_utxo t of
             Inl e \<Rightarrow> []
           | Inr change \<Rightarrow>
               (case speedup_kind_of t of Inl e \<Rightarrow> [] | Inr k \<Rightarrow> finalize_queue_writes t change k s)))"

section \<open>What the writes do\<close>

lemma length_retain_ne: "length (retain_ne x xs) = length xs \<longleftrightarrow> x \<notin> set xs"
  using length_filter_less [of x xs "\<lambda>y. y \<noteq> x"] retain_ne_absent [of x xs]
  by (cases "x \<in> set xs") (auto simp: retain_ne_def)

lemma apply_news_writes: "apply_writes (news_writes n s) s = note_news n s"
  by (simp add: news_writes_def note_news_def add_news_def)

lemma apply_unlist_writes: "apply_writes (unlist_writes x s) s = remove_speedup_from_list x s"
  by (simp add: unlist_writes_def remove_speedup_from_list_def)

lemma apply_unpend_writes: "apply_writes (unpend_writes x s) s = remove_pending_speedup_parent x s"
  by (simp add: unpend_writes_def remove_pending_speedup_parent_def)

lemma unlist_writes_drop: "unlist_writes x (s\<lparr>st_txs := m\<rparr>) = unlist_writes x s"
  by (simp add: unlist_writes_def)

lemma apply_remove_writes: "apply_writes (remove_writes x s) s = remove_tx x s"
  using apply_unlist_writes [of x "s\<lparr>st_txs := (st_txs s)(x := None)\<rparr>"]
  by (simp add: remove_writes_def remove_tx_def unlist_writes_drop)

lemma apply_insert_speedup_writes: "apply_writes (insert_speedup_writes t s) s = insert_speedup t s"
  by (simp add: insert_speedup_writes_def insert_speedup_def insert_tx_def push_new_def)

lemma apply_pend_writes: "apply_writes (pend_writes x s) s = add_pending_speedup_parent x s"
  by (simp add: pend_writes_def add_pending_speedup_parent_def push_new_def)

lemma apply_prepend_writes: "apply_writes (prepend_writes xs s) s = prepend_pending_speedup_parents xs s"
  by (simp add: prepend_writes_def prepend_pending_speedup_parents_def Let_def)

lemma apply_requeue_parents_writes:
  "apply_writes (requeue_parents_writes t s) s = requeue_protocol_parents t s"
  by (simp add: requeue_parents_writes_def requeue_protocol_parents_def apply_prepend_writes
      split: tx_kind.split speedup_kind.split)

lemma apply_evict_one_writes:
  "apply_writes (evict_one_writes settings h psp covered t s) s = evict_one settings h psp covered t s"
  by (simp add: evict_one_writes_def evict_one_def apply_remove_writes apply_news_writes split: option.split)

lemma apply_loop_writes:
  assumes "\<And>x s. apply_writes (w x s) s = f x s"
  shows "apply_writes (loop_writes w xs s) s = fold f xs s"
  by (induction xs arbitrary: s) (simp_all add: assms)

lemma apply_evict_writes:
  "apply_writes (evict_writes settings scan h s) s = evict_stale_txs settings scan h s"
  by (simp add: evict_writes_def evict_stale_txs_def apply_loop_writes [OF apply_evict_one_writes])

lemma apply_append_writes: "apply_writes (append_writes u s) s = append_funding u s"
  by (simp add: append_writes_def append_funding_def put_funding_record_def set_funding_list_def Let_def)

lemma apply_spent_writes: "apply_writes (spent_writes op b s) s = set_spent op b s"
  by (simp add: spent_writes_def set_spent_def update_tx_def insert_tx_def split: option.split tx_kind.split)

lemma apply_drops: "apply_writes (map DropFunding ops) s = fold drop_funding_record ops s"
  by (induction ops arbitrary: s) simp_all

lemma apply_clear_writes: "apply_writes (clear_writes s) s = clear_funding_records s"
  by (simp add: clear_writes_def clear_funding_records_def apply_drops)

section \<open>The methods\<close>

context key_value_storage
begin

lemma performs_update_tx: "performs s (kv_insert_tx cs t) (Inr ()) [PutTx t]"
  using performs_put_tx unfolding kv_insert_tx_def kv_update_tx_def .

lemma performs_insert_txs: "performs s (kv_insert_txs cs ts) (Inr ()) (map PutTx ts)"
  unfolding kv_insert_txs_def
  by (induction ts arbitrary: s) (auto intro: performs_ret performs_then performs_update_tx)

lemma performs_unlist: "performs s (kv_remove_speedup_from_list cs x) (Inr ()) (unlist_writes x s)"
  unfolding kv_remove_speedup_from_list_def
  by (rule performs_read [OF performs_lists(2)])
    (auto simp: Let_def length_retain_ne unlist_writes_def intro: performs_set_speedups performs_ret)

lemma performs_remove_tx: "performs s (kv_remove_tx cs x) (Inr ()) (remove_writes x s)"
  unfolding kv_remove_tx_def remove_writes_def
  by (rule performs_then [OF performs_drop_tx])
    (metis apply_write.simps(2) performs_unlist unlist_writes_drop)

lemma performs_add_news:
  "performs s (kv_add_news cs n) (Inr (fst (add_news n s))) (news_writes n s)"
  unfolding kv_add_news_def
  by (rule performs_read [OF performs_lists(1)])
    (auto simp: add_news_def news_writes_def intro: performs_ret performs_seq_ret [OF performs_set_news])

lemma performs_note_news: "performs s (pseq (kv_add_news cs n) (pret ())) (Inr ()) (news_writes n s)"
  by (rule performs_seq_ret [OF performs_add_news])

lemma performs_get_news: "performs s (kv_get_news cs) (Inr (get_news s)) []"
  unfolding kv_get_news_def get_news_def by (rule performs_bind_ret [OF performs_lists(1)])

lemma performs_ack_news:
  "performs s (kv_ack_news cs n h) (Inr ()) [SetNews (ack_first n h (st_news s))]"
  unfolding kv_ack_news_def by (rule performs_read [OF performs_lists(1) performs_set_news])

lemma performs_cleanup_news:
  "performs s (kv_cleanup_news cs h) (Inr ()) [SetNews (filter (\<lambda>item. case sn_acked_at_block item of
      None \<Rightarrow> True | Some a \<Rightarrow> h \<le> a) (st_news s))]"
  unfolding kv_cleanup_news_def by (rule performs_read [OF performs_lists(1) performs_set_news])

lemma performs_move:
  "performs s
     (pbind (kv_get_tx_by_id cs x) (\<lambda>found. case found of
        None \<Rightarrow> pseq (kv_add_news cs (TxNotFound x)) (pret ())
      | Some t \<Rightarrow>
          if \<not> can_transition_to (ct_state t) new_state
          then pseq (kv_add_news cs (InvalidStateTransition x (ct_state t) new_state)) (pret ())
          else kv_update_tx cs (change t)))
     (Inr ()) (move_writes x new_state change s)"
  by (rule performs_read [OF performs_get_tx])
    (auto simp: move_writes_def intro: performs_note_news performs_put_tx split: option.split)

lemma performs_state_impl:
  "performs s (kv_update_tx_state_impl cs x st h) (fst (update_tx_state_impl x st h s)) (state_writes x st h s)"
proof (cases "is_terminal st \<and> h = None")
  case True
  then show ?thesis
    by (auto simp: kv_update_tx_state_impl_def update_tx_state_impl_def state_writes_def intro: performs_throw)
next
  case False
  then have "fst (update_tx_state_impl x st h s) = Inr ()"
    by (simp add: update_tx_state_impl_def Let_def split: option.split)
  with False show ?thesis
    unfolding kv_update_tx_state_impl_def state_writes_def Let_def
    using performs_move [of s x st] by auto
qed

lemma performs_settle:
  "performs s (kv_settle_tx cs x st h) (fst (settle_tx x st h s))
     (if is_terminal st then state_writes x st (Some h) s else [])"
  using performs_state_impl [of s x st "Some h"]
  by (auto simp: kv_settle_tx_def settle_tx_def intro: performs_throw)

lemma performs_requeue: "performs s (kv_requeue_not_found cs x d) (Inr ()) (requeue_writes x d s)"
  unfolding kv_requeue_not_found_def requeue_writes_def by (rule performs_move)

lemma performs_retry: "performs s (kv_mark_as_retry cs x) (Inr ()) (retry_writes x s)"
  unfolding kv_mark_as_retry_def retry_writes_def by (rule performs_move)

lemma performs_insert_speedup: "performs s (kv_insert_speedup cs t) (Inr ()) (insert_speedup_writes t s)"
  unfolding kv_insert_speedup_def insert_speedup_writes_def
  by (rule performs_then [OF performs_update_tx], rule performs_read [OF performs_lists(2)])
    (auto simp: insert_tx_def intro: performs_set_speedups performs_ret)

lemma performs_read_txs:
  "performs s (kv_read_txs cs xs) (Inr (List.map_filter (st_txs s) xs)) []"
proof (induction xs)
  case (Cons x xs)
  have "List.map_filter (st_txs s) (x # xs) = (case get_tx_by_id x s of
      Some t \<Rightarrow> t # List.map_filter (st_txs s) xs | None \<Rightarrow> List.map_filter (st_txs s) xs)"
    by (simp add: List.map_filter_simps get_tx_by_id_def split: option.split)
  then show ?case
    using performs_read [OF performs_get_tx, OF performs_bind_ret [OF Cons.IH]] by simp
qed (simp add: List.map_filter_simps performs_ret)

lemma performs_get_speedups: "performs s (kv_get_speedups_ordered cs) (Inr (get_speedups_ordered s)) []"
  unfolding kv_get_speedups_ordered_def get_speedups_ordered_def
  by (rule performs_read [OF performs_lists(2) performs_read_txs])

lemma performs_pend: "performs s (kv_add_pending_speedup_parent cs x) (Inr ()) (pend_writes x s)"
  unfolding kv_add_pending_speedup_parent_def
  by (rule performs_read [OF performs_lists(3)])
    (auto simp: pend_writes_def intro: performs_set_pending performs_ret)

lemma performs_prepend: "performs s (kv_prepend_pending_speedup_parents cs xs) (Inr ()) (prepend_writes xs s)"
proof (cases "xs = []")
  case True
  then show ?thesis
    by (simp add: kv_prepend_pending_speedup_parents_def prepend_writes_def performs_ret)
next
  case False
  then have "kv_prepend_pending_speedup_parents cs xs =
      pbind (kv_get_list cs (read_ids (cs_formats cs)) KPendingSpeedupParents) (\<lambda>ys.
        let new = filter (\<lambda>x. x \<notin> set ys) xs
        in if new = [] then pret () else kv_set cs KPendingSpeedupParents (put_ids (cs_formats cs) (new @ ys)))"
    by (simp add: kv_prepend_pending_speedup_parents_def)
  then show ?thesis
    by (auto simp: prepend_writes_def Let_def intro!: performs_read [OF performs_lists(3)]
        performs_set_pending performs_ret)
qed

lemma performs_unpend: "performs s (kv_remove_pending_speedup_parent cs x) (Inr ()) (unpend_writes x s)"
  unfolding kv_remove_pending_speedup_parent_def
  by (rule performs_read [OF performs_lists(3)])
    (auto simp: Let_def length_retain_ne unpend_writes_def intro: performs_set_pending performs_ret)

text \<open>Loops.\<close>

lemma performs_loop:
  assumes "\<And>x s. performs s (f x) (Inr ()) (w x s)"
  shows "performs s (pfor xs f) (Inr ()) (loop_writes w xs s)"
  by (induction xs arbitrary: s) (auto intro: performs_ret performs_seq assms)

lemma performs_live_parents:
  "performs s (kv_live_parents cs xs live) (Inr (fst (fold pending_step xs (live, s)))) (prune_writes xs s)
   \<and> apply_writes (prune_writes xs s) s = snd (fold pending_step xs (live, s))"
proof (induction xs arbitrary: live s)
  case (Cons x xs)
  let ?drop = "unpend_writes x s"
  have drop: "performs s (pseq (kv_remove_pending_speedup_parent cs x) (kv_live_parents cs xs live))
      (Inr (fst (fold pending_step xs (live, remove_pending_speedup_parent x s))))
      (?drop @ prune_writes xs (apply_writes ?drop s))"
    using performs_seq [OF performs_unpend] Cons.IH by (metis apply_unpend_writes)
  have step: "pending_step x (live, s) = (case get_tx_by_id x s of
       Some t \<Rightarrow>
         if ct_state t \<in> {InMempool, Confirmed, Finalized} then (live @ [t], s)
         else if ct_state t = Failed then (live, remove_pending_speedup_parent x s) else (live, s)
     | None \<Rightarrow> (live, remove_pending_speedup_parent x s))"
    by (simp add: pending_step_def)
  show ?case
    using Cons.IH drop unfolding kv_live_parents.simps prune_writes.simps fold_simps step Let_def
    by (intro conjI performs_get_tx_then) (auto simp: apply_unpend_writes split: option.split)
qed (simp add: performs_ret)

lemma performs_get_pending:
  "performs s (kv_get_pending_speedup_parents cs) (Inr (fst (get_pending_speedup_parents s)))
     (prune_writes (st_pending_parents s) s)"
  unfolding kv_get_pending_speedup_parents_def get_pending_speedup_parents_def
  using performs_live_parents by (blast intro: performs_read [OF performs_lists(3)])

lemma performs_protocol_parents:
  "performs s (kv_protocol_parents cs ps)
     (Inr (filter (\<lambda>p. case get_tx_by_id p s of Some parent \<Rightarrow> is_needs_speedup parent | None \<Rightarrow> False) ps)) []"
proof (induction ps)
  case (Cons p ps)
  show ?case
    using performs_bind_ret [OF Cons.IH, of "\<lambda>qs. case get_tx_by_id p s of
        Some parent \<Rightarrow> if is_needs_speedup parent then p # qs else qs | None \<Rightarrow> qs"]
    by (auto intro!: performs_get_tx_then split: option.splits)
qed (simp add: performs_ret)

lemma performs_requeue_parents:
  "performs s (kv_requeue_protocol_parents cs t) (Inr ()) (requeue_parents_writes t s)"
  unfolding kv_requeue_protocol_parents_def requeue_parents_writes_def
  by (auto intro: performs_ret performs_read [OF performs_protocol_parents performs_prepend]
      split: tx_kind.split speedup_kind.split)

lemma covered_by_live: "covered_by (get_speedups_ordered s) = live_covered s"
  by (simp add: covered_by_def live_covered_def)

lemma performs_evict_one:
  "performs s (kv_evict_one cs h psp covered t) (Inr ()) (evict_one_writes (cs_settings cs) h psp covered t s)"
proof -
  have "performs s (pseq (kv_remove_tx cs x) (pseq (kv_add_news cs n) (pret ()))) (Inr ())
      (remove_writes x s @ news_writes n (remove_tx x s))" for x n
    using performs_seq [OF performs_remove_tx performs_note_news] by (simp add: apply_remove_writes)
  then show ?thesis
    by (auto simp: kv_evict_one_def evict_one_writes_def intro: performs_ret split: option.split)
qed

text \<open>The funding queue.\<close>

lemma performs_funding_list: "performs s (kv_funding_list cs) (Inr (st_funding_list s)) []"
  unfolding kv_funding_list_def by (rule performs_lists(4))

lemma performs_speedup_derived: "performs s (kv_is_speedup_derived cs op) (Inr (is_speedup_derived op s)) []"
  unfolding kv_is_speedup_derived_def is_speedup_derived_def
  using performs_bind_ret [OF performs_get_tx, of s "op_txid op" "\<lambda>tx. case tx of Some t \<Rightarrow> is_speedup t | None \<Rightarrow> False"]
  by (intro performs_read [OF performs_get_record]) (auto intro: performs_ret split: option.splits)

lemma performs_read_list: "performs s (kv_read_records cs ops) (Inr (List.map_filter (st_funding s) ops)) []"
proof (induction ops)
  case (Cons op ops)
  have "List.map_filter (st_funding s) (op # ops) = (case get_funding_record op s of
      Some r \<Rightarrow> r # List.map_filter (st_funding s) ops | None \<Rightarrow> List.map_filter (st_funding s) ops)"
    by (simp add: List.map_filter_simps get_funding_record_def split: option.split)
  then show ?case
    using performs_read [OF performs_get_record, OF performs_bind_ret [OF Cons.IH]] by simp
qed (simp add: List.map_filter_simps performs_ret)

lemma performs_read_records: "performs s (kv_read_funding_records cs) (Inr (read_funding_records s)) []"
  unfolding kv_read_funding_records_def read_funding_records_def
  by (rule performs_read [OF performs_funding_list performs_read_list])

lemma performs_append: "performs s (kv_append_funding cs u) (Inr ()) (append_writes u s)"
  unfolding kv_append_funding_def append_writes_def Let_def
  by (rule performs_then [OF performs_put_record], rule performs_read [OF performs_funding_list])
    (auto simp: put_funding_record_def intro: performs_set_funding_list performs_ret)

lemma performs_set_spent: "performs s (kv_set_spent cs op b) (Inr ()) (spent_writes op b s)"
  unfolding kv_set_spent_def spent_writes_def
  by (rule performs_read [OF performs_get_record])
    (auto intro!: performs_get_tx_then intro: performs_ret performs_put_record performs_put_tx
      split: option.split tx_kind.split)

lemma performs_clear: "performs s (kv_clear_funding_records cs) (Inr ()) (clear_writes s)"
proof -
  have "performs s (pfor ops (\<lambda>op. kv_remove cs (KFunding op))) (Inr ()) (map DropFunding ops)" for ops s
    by (induction ops arbitrary: s) (auto intro: performs_ret performs_then performs_drop_record)
  then show ?thesis
    unfolding kv_clear_funding_records_def clear_writes_def
    by (intro performs_read [OF performs_funding_list] performs_seq performs_clear_funding_list)
qed

end

section \<open>Finalization\<close>

lemma unlist_writes_cong: "st_speedup_list s = st_speedup_list s' \<Longrightarrow> unlist_writes x s = unlist_writes x s'"
  by (simp add: unlist_writes_def)

lemma speedup_list_drops [simp]: "st_speedup_list (fold drop_funding_record ops s) = st_speedup_list s"
  by (induction ops arbitrary: s) (simp_all add: drop_funding_record_def)

lemma remove_matched_state:
  "remove_matched is xs s =
     (fst (remove_matched is xs t), fold drop_funding_record (matched_ops is xs) s)"
  by (induction "is" arbitrary: xs s t)
    (auto simp: pret_run pbind_run plift_run pseq_run pmodify_run split: sum.split prod.split)

text \<open>The end of a finalization in the model of the store.\<close>

definition queue_change :: "funding_data \<Rightarrow> nat option \<Rightarrow> out_point list \<Rightarrow> txid \<Rightarrow> unit store_prog" where
  "queue_change r pos xs x =
     pseq (pmodify (put_funding_record (utxo_outpoint (fd_utxo r)) r))
       (case pos of
          None \<Rightarrow> pthrow (Panic ''unwrap on None'')
        | Some p \<Rightarrow>
            pseq (pmodify (set_funding_list (vec_insert (min p (length xs)) (utxo_outpoint (fd_utxo r)) xs)))
              (pmodify (remove_speedup_from_list x)))"

lemma queue_change_state: "snd (queue_change r pos xs x s) = apply_writes (queue_change_writes r pos xs x s) s"
proof -
  have "unlist_writes x (set_funding_list ys (put_funding_record op r s)) = unlist_writes x s" for ys op
    by (simp add: unlist_writes_def set_funding_list_def put_funding_record_def)
  then show ?thesis
    using apply_unlist_writes [of x]
    by (auto simp: queue_change_def queue_change_writes_def pseq_run pmodify_run pthrow_run split: option.split)
      metis
qed

lemma fst_pret: "fst (pret x s) = Inr x"
  by (simp add: pret_run)

lemma fst_remove_matched:
  "vec_remove i xs = Inl e \<Longrightarrow> fst (remove_matched (i # ix) xs t) = Inl e"
  "vec_remove i xs = Inr (op, ys) \<Longrightarrow>
   fst (remove_matched (i # ix) xs t) = fst (remove_matched ix ys (drop_funding_record op t))"
  by (simp_all add: pbind_run plift_run pseq_run pmodify_run)

text \<open>The part of a finalization that writes.\<close>

definition finalize_queue :: "coordinated_tx \<Rightarrow> utxo \<Rightarrow> speedup_kind \<Rightarrow> unit store_prog" where
  "finalize_queue t change k s =
     (let ctx = context_of k;
          (idx, pos) = collect_consumed (map utxo_outpoint (sc_funding_inputs ctx)) (st_funding_list s)
      in (if idx = [] then pret ()
          else pbind (remove_matched (rev idx) (st_funding_list s)) (\<lambda>xs.
            queue_change \<lparr>fd_utxo = change, fd_spent = sc_spent ctx, fd_from_speedup = True\<rparr> pos xs (ct_txid t))) s)"

lemma replace_funding_on_finalize_parts:
  "replace_funding_on_finalize x s =
     (case get_tx_by_id x s of
        None \<Rightarrow> (Inr (), s)
      | Some t \<Rightarrow>
          (case speedup_change_utxo t of
             Inl (Err _) \<Rightarrow> (Inr (), s)
           | Inl other \<Rightarrow> (Inl other, s)
           | Inr change \<Rightarrow>
               (case speedup_kind_of t of Inl e \<Rightarrow> (Inl e, s) | Inr k \<Rightarrow> finalize_queue t change k s)))"
  by (simp add: replace_funding_on_finalize_def finalize_queue_def queue_change_def Let_def pbind_run plift_run
      split: option.split sum.split failure.split prod.split)

context key_value_storage
begin

lemma performs_remove_matched:
  "performs s (kv_remove_matched cs ix xs) (fst (remove_matched ix xs t)) (map DropFunding (matched_ops ix xs))"
proof (induction ix arbitrary: s xs t)
  case Nil
  show ?case by (simp add: fst_pret performs_ret)
next
  case (Cons i ix)
  show ?case
  proof (cases "vec_remove i xs")
    case (Inl e)
    then show ?thesis
      using performs_bind_stop [OF performs_lift, of s e] by (simp add: fst_remove_matched del: remove_matched.simps)
  next
    case (Inr rest)
    obtain op ys where rest: "rest = (op, ys)" by fastforce
    have "performs s (pseq (kv_remove cs (KFunding op)) (kv_remove_matched cs ix ys))
        (fst (remove_matched ix ys (drop_funding_record op t))) (DropFunding op # map DropFunding (matched_ops ix ys))"
      by (rule performs_then [OF performs_drop_record Cons.IH])
    then have "performs s (pbind (plift (vec_remove i xs)) (\<lambda>(removed, xs').
        pseq (kv_remove cs (KFunding removed)) (kv_remove_matched cs ix xs')))
        (fst (remove_matched ix ys (drop_funding_record op t))) (DropFunding op # map DropFunding (matched_ops ix ys))"
      unfolding Inr rest by (intro performs_read [OF performs_lift]) simp
    then show ?thesis using Inr rest by (simp add: fst_remove_matched del: remove_matched.simps)
  qed
qed

lemma performs_queue_change:
  "performs s (pseq (kv_put_funding_record cs (utxo_outpoint (fd_utxo r)) r)
      (case pos of
         None \<Rightarrow> pthrow (Panic ''unwrap on None'')
       | Some p \<Rightarrow>
           pseq (kv_set_funding_list cs (vec_insert (min p (length xs)) (utxo_outpoint (fd_utxo r)) xs))
             (kv_remove_speedup_from_list cs x)))
     (fst (queue_change r pos xs x s)) (queue_change_writes r pos xs x s)"
proof -
  have "unlist_writes x (set_funding_list ys (put_funding_record op r s)) = unlist_writes x s" for ys op
    by (simp add: unlist_writes_def set_funding_list_def put_funding_record_def)
  then have "performs (set_funding_list ys (put_funding_record op r s)) (kv_remove_speedup_from_list cs x) (Inr ())
      (unlist_writes x s)" for ys op
    using performs_unlist by metis
  then show ?thesis
    by (auto simp: queue_change_def queue_change_writes_def pseq_run pmodify_run pthrow_run
        intro!: performs_then [OF performs_put_record] performs_then [OF performs_set_funding_list] performs_throw
        split: option.split)
qed

lemma performs_finalize_queue:
  assumes "speedup_kind_of t = Inr k"
  shows "performs s (pbind (plift (speedup_kind_of t)) (\<lambda>k.
      let ctx = context_of k;
          consumed = map utxo_outpoint (sc_funding_inputs ctx)
      in pbind (kv_funding_list cs) (\<lambda>queue.
      let (to_remove_idx, insert_pos) = collect_consumed consumed queue
      in if to_remove_idx = [] then pret ()
         else pbind (kv_remove_matched cs (rev to_remove_idx) queue) (\<lambda>xs.
           let change_op = utxo_outpoint change;
               r = \<lparr>fd_utxo = change, fd_spent = sc_spent ctx, fd_from_speedup = True\<rparr>
           in pseq (kv_put_funding_record cs change_op r)
              (case insert_pos of
                 None \<Rightarrow> pthrow (Panic ''unwrap on None'')
               | Some p \<Rightarrow>
                   pseq (kv_set_funding_list cs (vec_insert (min p (length xs)) change_op xs))
                     (kv_remove_speedup_from_list cs (ct_txid t)))))))
     (fst (finalize_queue t change k s)) (finalize_queue_writes t change k s)"
proof -
  let ?ctx = "context_of k" and ?queue = "st_funding_list s"
  let ?r = "\<lparr>fd_utxo = change, fd_spent = sc_spent ?ctx, fd_from_speedup = True\<rparr>"
  obtain idx pos where coll: "collect_consumed (map utxo_outpoint (sc_funding_inputs ?ctx)) ?queue = (idx, pos)"
    by fastforce
  let ?ws = "map DropFunding (matched_ops (rev idx) ?queue)"
  let ?rest = "\<lambda>xs. pseq (kv_put_funding_record cs (utxo_outpoint change) ?r)
      (case pos of
         None \<Rightarrow> pthrow (Panic ''unwrap on None'')
       | Some p \<Rightarrow> pseq (kv_set_funding_list cs (vec_insert (min p (length xs)) (utxo_outpoint change) xs))
           (kv_remove_speedup_from_list cs (ct_txid t)))"
  have same: "queue_change_writes ?r pos xs (ct_txid t) (apply_writes ?ws s)
      = queue_change_writes ?r pos xs (ct_txid t) s" for xs
    by (simp add: queue_change_writes_def apply_drops unlist_writes_def split: option.split)
  have rest: "performs (apply_writes ?ws s) (?rest xs)
      (fst (queue_change ?r pos xs (ct_txid t) (apply_writes ?ws s)))
      (queue_change_writes ?r pos xs (ct_txid t) s)" for xs
    using performs_queue_change [where s = "apply_writes ?ws s" and r = ?r and pos = pos and xs = xs and x = "ct_txid t",
        unfolded funding_data.select_convs] by (simp add: same)
  have state: "snd (remove_matched (rev idx) ?queue s) = apply_writes ?ws s"
    using remove_matched_state [of "rev idx" ?queue s s] by (metis apply_drops snd_conv)
  have "performs s (if idx = [] then pret () else pbind (kv_remove_matched cs (rev idx) ?queue) ?rest)
      (fst (finalize_queue t change k s)) (finalize_queue_writes t change k s)"
  proof (cases "idx = []")
    case True
    then show ?thesis
      by (simp add: finalize_queue_def finalize_queue_writes_def coll performs_ret pret_run)
  next
    case False
    show ?thesis
    proof (cases "fst (remove_matched (rev idx) ?queue s)")
      case (Inl e)
      then have "fst (finalize_queue t change k s) = Inl e" "finalize_queue_writes t change k s = ?ws"
        using False by (cases "remove_matched (rev idx) ?queue s";
          simp add: finalize_queue_def finalize_queue_writes_def coll pbind_run)+
      then show ?thesis
        using performs_bind_stop [where f = ?rest, OF performs_remove_matched
            [where s = s and t = s and ix = "rev idx" and xs = ?queue, unfolded Inl]] False by simp
    next
      case (Inr xs)
      then have "fst (finalize_queue t change k s) = fst (queue_change ?r pos xs (ct_txid t) (apply_writes ?ws s))"
        and "finalize_queue_writes t change k s = ?ws @ queue_change_writes ?r pos xs (ct_txid t) s"
        using False state by (cases "remove_matched (rev idx) ?queue s";
          simp add: finalize_queue_def finalize_queue_writes_def coll pbind_run)+
      then show ?thesis
        using performs_bind [where f = ?rest, OF performs_remove_matched
            [where s = s and t = s and ix = "rev idx" and xs = ?queue, unfolded Inr] rest] False by simp
    qed
  qed
  then show ?thesis
    unfolding assms
    by (auto simp: Let_def coll intro!: performs_read [OF performs_lift] performs_read [OF performs_funding_list])
qed

lemma performs_finalize:
  "performs s (kv_replace_funding_on_finalize cs x) (fst (replace_funding_on_finalize x s)) (finalize_writes x s)"
  unfolding kv_replace_funding_on_finalize_def
proof (rule performs_get_tx_then, cases "get_tx_by_id x s")
  case None
  then show "performs s (case get_tx_by_id x s of None \<Rightarrow> pret () | Some t \<Rightarrow> m t)
      (fst (replace_funding_on_finalize x s)) (finalize_writes x s)" for m
    by (simp add: replace_funding_on_finalize_parts finalize_writes_def performs_ret)
next
  case (Some t)
  let ?goal = "\<lambda>m. performs s (case get_tx_by_id x s of None \<Rightarrow> pret () | Some t \<Rightarrow> m t)
      (fst (replace_funding_on_finalize x s)) (finalize_writes x s)"
  note simps = Some replace_funding_on_finalize_parts finalize_writes_def
  show "?goal (\<lambda>t. case speedup_change_utxo t of
            Inl (Err _) \<Rightarrow> pret ()
          | Inl other \<Rightarrow> pthrow other
          | Inr change \<Rightarrow>
              pbind (plift (speedup_kind_of t)) (\<lambda>k.
              let ctx = context_of k;
                  consumed = map utxo_outpoint (sc_funding_inputs ctx)
              in pbind (kv_funding_list cs) (\<lambda>queue.
              let (to_remove_idx, insert_pos) = collect_consumed consumed queue
              in if to_remove_idx = [] then pret ()
                 else pbind (kv_remove_matched cs (rev to_remove_idx) queue) (\<lambda>xs.
                   let change_op = utxo_outpoint change;
                       r = \<lparr>fd_utxo = change, fd_spent = sc_spent ctx, fd_from_speedup = True\<rparr>
                   in pseq (kv_put_funding_record cs change_op r)
                      (case insert_pos of
                         None \<Rightarrow> pthrow (Panic ''unwrap on None'')
                       | Some p \<Rightarrow>
                           pseq (kv_set_funding_list cs (vec_insert (min p (length xs)) change_op xs))
                             (kv_remove_speedup_from_list cs (ct_txid t)))))))"
  proof (cases "speedup_change_utxo t")
    case (Inl e)
    then show ?thesis by (cases e) (simp_all add: simps performs_ret performs_throw)
  next
    case (Inr change)
    note change = this
    show ?thesis
    proof (cases "speedup_kind_of t")
      case (Inl e)
      then show ?thesis
        using performs_bind_stop [OF performs_lift, of s e] by (simp add: simps change)
    next
      case (Inr k)
      then show ?thesis using performs_finalize_queue [OF Inr, of s change] by (simp add: simps change)
    qed
  qed
qed

end

lemma apply_finalize_queue_writes:
  "apply_writes (finalize_queue_writes t change k s) s = snd (finalize_queue t change k s)"
proof -
  obtain idx pos where coll:
      "collect_consumed (map utxo_outpoint (sc_funding_inputs (context_of k))) (st_funding_list s) = (idx, pos)"
    by fastforce
  let ?drops = "map DropFunding (matched_ops (rev idx) (st_funding_list s))"
  have st: "remove_matched (rev idx) (st_funding_list s) s
      = (fst (remove_matched (rev idx) (st_funding_list s) s), apply_writes ?drops s)"
    using remove_matched_state [of "rev idx" "st_funding_list s" s s] by (metis apply_drops)
  have same: "queue_change_writes r pos xs x (apply_writes ?drops s) = queue_change_writes r pos xs x s" for r xs x
    by (simp add: queue_change_writes_def apply_drops unlist_writes_def split: option.split)
  show ?thesis
  proof (cases "fst (remove_matched (rev idx) (st_funding_list s) s)")
    case (Inl e)
    then show ?thesis using st
      by (cases "remove_matched (rev idx) (st_funding_list s) s")
        (simp add: finalize_queue_writes_def finalize_queue_def coll pret_run pbind_run)
  next
    case (Inr xs)
    then show ?thesis using st same
      by (cases "remove_matched (rev idx) (st_funding_list s) s")
        (simp add: finalize_queue_writes_def finalize_queue_def coll pret_run pbind_run queue_change_state)
  qed
qed

lemma apply_finalize_writes: "apply_writes (finalize_writes x s) s = snd (replace_funding_on_finalize x s)"
  by (simp add: finalize_writes_def replace_funding_on_finalize_parts apply_finalize_queue_writes
      split: option.split sum.split failure.split)

end
