(* ===== verification/Backend_Calls.thy ===== *)
theory Backend_Calls
  imports Backend_Refinement
begin

text \<open>
  The interface of the storage as a whole: a call of any method, its answer, what it writes, and the
  histories of calls. The refinement of the store by the backend is stated here.
\<close>

section \<open>Calls and answers\<close>

datatype storage_call =
    InsertTx coordinated_tx
  | InsertTxs "coordinated_tx list"
  | UpdateTx coordinated_tx
  | RemoveTx txid
  | GetTxById txid
  | GetAllTxs
  | GetByState transaction_state
  | GetActiveTxs
  | Exists txid
  | UpdateTxState txid transaction_state
  | RequeueNotFound txid block_height
  | SettleTx txid transaction_state block_height
  | MarkAsRetry txid
  | GetSettledTxs
  | EvictStaleTxs block_height
  | InsertSpeedup coordinated_tx
  | GetSpeedupsOrdered
  | AddPendingSpeedupParent txid
  | PrependPendingSpeedupParents "txid list"
  | RemovePendingSpeedupParent txid
  | GetPendingSpeedupParents
  | RequeueProtocolParents coordinated_tx
  | GetFundingRecord out_point
  | IsSpeedupDerived out_point
  | AddNews coordinator_news
  | GetNews
  | AckNews coordinator_news block_height
  | CleanupNews block_height
  | ReadFundingRecords
  | AppendFunding utxo
  | MarkSpent out_point bool
  | ClearFundingRecords
  | ReplaceFundingOnFinalize txid
  | IsTxKnown txid
  | IsTxFailed txid

datatype answer =
    NoAnswer
  | ABool bool
  | ATx "coordinated_tx option"
  | ATxs "coordinated_tx list"
  | ARecord "funding_data option"
  | ARecords "funding_data list"
  | ANews "coordinator_news list"

text \<open>The call over a backend.\<close>

definition giving :: "('a \<Rightarrow> answer) \<Rightarrow> ('s, failure, 'a) prog \<Rightarrow> ('s, failure, answer) prog" where
  "giving A m = pbind m (\<lambda>x. pret (A x))"

primrec kv_call :: "('b, 'k, 'v) coordinator_storage \<Rightarrow> storage_call \<Rightarrow> ('b, failure, answer) prog" where
  "kv_call cs (InsertTx t) = giving (\<lambda>_. NoAnswer) (kv_insert_tx cs t)"
| "kv_call cs (InsertTxs ts) = giving (\<lambda>_. NoAnswer) (kv_insert_txs cs ts)"
| "kv_call cs (UpdateTx t) = giving (\<lambda>_. NoAnswer) (kv_update_tx cs t)"
| "kv_call cs (RemoveTx x) = giving (\<lambda>_. NoAnswer) (kv_remove_tx cs x)"
| "kv_call cs (GetTxById x) = giving ATx (kv_get_tx_by_id cs x)"
| "kv_call cs GetAllTxs = giving ATxs (kv_get_all_txs cs)"
| "kv_call cs (GetByState st) = giving ATxs (kv_get_by_state cs st)"
| "kv_call cs GetActiveTxs = giving ATxs (kv_get_active_txs cs)"
| "kv_call cs (Exists x) = giving ABool (kv_exists cs x)"
| "kv_call cs (UpdateTxState x st) = giving (\<lambda>_. NoAnswer) (kv_update_tx_state cs x st)"
| "kv_call cs (RequeueNotFound x h) = giving (\<lambda>_. NoAnswer) (kv_requeue_not_found cs x h)"
| "kv_call cs (SettleTx x st h) = giving (\<lambda>_. NoAnswer) (kv_settle_tx cs x st h)"
| "kv_call cs (MarkAsRetry x) = giving (\<lambda>_. NoAnswer) (kv_mark_as_retry cs x)"
| "kv_call cs GetSettledTxs = giving ATxs (kv_get_settled_txs cs)"
| "kv_call cs (EvictStaleTxs h) = giving (\<lambda>_. NoAnswer) (kv_evict_stale_txs cs h)"
| "kv_call cs (InsertSpeedup t) = giving (\<lambda>_. NoAnswer) (kv_insert_speedup cs t)"
| "kv_call cs GetSpeedupsOrdered = giving ATxs (kv_get_speedups_ordered cs)"
| "kv_call cs (AddPendingSpeedupParent x) = giving (\<lambda>_. NoAnswer) (kv_add_pending_speedup_parent cs x)"
| "kv_call cs (PrependPendingSpeedupParents xs) =
     giving (\<lambda>_. NoAnswer) (kv_prepend_pending_speedup_parents cs xs)"
| "kv_call cs (RemovePendingSpeedupParent x) = giving (\<lambda>_. NoAnswer) (kv_remove_pending_speedup_parent cs x)"
| "kv_call cs GetPendingSpeedupParents = giving ATxs (kv_get_pending_speedup_parents cs)"
| "kv_call cs (RequeueProtocolParents t) = giving (\<lambda>_. NoAnswer) (kv_requeue_protocol_parents cs t)"
| "kv_call cs (GetFundingRecord op) = giving ARecord (kv_get_funding_record cs op)"
| "kv_call cs (IsSpeedupDerived op) = giving ABool (kv_is_speedup_derived cs op)"
| "kv_call cs (AddNews n) = giving ABool (kv_add_news cs n)"
| "kv_call cs GetNews = giving ANews (kv_get_news cs)"
| "kv_call cs (AckNews n h) = giving (\<lambda>_. NoAnswer) (kv_ack_news cs n h)"
| "kv_call cs (CleanupNews h) = giving (\<lambda>_. NoAnswer) (kv_cleanup_news cs h)"
| "kv_call cs ReadFundingRecords = giving ARecords (kv_read_funding_records cs)"
| "kv_call cs (AppendFunding u) = giving (\<lambda>_. NoAnswer) (kv_append_funding cs u)"
| "kv_call cs (MarkSpent op b) = giving (\<lambda>_. NoAnswer) (kv_set_spent cs op b)"
| "kv_call cs ClearFundingRecords = giving (\<lambda>_. NoAnswer) (kv_clear_funding_records cs)"
| "kv_call cs (ReplaceFundingOnFinalize x) = giving (\<lambda>_. NoAnswer) (kv_replace_funding_on_finalize cs x)"
| "kv_call cs (IsTxKnown x) = giving ABool (kv_is_tx_known cs x)"
| "kv_call cs (IsTxFailed x) = giving ABool (kv_is_tx_failed cs x)"

text \<open>The call on the store, as the engines see it.\<close>

abbreviation answers :: "answer \<Rightarrow> store \<Rightarrow> (failure + answer) \<times> store" where
  "answers a s \<equiv> (Inr a, s)"

fun store_call ::
    "coordinator_storage_settings \<Rightarrow> scan \<Rightarrow> storage_call \<Rightarrow> (store, failure, answer) prog" where
  "store_call cfg scan (InsertTx t) s = answers NoAnswer (insert_tx t s)"
| "store_call cfg scan (InsertTxs ts) s = answers NoAnswer (insert_txs ts s)"
| "store_call cfg scan (UpdateTx t) s = answers NoAnswer (update_tx t s)"
| "store_call cfg scan (RemoveTx x) s = answers NoAnswer (remove_tx x s)"
| "store_call cfg scan (GetTxById x) s = answers (ATx (get_tx_by_id x s)) s"
| "store_call cfg scan GetAllTxs s = answers (ATxs (get_all_txs scan s)) s"
| "store_call cfg scan (GetByState st) s = answers (ATxs (get_by_state scan st s)) s"
| "store_call cfg scan GetActiveTxs s = answers (ATxs (get_active_txs scan s)) s"
| "store_call cfg scan (Exists x) s = answers (ABool (tx_exists x s)) s"
| "store_call cfg scan (UpdateTxState x st) s = giving (\<lambda>_. NoAnswer) (update_tx_state x st) s"
| "store_call cfg scan (RequeueNotFound x h) s = answers NoAnswer (requeue_not_found x h s)"
| "store_call cfg scan (SettleTx x st h) s = giving (\<lambda>_. NoAnswer) (settle_tx x st h) s"
| "store_call cfg scan (MarkAsRetry x) s = answers NoAnswer (mark_as_retry x s)"
| "store_call cfg scan GetSettledTxs s = answers (ATxs (get_settled_txs scan s)) s"
| "store_call cfg scan (EvictStaleTxs h) s = answers NoAnswer (evict_stale_txs cfg scan h s)"
| "store_call cfg scan (InsertSpeedup t) s = answers NoAnswer (insert_speedup t s)"
| "store_call cfg scan GetSpeedupsOrdered s = answers (ATxs (get_speedups_ordered s)) s"
| "store_call cfg scan (AddPendingSpeedupParent x) s = answers NoAnswer (add_pending_speedup_parent x s)"
| "store_call cfg scan (PrependPendingSpeedupParents xs) s =
     answers NoAnswer (prepend_pending_speedup_parents xs s)"
| "store_call cfg scan (RemovePendingSpeedupParent x) s = answers NoAnswer (remove_pending_speedup_parent x s)"
| "store_call cfg scan GetPendingSpeedupParents s =
     (case get_pending_speedup_parents s of (ts, s') \<Rightarrow> answers (ATxs ts) s')"
| "store_call cfg scan (RequeueProtocolParents t) s = answers NoAnswer (requeue_protocol_parents t s)"
| "store_call cfg scan (GetFundingRecord op) s = answers (ARecord (get_funding_record op s)) s"
| "store_call cfg scan (IsSpeedupDerived op) s = answers (ABool (is_speedup_derived op s)) s"
| "store_call cfg scan (AddNews n) s = (case add_news n s of (new, s') \<Rightarrow> answers (ABool new) s')"
| "store_call cfg scan GetNews s = answers (ANews (get_news s)) s"
| "store_call cfg scan (AckNews n h) s = answers NoAnswer (ack_news_item n h s)"
| "store_call cfg scan (CleanupNews h) s = answers NoAnswer (cleanup_news h s)"
| "store_call cfg scan ReadFundingRecords s = answers (ARecords (read_funding_records s)) s"
| "store_call cfg scan (AppendFunding u) s = answers NoAnswer (append_funding u s)"
| "store_call cfg scan (MarkSpent op b) s = answers NoAnswer (set_spent op b s)"
| "store_call cfg scan ClearFundingRecords s = answers NoAnswer (clear_funding_records s)"
| "store_call cfg scan (ReplaceFundingOnFinalize x) s =
     giving (\<lambda>_. NoAnswer) (replace_funding_on_finalize x) s"
| "store_call cfg scan (IsTxKnown x) s = answers (ABool (is_tx_known x s)) s"
| "store_call cfg scan (IsTxFailed x) s = answers (ABool (is_tx_failed x s)) s"

text \<open>The writes of the call, one after the other.\<close>

fun call_writes ::
    "coordinator_storage_settings \<Rightarrow> scan \<Rightarrow> storage_call \<Rightarrow> store \<Rightarrow> store_write list" where
  "call_writes cfg scan (InsertTx t) s = [PutTx t]"
| "call_writes cfg scan (InsertTxs ts) s = map PutTx ts"
| "call_writes cfg scan (UpdateTx t) s = [PutTx t]"
| "call_writes cfg scan (RemoveTx x) s = remove_writes x s"
| "call_writes cfg scan (UpdateTxState x st) s = state_writes x st None s"
| "call_writes cfg scan (RequeueNotFound x h) s = requeue_writes x h s"
| "call_writes cfg scan (SettleTx x st h) s = (if is_terminal st then state_writes x st (Some h) s else [])"
| "call_writes cfg scan (MarkAsRetry x) s = retry_writes x s"
| "call_writes cfg scan (EvictStaleTxs h) s = evict_writes cfg scan h s"
| "call_writes cfg scan (InsertSpeedup t) s = insert_speedup_writes t s"
| "call_writes cfg scan (AddPendingSpeedupParent x) s = pend_writes x s"
| "call_writes cfg scan (PrependPendingSpeedupParents xs) s = prepend_writes xs s"
| "call_writes cfg scan (RemovePendingSpeedupParent x) s = unpend_writes x s"
| "call_writes cfg scan GetPendingSpeedupParents s = prune_writes (st_pending_parents s) s"
| "call_writes cfg scan (RequeueProtocolParents t) s = requeue_parents_writes t s"
| "call_writes cfg scan (AddNews n) s = news_writes n s"
| "call_writes cfg scan (AckNews n h) s = [SetNews (ack_first n h (st_news s))]"
| "call_writes cfg scan (CleanupNews h) s =
     [SetNews (filter (\<lambda>item. case sn_acked_at_block item of None \<Rightarrow> True | Some a \<Rightarrow> h \<le> a) (st_news s))]"
| "call_writes cfg scan (AppendFunding u) s = append_writes u s"
| "call_writes cfg scan (MarkSpent op b) s = spent_writes op b s"
| "call_writes cfg scan ClearFundingRecords s = clear_writes s"
| "call_writes cfg scan (ReplaceFundingOnFinalize x) s = finalize_writes x s"
| "call_writes cfg scan _ s = []"

lemma giving_fst: "fst (giving A m s) = (case fst (m s) of Inl e \<Rightarrow> Inl e | Inr x \<Rightarrow> Inr (A x))"
  by (simp add: giving_def pbind_run pret_run split: prod.split sum.split)

lemma giving_snd: "snd (giving A m s) = snd (m s)"
  by (simp add: giving_def pbind_run pret_run split: prod.split sum.split)

text \<open>The writes of a call are what it does to the store.\<close>

lemma apply_move_writes:
  "apply_writes (move_writes x st change s) s =
     (case get_tx_by_id x s of
        None \<Rightarrow> note_news (TxNotFound x) s
      | Some t \<Rightarrow> if \<not> can_transition_to (ct_state t) st then note_news (InvalidStateTransition x (ct_state t) st) s
          else insert_tx (change t) s)"
  by (simp add: move_writes_def apply_news_writes split: option.split)

lemma apply_state_writes: "apply_writes (state_writes x st h s) s = snd (update_tx_state_impl x st h s)"
  by (simp add: state_writes_def apply_move_writes update_tx_state_impl_def update_tx_def insert_tx_def Let_def
      split: option.split)

lemma apply_put_txs: "apply_writes (map PutTx ts) s = insert_txs ts s"
  unfolding insert_txs_def by (induction ts arbitrary: s) simp_all

context key_value_storage
begin

lemma apply_call_writes:
  "apply_writes (call_writes cfg scan c s) s = snd (store_call cfg scan c s)"
proof (cases c)
  case GetPendingSpeedupParents
  then show ?thesis
    using performs_live_parents [of s "st_pending_parents s" "[]"]
    by (simp add: get_pending_speedup_parents_def split: prod.split)
next
  case (UpdateTxState x st)
  then show ?thesis by (simp add: apply_state_writes giving_snd update_tx_state_def)
next
  case (SettleTx x st h)
  then show ?thesis by (simp add: apply_state_writes giving_snd settle_tx_def)
qed (simp_all add: apply_put_txs apply_remove_writes apply_evict_writes apply_insert_speedup_writes
    apply_pend_writes apply_prepend_writes apply_unpend_writes apply_requeue_parents_writes apply_append_writes
    apply_spent_writes apply_clear_writes apply_finalize_writes giving_snd
    requeue_writes_def retry_writes_def apply_move_writes requeue_not_found_def mark_as_retry_def update_tx_def insert_tx_def
    ack_news_item_def cleanup_news_def apply_news_writes note_news_def split: prod.split option.split)

section \<open>The scan\<close>

lemma performs_decode: "performs s (kv_decode_all (read_tx (cs_formats cs)) (map (put_tx (cs_formats cs)) ts)) (Inr ts) []"
proof (induction ts)
  case (Cons t ts)
  have "performs s (kv_decode (read_tx (cs_formats cs)) (put_tx (cs_formats cs) t)) (Inr t) []"
    by (simp add: kv_decode_def formats_law performs_lift)
  moreover have "performs s (pbind (kv_decode_all (read_tx (cs_formats cs)) (map (put_tx (cs_formats cs)) ts))
      (\<lambda>xs. pret (t # xs))) (Inr (t # ts)) []"
    by (rule performs_bind_ret [OF Cons.IH])
  ultimately show ?case by (auto intro: performs_read)
qed (simp add: performs_ret)

text \<open>What \<open>partial_get\<close> lists are the stored records, in the order of some scan.\<close>

lemma listed_records:
  assumes m: "matches cs h s" and paths: "distinct paths" "set paths = {p. h p \<noteq> None \<and> has_prefix txs_prefix p}"
    and vs: "map Some vs = map h paths"
  obtains scan where "scan_spec scan" "vs = map (put_tx (cs_formats cs)) (get_all_txs scan s)"
proof -
  let ?path = "\<lambda>x. path_of cs (KTx x)"
  have rec: "h (?path x) = map_option (put_tx (cs_formats cs)) (st_txs s x)" for x
    using m by (simp add: matches_def)
  have "\<forall>p \<in> set paths. \<exists>x. p = ?path x" using m paths(2) unfolding matches_def by blast
  then obtain name where name: "\<And>p. p \<in> set paths \<Longrightarrow> p = ?path (name p)" by metis
  let ?ids = "map name paths"
  have path_ids: "map ?path ?ids = paths" using name by (auto intro: map_idI)
  have dist: "distinct ?ids" using paths(1) path_ids distinct_map [of ?path ?ids] by simp
  have dom: "set ?ids = dom (st_txs s)"
  proof -
    have "x \<in> set ?ids \<longleftrightarrow> ?path x \<in> set paths" for x
      using path_ids by (metis (mono_tags, lifting) image_iff path_eq set_map store_key.inject(1))
    then show ?thesis unfolding paths(2) using rec by auto
  qed
  let ?scan = "\<lambda>m. if m = st_txs s then ?ids else sorted_scan m"
  have "scan_spec ?scan" using dist dom sorted_scan_spec by (simp add: scan_spec_def)
  moreover have each: "vs = map (put_tx (cs_formats cs)) (List.map_filter (st_txs s) xs)"
    if "map Some vs = map (\<lambda>x. h (?path x)) xs" "set xs \<subseteq> dom (st_txs s)" for xs vs
    using that by (induction xs arbitrary: vs) (auto simp: rec List.map_filter_simps)
  have "map Some vs = map (\<lambda>x. h (?path x)) ?ids" using vs path_ids by (metis (no_types, lifting) comp_def map_eq_conv map_map)
  with each dom have "vs = map (put_tx (cs_formats cs)) (get_all_txs ?scan s)" by (simp add: get_all_txs_def)
  ultimately show thesis by (rule that)
qed

definition refined ::
    "store \<Rightarrow> ('b, failure, 'a) prog \<Rightarrow> (scan \<Rightarrow> failure + 'a) \<Rightarrow> (scan \<Rightarrow> store_write list) \<Rightarrow> bool" where
  "refined s m r ws \<longleftrightarrow> (\<forall>b r' b'. matches cs (holds b) s \<longrightarrow> m b = (r', b') \<longrightarrow>
     (\<exists>scan. scan_spec scan
        \<and> (r' = r scan \<and> matches cs (holds b') (apply_writes (ws scan) s) \<and> (healthy cs b \<longrightarrow> healthy cs b')
         \<or> \<not> healthy cs b \<and> (\<exists>e n. r' = Inl (storage_error e) \<and> matches cs (holds b') (apply_writes (take n (ws scan)) s)))))"

lemma refined_plain: "performs s m r ws \<Longrightarrow> refined s m (\<lambda>_. r) (\<lambda>_. ws)"
  unfolding performs_def refined_def using sorted_scan_spec by blast

lemma refined_scan:
  assumes "\<And>scan. scan_spec scan \<Longrightarrow> performs s (f (get_all_txs scan s)) (r scan) (ws scan)"
  shows "refined s (pbind (kv_get_all_txs cs) f) r ws"
  unfolding refined_def
proof (intro allI impI)
  fix b r' b' assume b: "matches cs (holds b) s" and run: "pbind (kv_get_all_txs cs) f b = (r', b')"
  let ?goal = "\<exists>scan. scan_spec scan
        \<and> (r' = r scan \<and> matches cs (holds b') (apply_writes (ws scan) s) \<and> (healthy cs b \<longrightarrow> healthy cs b')
         \<or> \<not> healthy cs b \<and> (\<exists>e n. r' = Inl (storage_error e) \<and> matches cs (holds b') (apply_writes (take n (ws scan)) s)))"
  have fails: ?goal if "r' = Inl (storage_error e)" "matches cs (holds b') s" "\<not> healthy cs b" for e
    using that sorted_scan_spec by (intro exI [of _ sorted_scan] conjI disjI2 exI [of _ e] exI [of _ 0]) simp_all
  show ?goal
  proof (cases "be_key (cs_backend cs) txs_prefix")
    case (Inl e)
    then show ?thesis using run b healthy_key [of cs b txs_prefix e]
      by (intro fails [of e]) (auto simp: kv_get_all_txs_def kv_key_at_def pbind_run plift_run)
  next
    case (Inr k)
    note key = this
    obtain q c where get: "be_partial_get (cs_backend cs) k b = (q, c)" by fastforce
    note law = partial_get_law [OF key get] and health = stays_healthyD [OF healthy_calls(4) get]
    show ?thesis
    proof (cases q)
      case (Inl e)
      then show ?thesis using run b key get law health
        by (intro fails [of e]) (auto simp: kv_get_all_txs_def kv_key_at_def pbind_run plift_run pmap_err_run)
    next
      case (Inr vs)
      with law obtain paths where "distinct paths" "set paths = {p. holds b p \<noteq> None \<and> has_prefix txs_prefix p}"
        "map Some vs = map (holds b) paths" by auto
      with b obtain scan where scan: "scan_spec scan" "vs = map (put_tx (cs_formats cs)) (get_all_txs scan s)"
        by (blast elim: listed_records)
      have "performs s (pbind (kv_decode_all (read_tx (cs_formats cs)) vs) f) (r scan) (ws scan)"
        unfolding scan(2) by (rule performs_read [where f = f, OF performs_decode assms [OF scan(1)]])
      moreover have "matches cs (holds c) s" using law b by simp
      moreover have "pbind (kv_decode_all (read_tx (cs_formats cs)) vs) f c = (r', b')"
        using run key get Inr
        by (simp add: kv_get_all_txs_def kv_key_at_def pbind_run plift_run pmap_err_run)
      ultimately show ?thesis using scan(1) health(2) unfolding performs_def by blast
    qed
  qed
qed

lemma refined_giving:
  assumes "refined s m r ws"
  shows "refined s (giving A m) (\<lambda>scan. case r scan of Inl e \<Rightarrow> Inl e | Inr x \<Rightarrow> Inr (A x)) ws"
  unfolding refined_def
proof (intro allI impI)
  fix b r' b' assume b: "matches cs (holds b) s" and run: "giving A m b = (r', b')"
  obtain q c where m: "m b = (q, c)" by fastforce
  then have r': "r' = (case q of Inl e \<Rightarrow> Inl e | Inr x \<Rightarrow> Inr (A x))" "b' = c"
    using run giving_fst [of A m b] giving_snd [of A m b] by simp_all
  from assms b m obtain scan where "scan_spec scan"
    "q = r scan \<and> matches cs (holds c) (apply_writes (ws scan) s) \<and> (healthy cs b \<longrightarrow> healthy cs c)
       \<or> \<not> healthy cs b \<and> (\<exists>e n. q = Inl (storage_error e) \<and> matches cs (holds c) (apply_writes (take n (ws scan)) s))"
    unfolding refined_def by blast
  then show "\<exists>scan. scan_spec scan
      \<and> (r' = (case r scan of Inl e \<Rightarrow> Inl e | Inr x \<Rightarrow> Inr (A x)) \<and> matches cs (holds b') (apply_writes (ws scan) s)
         \<and> (healthy cs b \<longrightarrow> healthy cs b')
       \<or> \<not> healthy cs b \<and> (\<exists>e n. r' = Inl (storage_error e) \<and> matches cs (holds b') (apply_writes (take n (ws scan)) s)))"
    unfolding r' by (auto intro!: exI [of _ scan])
qed

lemma refined_done: "performs s m (Inr x) ws \<Longrightarrow> refined s (giving A m) (\<lambda>_. Inr (A x)) (\<lambda>_. ws)"
  using refined_giving [OF refined_plain, of s m "Inr x" ws A] by simp

lemma refined_unit: "performs s m (Inr ()) ws \<Longrightarrow>
    refined s (giving (\<lambda>_. NoAnswer) m) (\<lambda>_. Inr NoAnswer) (\<lambda>_. ws)"
  by (rule refined_done)

lemma refined_list:
  assumes "\<And>scan. g scan s = F (get_all_txs scan s)"
  shows "refined s (giving ATxs (pbind (kv_get_all_txs cs) (\<lambda>txs. pret (F txs))))
     (\<lambda>scan. Inr (ATxs (g scan s))) (\<lambda>_. [])"
  using refined_giving [OF refined_scan, where r = "\<lambda>scan. Inr (g scan s)" and A = ATxs]
  by (simp add: assms performs_ret)

lemma performs_record_test:
  "performs s (kv_is_tx_known cs x) (Inr (is_tx_known x s)) []"
  "performs s (kv_is_tx_failed cs x) (Inr (is_tx_failed x s)) []"
  "performs s (kv_exists cs x) (Inr (tx_exists x s)) []"
  unfolding kv_is_tx_known_def is_tx_known_def kv_is_tx_failed_def is_tx_failed_def kv_exists_def tx_exists_def
  by (rule performs_bind_ret [OF performs_get_tx])+

lemma evict_refined:
  "refined s (kv_evict_stale_txs cs h) (\<lambda>_. Inr ()) (\<lambda>scan. evict_writes (cs_settings cs) scan h s)"
proof -
  have "performs s (pbind (kv_get_list cs (read_ids (cs_formats cs)) KPendingSpeedupParents) (\<lambda>psp.
      pbind (kv_get_speedups_ordered cs) (\<lambda>speedups.
        pfor settled (kv_evict_one cs h psp (covered_by speedups)))))
      (Inr ()) (loop_writes (evict_one_writes (cs_settings cs) h (st_pending_parents s) (live_covered s)) settled s)"
    for settled
    unfolding covered_by_live [symmetric]
    by (intro performs_read [OF performs_lists(3)] performs_read [OF performs_get_speedups])
      (rule performs_loop [OF performs_evict_one])
  then have "refined s (pbind (kv_get_all_txs cs) (\<lambda>txs.
      pbind (kv_get_list cs (read_ids (cs_formats cs)) KPendingSpeedupParents) (\<lambda>psp.
      pbind (kv_get_speedups_ordered cs) (\<lambda>speedups.
        pfor (filter (\<lambda>t. ct_state t \<in> {Finalized, Failed}) txs) (kv_evict_one cs h psp (covered_by speedups))))))
      (\<lambda>_. Inr ()) (\<lambda>scan. evict_writes (cs_settings cs) scan h s)"
    unfolding evict_writes_def get_settled_txs_def by (intro refined_scan)
  moreover have "pbind (pbind m (\<lambda>x. pret (f x))) g = pbind m (\<lambda>x. g (f x))"
    for m :: "('b, failure, coordinated_tx list) prog" and f and g :: "coordinated_tx list \<Rightarrow> ('b, failure, unit) prog"
    by (rule ext) (simp add: pbind_run pret_run split: prod.split sum.split)
  ultimately show ?thesis unfolding kv_evict_stale_txs_def kv_get_settled_txs_def by simp
qed

text \<open>Every call.\<close>

lemma call_refined:
  "refined s (kv_call cs c) (\<lambda>scan. fst (store_call (cs_settings cs) scan c s))
     (\<lambda>scan. call_writes (cs_settings cs) scan c s)"
proof (cases c)
  case GetAllTxs
  then show ?thesis
    using refined_scan [where f = "\<lambda>txs. pret (ATxs txs)" and r = "\<lambda>scan. Inr (ATxs (get_all_txs scan s))"]
    by (simp add: giving_def performs_ret)
next
  case (GetByState st)
  then show ?thesis using refined_list [of "\<lambda>scan. get_by_state scan st"] by (simp add: kv_get_by_state_def get_by_state_def)
next
  case GetActiveTxs
  then show ?thesis using refined_list [of get_active_txs] by (simp add: kv_get_active_txs_def get_active_txs_def)
next
  case GetSettledTxs
  then show ?thesis using refined_list [of get_settled_txs] by (simp add: kv_get_settled_txs_def get_settled_txs_def)
next
  case (EvictStaleTxs h)
  then show ?thesis using refined_giving [OF evict_refined, where A = "\<lambda>_. NoAnswer"] by simp
next
  case (UpdateTxState x st)
  then show ?thesis
    using refined_giving [OF refined_plain [OF performs_state_impl], where A = "\<lambda>_. NoAnswer"]
    by (simp add: giving_fst update_tx_state_def kv_update_tx_state_def)
next
  case (SettleTx x st h)
  then show ?thesis
    using refined_giving [OF refined_plain [OF performs_settle], where A = "\<lambda>_. NoAnswer"]
    by (simp add: giving_fst)
next
  case (ReplaceFundingOnFinalize x)
  then show ?thesis
    using refined_giving [OF refined_plain [OF performs_finalize], where A = "\<lambda>_. NoAnswer"]
    by (simp add: giving_fst)
next
  case GetPendingSpeedupParents
  then show ?thesis using refined_done [OF performs_get_pending, where A = ATxs] by (simp add: case_prod_unfold)
next
  case (AddNews n)
  then show ?thesis using refined_done [OF performs_add_news, where A = ABool] by (simp add: case_prod_unfold)
qed (simp_all add: refined_done refined_unit performs_update_tx performs_insert_txs performs_put_tx performs_remove_tx performs_get_tx
    performs_record_test performs_requeue performs_retry performs_insert_speedup performs_get_speedups performs_pend
    performs_prepend performs_unpend performs_requeue_parents performs_get_record performs_speedup_derived
    performs_get_news performs_ack_news performs_cleanup_news performs_read_records performs_append
    performs_set_spent performs_clear)

end

end
