(* ===== verification/Storage_Failures.thy ===== *)
theory Storage_Failures
  imports Backend_Calls Store_Records
begin

text \<open>
  Histories of calls on a storage whose backend may fail: each call is either served as the store says, or
  broken off after a first part of its writes. What that means for the state
  changes, which are all or nothing, for the calls that may be repeated, and for the lifecycle of the records.
\<close>

section \<open>A backend that fails on schedule\<close>

text \<open>
  An instance of the laws: an association list, and a schedule that says of each call of the backend
  whether it works, fails without an effect (\<open>Lost\<close>) or has its effect and fails (\<open>Late\<close>).
\<close>

datatype fault = Works | Lost | Late

datatype cell =
    CTx coordinated_tx
  | CNews "stored_news_item list"
  | CIds "txid list"
  | COps "out_point list"
  | CFunding funding_data

type_synonym flaky = "(string list \<times> cell) list \<times> fault list"

definition scheduled :: "(flaky \<Rightarrow> 'a) \<Rightarrow> ((string list \<times> cell) list \<Rightarrow> (string list \<times> cell) list)
    \<Rightarrow> (flaky, string, 'a) prog" where
  "scheduled value change b =
     (case snd b of
        [] \<Rightarrow> (Inr (value b), (change (fst b), []))
      | Works # fs \<Rightarrow> (Inr (value b), (change (fst b), fs))
      | Lost # fs \<Rightarrow> (Inl ''lost'', (fst b, fs))
      | Late # fs \<Rightarrow> (Inl ''late'', (change (fst b), fs)))"

definition flaky_holds :: "flaky \<Rightarrow> string list \<Rightarrow> cell option" where
  "flaky_holds b = map_of (fst b)"

definition flaky_backend :: "(flaky, string list, cell) backend" where
  "flaky_backend =
     \<lparr>be_key = Inr,
      be_get = (\<lambda>k. scheduled (\<lambda>b. map_of (fst b) k) id),
      be_set = (\<lambda>k v. scheduled (\<lambda>_. ()) (\<lambda>m. (k, v) # m)),
      be_remove = (\<lambda>k. scheduled (\<lambda>_. ()) (filter (\<lambda>kv. fst kv \<noteq> k))),
      be_partial_get = (\<lambda>p. scheduled (\<lambda>b. map (the \<circ> map_of (fst b))
        (filter (has_prefix p) (remdups (map fst (fst b))))) id)\<rparr>"

definition read_cell :: "(cell \<Rightarrow> 'a option) \<Rightarrow> cell \<Rightarrow> string + 'a" where
  "read_cell f v = (case f v of Some x \<Rightarrow> Inr x | None \<Rightarrow> Inl ''cannot deserialize'')"

definition cell_formats :: "cell formats" where
  "cell_formats =
     \<lparr>put_tx = CTx, read_tx = read_cell (\<lambda>v. case v of CTx t \<Rightarrow> Some t | _ \<Rightarrow> None),
      put_news = CNews, read_news = read_cell (\<lambda>v. case v of CNews n \<Rightarrow> Some n | _ \<Rightarrow> None),
      put_ids = CIds, read_ids = read_cell (\<lambda>v. case v of CIds xs \<Rightarrow> Some xs | _ \<Rightarrow> None),
      put_ops = COps, read_ops = read_cell (\<lambda>v. case v of COps xs \<Rightarrow> Some xs | _ \<Rightarrow> None),
      put_funding = CFunding, read_funding = read_cell (\<lambda>v. case v of CFunding r \<Rightarrow> Some r | _ \<Rightarrow> None)\<rparr>"

definition flaky_storage :: "(flaky, string list, cell) coordinator_storage" where
  "flaky_storage =
     \<lparr>cs_backend = flaky_backend, cs_formats = cell_formats, cs_show_txid = show_unary, cs_show_op = show_op_unary,
      cs_settings = \<lparr>max_tracking_confirmations = 6\<rparr>\<rparr>"

lemma flaky_parts [simp]:
  "cs_backend flaky_storage = flaky_backend" "cs_formats flaky_storage = cell_formats"
  "cs_settings flaky_storage = \<lparr>max_tracking_confirmations = 6\<rparr>"
  by (simp_all add: flaky_storage_def)

text \<open>How a run on the example evaluates.\<close>

lemmas flaky_run =
  flaky_backend_def cell_formats_def read_cell_def scheduled_def
  kv_get_list_def kv_get_def kv_set_def kv_remove_def kv_key_def kv_key_at_def kv_decode_def
  giving_def prog_simps

lemma map_of_filter_other: "map_of (filter (\<lambda>kv. fst kv \<noteq> k) m) = (map_of m)(k := None)"
  by (induction m) auto

interpretation flaky: key_value_storage flaky_storage flaky_holds
proof
  fix path k b r b'
  show "flaky_holds b' = flaky_holds b \<and> (\<forall>found. r = Inr found \<longrightarrow> found = flaky_holds b path)"
    if "be_key (cs_backend flaky_storage) path = Inr k" "be_get (cs_backend flaky_storage) k b = (r, b')"
    using that by (auto simp: flaky_storage_def flaky_backend_def scheduled_def flaky_holds_def
        split: list.splits fault.splits)
next
  fix path k v b u b'
  show "flaky_holds b' = (flaky_holds b)(path \<mapsto> v) \<or> (\<exists>e. u = Inl e) \<and> flaky_holds b' = flaky_holds b"
    if "be_key (cs_backend flaky_storage) path = Inr k" "be_set (cs_backend flaky_storage) k v b = (u, b')"
    using that by (auto simp: flaky_storage_def flaky_backend_def scheduled_def flaky_holds_def
        split: list.splits fault.splits)
next
  fix path k b u b'
  show "flaky_holds b' = (flaky_holds b)(path := None) \<or> (\<exists>e. u = Inl e) \<and> flaky_holds b' = flaky_holds b"
    if "be_key (cs_backend flaky_storage) path = Inr k" "be_remove (cs_backend flaky_storage) k b = (u, b')"
    using that by (auto simp: flaky_storage_def flaky_backend_def scheduled_def flaky_holds_def
        map_of_filter_other split: list.splits fault.splits)
next
  fix path k b q b'
  assume a: "be_key (cs_backend flaky_storage) path = Inr k" "be_partial_get (cs_backend flaky_storage) k b = (q, b')"
  let ?paths = "filter (has_prefix path) (remdups (map fst (fst b)))"
  have "set ?paths = {p. flaky_holds b p \<noteq> None \<and> has_prefix path p}"
    by (force simp: flaky_holds_def map_of_eq_None_iff)
  moreover have "map Some (map (the \<circ> map_of (fst b)) ?paths) = map (flaky_holds b) ?paths"
    by (force simp: flaky_holds_def map_of_eq_None_iff)
  moreover have "distinct ?paths" by simp
  moreover have "flaky_holds b' = flaky_holds b"
    "q = Inr vs \<Longrightarrow> vs = map (the \<circ> map_of (fst b)) ?paths" for vs
    using a by (auto simp: flaky_storage_def flaky_backend_def scheduled_def flaky_holds_def
        split: list.splits fault.splits)
  ultimately show "flaky_holds b' = flaky_holds b \<and> (\<forall>vs. q = Inr vs \<longrightarrow> (\<exists>paths. distinct paths
       \<and> set paths = {p. flaky_holds b p \<noteq> None \<and> has_prefix path p} \<and> map Some vs = map (flaky_holds b) paths))"
    by blast
qed (simp_all add: flaky_storage_def cell_formats_def read_cell_def show_unary_inj show_op_unary_inj)

lemma flaky_empty: "matches flaky_storage (flaky_holds ([], fs)) empty_store"
  by (simp add: matches_def flaky_holds_def empty_store_def holds_list_def)

section \<open>Histories\<close>

primrec run_calls ::
    "('b, 'k, 'v) coordinator_storage \<Rightarrow> storage_call list \<Rightarrow> 'b \<Rightarrow> (failure + answer) list \<times> 'b" where
  "run_calls cs [] b = ([], b)"
| "run_calls cs (c # calls) b =
     (let (r, b1) = kv_call cs c b; (rs, b2) = run_calls cs calls b1 in (r # rs, b2))"

text \<open>
  The answers a store may give when, unless all is \<open>well\<close> with the backend, each call may be broken off
  after some of its writes.
\<close>

inductive history ::
    "coordinator_storage_settings \<Rightarrow> bool \<Rightarrow> store \<Rightarrow> storage_call list \<Rightarrow> (failure + answer) list \<Rightarrow> store \<Rightarrow> bool"
  for cfg well where
  history_none: "history cfg well s [] [] s"
| history_served:
    "scan_spec scan \<Longrightarrow> store_call cfg scan c s = (r, s1) \<Longrightarrow> history cfg well s1 calls rs s2 \<Longrightarrow>
     history cfg well s (c # calls) (r # rs) s2"
| history_broken:
    "\<not> well \<Longrightarrow> scan_spec scan \<Longrightarrow>
     history cfg well (apply_writes (take n (call_writes cfg scan c s)) s) calls rs s2 \<Longrightarrow>
     history cfg well s (c # calls) (Inl (storage_error e) # rs) s2"

inductive_cases history_ConsE: "history cfg well s (c # calls) rs s2"
inductive_cases history_NilE: "history cfg well s [] rs s2"

lemma history_unwell: "history cfg well s calls rs s' \<Longrightarrow> history cfg False s calls rs s'"
  by (induction rule: history.induct) (auto intro: history.intros)

lemma call_step:
  assumes "key_value_storage cs holds" "matches cs (holds b) s" "kv_call cs c b = (r, b1)"
  obtains (served) scan s1 where "scan_spec scan" "store_call (cs_settings cs) scan c s = (r, s1)"
      "matches cs (holds b1) s1" "healthy cs b \<longrightarrow> healthy cs b1"
    | (broken) scan e n where "\<not> healthy cs b" "scan_spec scan" "r = Inl (storage_error e)"
      "matches cs (holds b1) (apply_writes (take n (call_writes (cs_settings cs) scan c s)) s)"
proof -
  have "\<exists>scan. scan_spec scan
      \<and> (r = fst (store_call (cs_settings cs) scan c s) \<and> matches cs (holds b1) (snd (store_call (cs_settings cs) scan c s))
           \<and> (healthy cs b \<longrightarrow> healthy cs b1)
       \<or> \<not> healthy cs b \<and> (\<exists>e n. r = Inl (storage_error e)
            \<and> matches cs (holds b1) (apply_writes (take n (call_writes (cs_settings cs) scan c s)) s)))"
    using key_value_storage.call_refined [OF assms(1), of s c] assms(2,3)
    unfolding key_value_storage.refined_def [OF assms(1)] key_value_storage.apply_call_writes [OF assms(1)] by blast
  then show thesis using served broken by (metis prod.collapse)
qed

lemma calls_have_history:
  assumes "key_value_storage cs holds" "matches cs (holds b) s" "run_calls cs calls b = (rs, b')"
  shows "\<exists>s'. history (cs_settings cs) (healthy cs b) s calls rs s' \<and> matches cs (holds b') s'"
  using assms(2,3)
proof (induction calls arbitrary: b s rs)
  case Nil
  then show ?case by (auto intro: history_none)
next
  case (Cons c calls)
  obtain r b1 where call: "kv_call cs c b = (r, b1)" by fastforce
  obtain rs' where rest: "run_calls cs calls b1 = (rs', b')" "rs = r # rs'"
    using Cons.prems(2) call by (auto split: prod.splits)
  from assms(1) Cons.prems(1) call show ?case
  proof (cases rule: call_step)
    case (served scan s1)
    from Cons.IH [OF this(3) rest(1)] obtain s' where s': "history (cs_settings cs) (healthy cs b1) s1 calls rs' s'"
      "matches cs (holds b') s'" by blast
    then have "history (cs_settings cs) (healthy cs b) s1 calls rs' s'"
      using served(4) history_unwell [OF s'(1)] by (cases "healthy cs b") simp_all
    then show ?thesis using served(1,2) s'(2) rest(2) by (blast intro: history_served)
  next
    case (broken scan e n)
    then show ?thesis using Cons.IH rest history_unwell by simp (blast intro: history_broken)
  qed
qed

text \<open>
  C10. The storage over its backend is the store of the model. On any backend that keeps the laws and holds a
  store \<open>s\<close>, any sequence of calls of any methods gets the answers of a history of \<open>s\<close>, and the backend ends
  up holding the store at the end of that history: each call either has the answer and the effect the
  store gives it, or it has returned a storage error after a first part of its writes. While the backend
  works no call is broken off.
\<close>

theorem storage_refines_store:
  assumes "key_value_storage cs holds" "matches cs (holds b) s" "run_calls cs calls b = (rs, b')"
  shows "\<exists>s'. history (cs_settings cs) (healthy cs b) s calls rs s' \<and> matches cs (holds b') s'"
  by (rule calls_have_history [OF assms])

text \<open>On a schedule without faults the example backend works.\<close>

lemma flaky_healthy: "healthy flaky_storage (m, [])"
proof (coinduction arbitrary: m rule: healthy.coinduct)
  case healthy
  then show ?case by (auto simp: flaky_backend_def scheduled_def)
qed

text \<open>A record is stored, and its settlement takes effect but reports a failure.\<close>

definition demo_calls :: "storage_call list" where
  "demo_calls = [InsertTx (plain_record 5 Normal InMempool), SettleTx 5 Finalized 100, IsTxKnown 5]"

definition demo_faults :: flaky where
  "demo_faults = ([], [Works, Works, Late])"

lemma demo_run:
  "run_calls flaky_storage demo_calls demo_faults =
     ([Inr NoAnswer, Inl (storage_error ''late''), Inr (ABool True)],
      ([(path_of flaky_storage (KTx 5),
           CTx ((plain_record 5 Normal InMempool)\<lparr>ct_settled_block_height := Some 100, ct_state := Finalized\<rparr>)),
        (path_of flaky_storage (KTx 5), CTx (plain_record 5 Normal InMempool))], []))"
  by (simp add: demo_calls_def demo_faults_def kv_insert_tx_def kv_settle_tx_def kv_update_tx_state_impl_def
      kv_get_tx_by_id_def kv_update_tx_def kv_is_tx_known_def flaky_run plain_record_def)

theorem storage_refines_store_witness:
  "\<exists>s'. history (cs_settings flaky_storage) (healthy flaky_storage demo_faults) empty_store demo_calls
      [Inr NoAnswer, Inl (storage_error ''late''), Inr (ABool True)] s'
    \<and> matches flaky_storage (flaky_holds (snd (run_calls flaky_storage demo_calls demo_faults))) s'"
  using storage_refines_store [OF flaky.key_value_storage_axioms flaky_empty [of "snd demo_faults"],
      of demo_calls] demo_run
  by (simp add: demo_faults_def)

end
