(* ===== verification/Broken_Calls.thy ===== *)
theory Broken_Calls
  imports Storage_Failures
begin

text \<open>
  What a call leaves that the backend breaks off: nothing or everything for the calls that write once, a
  state from which the call can be made again for most others, and in every case records that have only
  moved along the lifecycle.
\<close>

section \<open>Single calls\<close>

text \<open>The calls that write at most once.\<close>

fun atomic_call :: "storage_call \<Rightarrow> bool" where
  "atomic_call (InsertTxs ts) = False"
| "atomic_call (RemoveTx x) = False"
| "atomic_call (EvictStaleTxs h) = False"
| "atomic_call (InsertSpeedup t) = False"
| "atomic_call GetPendingSpeedupParents = False"
| "atomic_call (AppendFunding u) = False"
| "atomic_call ClearFundingRecords = False"
| "atomic_call (ReplaceFundingOnFinalize x) = False"
| "atomic_call c = True"

text \<open>The calls with the same effect when they are made again after a part of their writes.\<close>

fun repeatable_call :: "storage_call \<Rightarrow> bool" where
  "repeatable_call (UpdateTxState x st) = False"
| "repeatable_call (SettleTx x st h) = False"
| "repeatable_call (RequeueNotFound x h) = False"
| "repeatable_call (MarkAsRetry x) = False"
| "repeatable_call (EvictStaleTxs h) = False"
| "repeatable_call (AckNews n h) = False"
| "repeatable_call (ReplaceFundingOnFinalize x) = False"
| "repeatable_call c = True"

lemma atomic_writes: "atomic_call c \<Longrightarrow> length (call_writes cfg scan c s) \<le> 1"
  by (cases c) (auto simp: state_writes_def requeue_writes_def retry_writes_def move_writes_def news_writes_def
      pend_writes_def prepend_writes_def unpend_writes_def requeue_parents_writes_def spent_writes_def Let_def
      split: option.split tx_kind.split speedup_kind.split)

lemma take_atomic: "length ws \<le> 1 \<Longrightarrow> take n ws = [] \<or> take n ws = ws"
  by (cases n; cases ws) auto

lemma insert_txs_again: "insert_txs ts (insert_txs (take n ts) s) = insert_txs ts s"
proof -
  have same: "insert_txs ts s = insert_txs ts s'"
    if "\<forall>x. x \<notin> ct_txid ` set ts \<longrightarrow> st_txs s x = st_txs s' x" "s\<lparr>st_txs := m\<rparr> = s'\<lparr>st_txs := m\<rparr>" for ts s s' m
    using that
  proof (induction ts arbitrary: s s')
    case Nil
    then have "st_txs s = st_txs s'" by auto
    with Nil(2) show ?case by (cases s; cases s') (simp add: insert_txs_def)
  next
    case (Cons t ts)
    have "insert_txs ts (insert_tx t s) = insert_txs ts (insert_tx t s')"
      using Cons.prems by (intro Cons.IH) (auto simp: insert_tx_def)
    then show ?case by (simp add: insert_txs_def)
  qed
  have rest: "(insert_txs us s)\<lparr>st_txs := m\<rparr> = s\<lparr>st_txs := m\<rparr>" for us s and m
    by (induction us arbitrary: s) (simp_all add: insert_txs_def insert_tx_def)
  have other: "st_txs (insert_txs us s) x = st_txs s x" if "x \<notin> ct_txid ` set us" for us s x
    using that by (induction us arbitrary: s) (auto simp: insert_txs_def insert_tx_def)
  show ?thesis
    by (rule same [of _ _ _ Map.empty]) (auto simp: rest intro!: other dest: in_set_takeD)
qed


lemma set_spent_again: "set_spent op b (set_spent op b s) = set_spent op b s"
proof (cases "get_funding_record op s")
  case (Some r)
  then show ?thesis by (simp add: set_spent_def get_funding_record_def put_funding_record_def)
next
  case None
  note none = this
  show ?thesis
  proof (cases "set_spent op b s = s")
    case False
    with none obtain t k where t: "get_tx_by_id (op_txid op) s = Some t" "ct_kind t = Speedup k"
      and s': "set_spent op b s = update_tx (t\<lparr>ct_kind := Speedup (map_context (set_context_spent b) k)\<rparr>) s"
      by (auto simp: set_spent_def split: option.splits tx_kind.splits if_splits)
    have other: "get_funding_record op (s\<lparr>st_txs := m\<rparr>) = None" for m
      using none by (simp add: get_funding_record_def)
    show ?thesis
    proof (cases "ct_txid t = op_txid op")
      case True
      then show ?thesis unfolding s' using other
        by (cases k) (simp_all add: set_spent_def get_tx_by_id_def update_tx_def set_context_spent_def)
    next
      case ne: False
      then show ?thesis unfolding s' using other t
        by (simp add: set_spent_def get_tx_by_id_def update_tx_def)
    qed
  qed simp
qed

lemma prune_part:
  "\<exists>D. (\<forall>x \<in> D. dead_parent s x) \<and> apply_writes (take n (prune_writes xs s)) s
     = s\<lparr>st_pending_parents := filter (\<lambda>x. x \<notin> D) (st_pending_parents s)\<rparr>"
proof (induction xs arbitrary: n s)
  case Nil
  show ?case by (intro exI [of _ "{}"]) simp
next
  case (Cons x xs)
  let ?rest = "\<lambda>s. prune_writes xs s"
  show ?case
  proof (cases "dead_parent s x \<and> x \<in> set (st_pending_parents s)")
    case False
    then have "prune_writes (x # xs) s = prune_writes xs s"
      by (auto simp: Let_def unpend_writes_def dead_parent_def tx_state_def get_tx_by_id_def split: option.split)
    then show ?thesis using Cons.IH by simp
  next
    case True
    let ?s = "remove_pending_speedup_parent x s"
    have ws: "prune_writes (x # xs) s = SetPending (retain_ne x (st_pending_parents s)) # prune_writes xs ?s"
      using True by (auto simp: Let_def unpend_writes_def dead_parent_def tx_state_def get_tx_by_id_def
          remove_pending_speedup_parent_def split: option.splits)
    show ?thesis
    proof (cases n)
      case 0
      show ?thesis by (intro exI [of _ "{}"]) (simp add: 0)
    next
      case (Suc m)
      from Cons.IH [where n = m and s = ?s] obtain D where D: "\<forall>y \<in> D. dead_parent ?s y"
        "apply_writes (take m (prune_writes xs ?s)) ?s
          = ?s\<lparr>st_pending_parents := filter (\<lambda>y. y \<notin> D) (st_pending_parents ?s)\<rparr>" by blast
      have "\<forall>y \<in> insert x D. dead_parent s y"
        using D(1) True by (simp add: dead_parent_def tx_state_def remove_pending_speedup_parent_def)
      moreover have "apply_writes (take n (prune_writes (x # xs) s)) s
          = s\<lparr>st_pending_parents := filter (\<lambda>y. y \<notin> insert x D) (st_pending_parents s)\<rparr>"
        using D(2) unfolding ws Suc
        by (simp add: remove_pending_speedup_parent_def retain_ne_def conj_commute)
      ultimately show ?thesis by blast
    qed
  qed
qed

lemma prune_again:
  "snd (get_pending_speedup_parents (apply_writes (take n (prune_writes (st_pending_parents s) s)) s))
     = snd (get_pending_speedup_parents s)"
proof -
  from prune_part [of s n "st_pending_parents s"] obtain D where D: "\<forall>x \<in> D. dead_parent s x"
    "apply_writes (take n (prune_writes (st_pending_parents s) s)) s
       = s\<lparr>st_pending_parents := filter (\<lambda>x. x \<notin> D) (st_pending_parents s)\<rparr>" by blast
  have final: "snd (get_pending_speedup_parents s')
      = s'\<lparr>st_pending_parents := filter (\<lambda>x. \<not> dead_parent s x) (st_pending_parents s')\<rparr>"
    if "st_txs s' = st_txs s" for s'
  proof -
    have "filter (\<lambda>x. \<not> (x \<in> set xs \<and> dead_parent s x)) xs = filter (\<lambda>x. \<not> dead_parent s x) xs" for xs
      by (rule filter_cong) auto
    then show ?thesis unfolding get_pending_speedup_parents_def pending_fold [OF that] by simp
  qed
  have "filter (\<lambda>x. \<not> dead_parent s x) (filter (\<lambda>x. x \<notin> D) xs) = filter (\<lambda>x. \<not> dead_parent s x) xs" for xs
    using D(1) by (auto simp: filter_filter intro!: filter_cong)
  then show ?thesis unfolding D(2) by (subst (1 2) final) simp_all
qed

lemma clear_again: "clear_funding_records (apply_writes (take n (clear_writes s)) s) = clear_funding_records s"
proof -
  have drop: "fold drop_funding_record ops s = s\<lparr>st_funding := (\<lambda>op. if op \<in> set ops then None else st_funding s op)\<rparr>"
    for ops s
    by (induction ops arbitrary: s) (auto simp: drop_funding_record_def fun_eq_iff)
  have clear: "clear_funding_records s = s\<lparr>st_funding_list := [],
      st_funding := (\<lambda>op. if op \<in> set (st_funding_list s) then None else st_funding s op)\<rparr>" for s
    by (simp add: clear_funding_records_def drop set_funding_list_def)
  let ?ops = "st_funding_list s"
  have part: "take n (clear_writes s) = map DropFunding (take n ?ops) @ (if n \<le> length ?ops then [] else [SetFundingList []])"
    by (auto simp: clear_writes_def take_map take_Cons')
  show ?thesis
  proof (cases "n \<le> length ?ops")
    case True
    have "(\<lambda>op. if op \<in> set ?ops then None else if op \<in> set (take n ?ops) then None else st_funding s op)
        = (\<lambda>op. if op \<in> set ?ops then None else st_funding s op)"
      by (rule ext) (auto dest: in_set_takeD)
    with True show ?thesis unfolding part by (simp add: clear apply_drops drop cong: if_cong)
  next
    case False
    then show ?thesis unfolding part
      by (auto simp: clear apply_drops drop set_funding_list_def fun_eq_iff)
  qed
qed

lemma repeat_after_part:
  assumes "repeatable_call c"
  shows "snd (store_call cfg scan c (apply_writes (take n (call_writes cfg scan c s)) s)) = snd (store_call cfg scan c s)"
proof (cases "atomic_call c")
  case True
  from take_atomic [OF atomic_writes [OF True]]
  consider "take n (call_writes cfg scan c s) = []"
    | "take n (call_writes cfg scan c s) = call_writes cfg scan c s" by blast
  then show ?thesis
  proof cases
    case 1
    then show ?thesis by (metis apply_writes_simps(1))
  next
    case 2
    have "snd (store_call cfg scan c (snd (store_call cfg scan c s))) = snd (store_call cfg scan c s)"
      using True assms
    proof (cases c)
      case (RequeueProtocolParents t)
      then show ?thesis
        by (simp add: requeue_protocol_parents_def prepend_pending_speedup_parents_def get_tx_by_id_def Let_def
            split: tx_kind.split speedup_kind.split)
    qed (simp_all add: set_spent_again insert_tx_def update_tx_def add_pending_speedup_parent_def
        remove_pending_speedup_parent_def push_new_def retain_ne_def prepend_pending_speedup_parents_def Let_def
        add_news_def cleanup_news_def split: prod.split)
    then show ?thesis unfolding 2 flaky.apply_call_writes .
  qed
next
  case False
  with assms show ?thesis
  proof (cases c)
    case (InsertTxs ts)
    then show ?thesis using insert_txs_again [of ts n s] by (simp add: take_map apply_put_txs)
  next
    case (RemoveTx x)
    then show ?thesis
      by (auto simp: remove_writes_def unlist_writes_def take_Cons' remove_tx_def remove_speedup_from_list_def)
  next
    case (InsertSpeedup t)
    then show ?thesis
      by (auto simp: insert_speedup_writes_def take_Cons' insert_speedup_def insert_tx_def push_new_def)
  next
    case (AppendFunding u)
    then show ?thesis
      by (auto simp: append_writes_def take_Cons' append_funding_def Let_def put_funding_record_def set_funding_list_def)
  next
    case GetPendingSpeedupParents
    then show ?thesis using prune_again by (simp add: case_prod_unfold)
  next
    case ClearFundingRecords
    then show ?thesis by (simp add: clear_again)
  qed simp_all
qed

lemma broken_state:
  assumes "key_value_storage cs holds" "matches cs (holds b) s" "kv_call cs c b = (Inl (storage_error e), b1)"
  obtains scan n where "matches cs (holds b1) (apply_writes (take n (call_writes (cs_settings cs) scan c s)) s)"
proof (rule call_step [OF assms])
  fix scan s1
  assume st: "store_call (cs_settings cs) scan c s = (Inl (storage_error e), s1)" "matches cs (holds b1) s1"
  have "apply_writes (call_writes (cs_settings cs) scan c s) s = s1"
    using flaky.apply_call_writes [of "cs_settings cs" scan c s] st(1) by simp
  then show thesis using that [of "length (call_writes (cs_settings cs) scan c s)" scan] st(2) by simp
qed

text \<open>
  C22. What a storage failure leaves of a single call. A call that writes at most once (every change of the
  state of a record, every reservation, the waiting parents, the news) is all or nothing: the backend then holds the
  store from before or the store from after. And except for the state changes, eviction, acknowledgement and
  finalization, making the call again ends with the store that the unbroken call gives, although two writes
  of one method are not one transaction.
\<close>

theorem broken_call_is_safe:
  assumes "key_value_storage cs holds" "matches cs (holds b) s" "kv_call cs c b = (Inl (storage_error e), b1)"
  shows "(atomic_call c \<longrightarrow>
        (\<exists>scan s1. matches cs (holds b1) s1 \<and> s1 \<in> {s, snd (store_call (cs_settings cs) scan c s)}))
    \<and> (repeatable_call c \<longrightarrow>
        (\<exists>scan s1. matches cs (holds b1) s1
           \<and> snd (store_call (cs_settings cs) scan c s1) = snd (store_call (cs_settings cs) scan c s)))"
proof -
  let ?cfg = "cs_settings cs"
  obtain scan n where m: "matches cs (holds b1) (apply_writes (take n (call_writes ?cfg scan c s)) s)"
    by (rule broken_state [OF assms])
  have "\<exists>scan s1. matches cs (holds b1) s1 \<and> s1 \<in> {s, snd (store_call ?cfg scan c s)}" if "atomic_call c"
    using take_atomic [OF atomic_writes [OF that], of n ?cfg scan s] m flaky.apply_call_writes [of ?cfg scan c s]
    by (metis apply_writes_simps(1) insertCI)
  moreover have "\<exists>scan s1. matches cs (holds b1) s1
      \<and> snd (store_call ?cfg scan c s1) = snd (store_call ?cfg scan c s)" if "repeatable_call c"
    using m repeat_after_part [OF that] by blast
  ultimately show ?thesis by blast
qed

text \<open>
  The example backend with one record: a settlement that takes effect and reports a failure, and a
  speedup that is stored but not listed.
\<close>

definition one_record :: "transaction_state \<Rightarrow> store" where
  "one_record st = insert_tx (plain_record 5 Normal st) empty_store"

definition one_cell :: "transaction_state \<Rightarrow> fault list \<Rightarrow> flaky" where
  "one_cell st faults = ([(path_of flaky_storage (KTx 5), CTx (plain_record 5 Normal st))], faults)"

lemma one_cell_matches: "matches flaky_storage (flaky_holds (one_cell st faults)) (one_record st)"
  by (auto simp: matches_def flaky_holds_def one_cell_def one_record_def insert_tx_def empty_store_def holds_list_def
      cell_formats_def plain_record_def)

lemma one_cell_settle:
  "kv_call flaky_storage (SettleTx 5 Finalized 100) (one_cell InMempool (Works # Late # fs)) =
     (Inl (storage_error ''late''), ([(path_of flaky_storage (KTx 5),
        CTx ((plain_record 5 Normal InMempool)\<lparr>ct_settled_block_height := Some 100, ct_state := Finalized\<rparr>)),
        (path_of flaky_storage (KTx 5), CTx (plain_record 5 Normal InMempool))], fs))"
  by (simp add: one_cell_def kv_settle_tx_def kv_update_tx_state_impl_def kv_get_tx_by_id_def kv_update_tx_def
      flaky_run plain_record_def)

lemma one_cell_speedup:
  "kv_call flaky_storage (InsertSpeedup (plain_cpfp 7 [5] 90 ToDispatch)) (one_cell InMempool [Works, Works, Lost]) =
     (Inl (storage_error ''lost''), ([(path_of flaky_storage (KTx 7), CTx (plain_cpfp 7 [5] 90 ToDispatch)),
        (path_of flaky_storage (KTx 5), CTx (plain_record 5 Normal InMempool))], []))"
  by (simp add: one_cell_def kv_insert_speedup_def kv_insert_tx_def flaky_run plain_record_def plain_cpfp_def)

theorem broken_call_is_safe_witness:
  "(\<exists>scan s1. matches flaky_storage
        (flaky_holds (snd (kv_call flaky_storage (SettleTx 5 Finalized 100) (one_cell InMempool [Works, Late])))) s1
      \<and> s1 \<in> {one_record InMempool, snd (store_call (cs_settings flaky_storage) scan (SettleTx 5 Finalized 100) (one_record InMempool))})
   \<and> (\<exists>scan s1. matches flaky_storage (flaky_holds
          (snd (kv_call flaky_storage (InsertSpeedup (plain_cpfp 7 [5] 90 ToDispatch)) (one_cell InMempool [Works, Works, Lost])))) s1
      \<and> snd (store_call (cs_settings flaky_storage) scan (InsertSpeedup (plain_cpfp 7 [5] 90 ToDispatch)) s1)
        = insert_speedup (plain_cpfp 7 [5] 90 ToDispatch) (one_record InMempool))"
proof
  show "\<exists>scan s1. matches flaky_storage
        (flaky_holds (snd (kv_call flaky_storage (SettleTx 5 Finalized 100) (one_cell InMempool [Works, Late])))) s1
      \<and> s1 \<in> {one_record InMempool, snd (store_call (cs_settings flaky_storage) scan (SettleTx 5 Finalized 100) (one_record InMempool))}"
    using broken_call_is_safe [OF flaky.key_value_storage_axioms one_cell_matches one_cell_settle [of "[]"]]
    unfolding one_cell_settle by simp
  show "\<exists>scan s1. matches flaky_storage (flaky_holds
          (snd (kv_call flaky_storage (InsertSpeedup (plain_cpfp 7 [5] 90 ToDispatch)) (one_cell InMempool [Works, Works, Lost])))) s1
      \<and> snd (store_call (cs_settings flaky_storage) scan (InsertSpeedup (plain_cpfp 7 [5] 90 ToDispatch)) s1)
        = insert_speedup (plain_cpfp 7 [5] 90 ToDispatch) (one_record InMempool)"
    using broken_call_is_safe [OF flaky.key_value_storage_axioms one_cell_matches one_cell_speedup]
    unfolding one_cell_speedup by simp
qed

section \<open>The lifecycle\<close>

text \<open>The calls that put a record of the caller's choice, and the ids of these records.\<close>

fun puts_record :: "storage_call \<Rightarrow> bool" where
  "puts_record (InsertTx t) = True"
| "puts_record (InsertTxs ts) = True"
| "puts_record (UpdateTx t) = True"
| "puts_record (InsertSpeedup t) = True"
| "puts_record c = False"

fun puts_ids :: "storage_call \<Rightarrow> txid set" where
  "puts_ids (InsertTx t) = {ct_txid t}"
| "puts_ids (InsertTxs ts) = ct_txid ` set ts"
| "puts_ids (UpdateTx t) = {ct_txid t}"
| "puts_ids (InsertSpeedup t) = {ct_txid t}"
| "puts_ids c = {}"

fun puts_tx :: "store_write \<Rightarrow> bool" where
  "puts_tx (PutTx t) = True"
| "puts_tx w = False"

lemma lifecycle_other_write: "\<not> puts_tx w \<Longrightarrow> lifecycle s (apply_write w s)"
proof (cases w)
  case (DropTx x)
  then show ?thesis
    by (auto simp: lifecycle_def keyed_def record_moves_refl record_moves_def split: option.split)
qed (simp_all add: lifecycle_same_txs set_funding_list_def put_funding_record_def drop_funding_record_def)

lemma lifecycle_other_writes: "\<forall>w \<in> set ws. \<not> puts_tx w \<Longrightarrow> lifecycle s (apply_writes ws s)"
  unfolding apply_writes_def by (rule living.fold_related) (simp add: lifecycle_other_write)

lemma unlist_no_put: "\<forall>w \<in> set (unlist_writes x s). \<not> puts_tx w"
  by (simp add: unlist_writes_def)

lemma loop_no_put:
  "(\<And>x s. \<forall>v \<in> set (w x s). \<not> puts_tx v) \<Longrightarrow> \<forall>v \<in> set (loop_writes w xs s). \<not> puts_tx v"
  by (induction xs arbitrary: s) auto

lemma multi_no_put:
  assumes "\<not> puts_record c" "\<not> atomic_call c"
  shows "\<forall>w \<in> set (call_writes cfg scan c s). \<not> puts_tx w"
  using assms
proof (cases c)
  case (EvictStaleTxs h)
  have "\<forall>w \<in> set (evict_one_writes cfg h psp cov t s). \<not> puts_tx w" for psp cov t s
    by (auto simp: evict_one_writes_def remove_writes_def news_writes_def unlist_writes_def split: option.split)
  from loop_no_put [where w = "evict_one_writes cfg h (st_pending_parents s) (live_covered s)", OF this]
  show ?thesis unfolding EvictStaleTxs call_writes.simps evict_writes_def .
next
  case GetPendingSpeedupParents
  have "\<forall>w \<in> set (prune_writes xs s). \<not> puts_tx w" for xs
    by (induction xs arbitrary: s) (auto simp: Let_def unpend_writes_def split: option.split)
  then show ?thesis using GetPendingSpeedupParents by simp
next
  case (ReplaceFundingOnFinalize x)
  have "\<forall>w \<in> set (queue_change_writes r pos xs y s). \<not> puts_tx w" for r pos xs y
    using unlist_no_put by (auto simp: queue_change_writes_def split: option.split)
  then have "\<forall>w \<in> set (finalize_queue_writes t u k s). \<not> puts_tx w" for t u k
    by (auto simp: finalize_queue_writes_def Let_def split: prod.split sum.split)
  then show ?thesis using ReplaceFundingOnFinalize
    by (auto simp: finalize_writes_def split: option.splits sum.splits)
qed (auto simp: remove_writes_def unlist_writes_def append_writes_def clear_writes_def)

lemma store_call_lifecycle:
  assumes "\<not> puts_record c"
  shows "lifecycle s (snd (store_call cfg scan c s))"
proof (cases "atomic_call c")
  case False
  then show ?thesis
    using lifecycle_other_writes [OF multi_no_put [OF assms False]] flaky.apply_call_writes by metis
next
  case True
  then show ?thesis
    using assms
  proof (cases c)
    case (UpdateTxState x st)
    then show ?thesis by (simp add: giving_snd update_tx_state_def lifecycle_update_impl)
  next
    case (SettleTx x st h)
    then show ?thesis by (simp add: giving_snd lifecycle_settle)
  next
    case (RequeueProtocolParents t)
    have "lifecycle s (apply_writes (requeue_parents_writes t s) s)"
      by (rule lifecycle_other_writes) (auto simp: requeue_parents_writes_def prepend_writes_def Let_def
          split: tx_kind.split speedup_kind.split)
    then show ?thesis using RequeueProtocolParents by (simp add: apply_requeue_parents_writes)
  qed (auto simp: living.step_refl lifecycle_requeue lifecycle_retry lifecycle_set_spent add_news_def
      add_pending_speedup_parent_def prepend_pending_speedup_parents_def remove_pending_speedup_parent_def
      ack_news_item_def cleanup_news_def Let_def intro: lifecycle_same_txs split: prod.split)
qed

lemma broken_call_lifecycle:
  assumes "\<not> puts_record c"
  shows "lifecycle s (apply_writes (take n (call_writes cfg scan c s)) s)"
proof (cases "atomic_call c")
  case False
  then show ?thesis
    using multi_no_put [OF assms False] by (intro lifecycle_other_writes) (blast dest: in_set_takeD)
next
  case True
  then show ?thesis
    using take_atomic [OF atomic_writes [OF True], of n cfg scan s] store_call_lifecycle [OF assms]
      living.step_refl flaky.apply_call_writes by (metis apply_writes_simps(1))
qed

text \<open>The lifecycle of the records with ids outside \<open>X\<close>.\<close>

definition lifecycle_off :: "txid set \<Rightarrow> store \<Rightarrow> store \<Rightarrow> bool" where
  "lifecycle_off X s s' \<longleftrightarrow>
     (keyed s \<longrightarrow> keyed s' \<and> (\<forall>x. x \<notin> X \<longrightarrow> record_moves (st_txs s x) (st_txs s' x)))"

interpretation off: step_relation "lifecycle_off X" for X
proof
  show "lifecycle_off X s s" for s by (simp add: lifecycle_off_def record_moves_refl)
  show "lifecycle_off X s u" if "lifecycle_off X s t" "lifecycle_off X t u" for s t u
    using that unfolding lifecycle_off_def by (blast intro: record_moves_trans)
qed

lemma lifecycle_off_less: "lifecycle_off Y s s' \<Longrightarrow> Y \<subseteq> X \<Longrightarrow> lifecycle_off X s s'"
  unfolding lifecycle_off_def by blast

lemma lifecycle_off_all: "lifecycle s s' \<Longrightarrow> lifecycle_off X s s'"
  by (simp add: lifecycle_def lifecycle_off_def)

lemma lifecycle_off_put: "ct_txid t \<in> X \<Longrightarrow> lifecycle_off X s (apply_write (PutTx t) s)"
  by (auto simp: lifecycle_off_def keyed_def insert_tx_def record_moves_refl)

lemma put_call_off:
  assumes "puts_record c"
  shows "lifecycle_off (puts_ids c) s (apply_writes (take n (call_writes cfg scan c s)) s)"
proof -
  have "\<forall>w \<in> set (call_writes cfg scan c s). (\<exists>t. w = PutTx t \<and> ct_txid t \<in> puts_ids c) \<or> \<not> puts_tx w"
    using assms by (cases c) (auto simp: insert_speedup_writes_def)
  then have "lifecycle_off (puts_ids c) s' (apply_write w s')" if "w \<in> set (take n (call_writes cfg scan c s))" for w s'
    using in_set_takeD [OF that] lifecycle_off_put [of _ "puts_ids c" s']
      lifecycle_off_all [OF lifecycle_other_write [of w s'], of "puts_ids c"] by metis
  then show ?thesis unfolding apply_writes_def by (rule off.fold_related)
qed

lemma call_off:
  "lifecycle_off (puts_ids c) s (snd (store_call cfg scan c s))"
  "lifecycle_off (puts_ids c) s (apply_writes (take n (call_writes cfg scan c s)) s)"
proof -
  show "lifecycle_off (puts_ids c) s (apply_writes (take n (call_writes cfg scan c s)) s)" for n
    using put_call_off [of c] lifecycle_off_all [OF broken_call_lifecycle [of c]] by (cases "puts_record c") simp_all
  from this [of "length (call_writes cfg scan c s)"]
  show "lifecycle_off (puts_ids c) s (snd (store_call cfg scan c s))"
    using flaky.apply_call_writes by simp
qed

lemma off_calls:
  assumes "lifecycle_off (puts_ids c) s s1" "lifecycle_off (\<Union> (puts_ids ` set calls)) s1 s2"
  shows "lifecycle_off (\<Union> (puts_ids ` set (c # calls))) s s2"
  by (rule off.step_trans [OF lifecycle_off_less [OF assms(1)] lifecycle_off_less [OF assms(2)]]) auto

lemma history_lifecycle:
  "history cfg well s calls rs s' \<Longrightarrow> lifecycle_off (\<Union> (puts_ids ` set calls)) s s'"
proof (induction rule: history.induct)
  case (history_none s)
  show ?case by (rule off.step_refl)
next
  case (history_served scan c s r s1 calls rs s2)
  have "lifecycle_off (puts_ids c) s s1" using call_off(1) [of c s cfg scan] history_served.hyps(2) by simp
  from off_calls [OF this history_served.IH] show ?case .
next
  case (history_broken scan n c s calls rs s2 e)
  from off_calls [OF call_off(2) history_broken.IH] show ?case .
qed

text \<open>
  C11. The lifecycle survives storage failures. Whatever calls are made, in whatever order, and wherever
  the backend breaks them off: a record for whose id no call stores a record of the caller's (an
  insertion or \<open>update_tx\<close>), if it is there at the end, was there at the beginning and has moved along the lifecycle, and one
  that was \<open>Finalized\<close> or \<open>Failed\<close> still is.
\<close>

theorem failing_storage_keeps_lifecycle:
  assumes "key_value_storage cs holds" "matches cs (holds b) s" "keyed s" and "run_calls cs calls b = (rs, b')"
  shows "\<exists>s'. matches cs (holds b') s'
    \<and> (\<forall>x t'. (\<forall>c \<in> set calls. x \<notin> puts_ids c) \<longrightarrow> st_txs s' x = Some t' \<longrightarrow>
      (\<exists>t. st_txs s x = Some t \<and> can_transition_to\<^sup>*\<^sup>* (ct_state t) (ct_state t')
         \<and> (is_terminal (ct_state t) \<longrightarrow> ct_state t' = ct_state t)))"
proof -
  obtain s' where s': "history (cs_settings cs) False s calls rs s'" "matches cs (holds b') s'"
    using calls_have_history [OF assms(1,2,4)] history_unwell by blast
  have moved: "record_moves (st_txs s x) (st_txs s' x)" if "\<forall>c \<in> set calls. x \<notin> puts_ids c" for x
    using history_lifecycle [OF s'(1)] assms(3) that by (simp add: lifecycle_off_def)
  have final: "b = a" if "can_transition_to\<^sup>*\<^sup>* a b" "is_terminal a" for a b
    using that by (induction rule: rtranclp_induct) (auto simp: can_transition_terminal)
  have "\<exists>t. st_txs s x = Some t \<and> can_transition_to\<^sup>*\<^sup>* (ct_state t) (ct_state t')
      \<and> (is_terminal (ct_state t) \<longrightarrow> ct_state t' = ct_state t)"
    if "\<forall>c \<in> set calls. x \<notin> puts_ids c" "st_txs s' x = Some t'" for x t'
    using moved [OF that(1)] final that(2) by (cases "st_txs s x") (simp_all add: record_moves_def)
  then show ?thesis using s'(2) by blast
qed

text \<open>Neither a state change nor a retry moves a settled record, also when another is stored meanwhile and the storage fails.\<close>

definition demo_moves :: "storage_call list" where
  "demo_moves = [UpdateTxState 5 ToDispatch, InsertTx (plain_record 6 Normal InMempool), MarkAsRetry 5]"

theorem failing_storage_keeps_lifecycle_witness:
  "\<exists>s'. matches flaky_storage (flaky_holds (snd (run_calls flaky_storage demo_moves
        (one_cell Finalized [Works, Works, Late])))) s'
    \<and> (\<forall>t'. st_txs s' 5 = Some t' \<longrightarrow> ct_state t' = Finalized)"
proof -
  let ?b = "one_cell Finalized [Works, Works, Late]"
  have k: "keyed (one_record Finalized)"
    by (simp add: keyed_def one_record_def insert_tx_def empty_store_def plain_record_def)
  have other: "\<forall>c \<in> set demo_moves. 5 \<notin> puts_ids c" by (simp add: demo_moves_def plain_record_def)
  obtain rs b' where run: "run_calls flaky_storage demo_moves ?b = (rs, b')" by (rule prod.exhaust)
  from failing_storage_keeps_lifecycle [OF flaky.key_value_storage_axioms one_cell_matches k run] obtain s'
    where s': "matches flaky_storage (flaky_holds b') s'"
      "\<forall>x t'. (\<forall>c \<in> set demo_moves. x \<notin> puts_ids c) \<longrightarrow> st_txs s' x = Some t' \<longrightarrow>
         (\<exists>t. st_txs (one_record Finalized) x = Some t
           \<and> can_transition_to\<^sup>*\<^sup>* (ct_state t) (ct_state t') \<and> (is_terminal (ct_state t) \<longrightarrow> ct_state t' = ct_state t))"
    by blast
  have "ct_state t' = Finalized" if "st_txs s' 5 = Some t'" for t'
    using s'(2) [rule_format, OF other [rule_format] that] by (auto simp: one_record_def insert_tx_def plain_record_def)
  then show ?thesis using s'(1) run by auto
qed

end
