(* ===== verification/Interrupted.thy ===== *)
theory Interrupted
  imports Broken_Calls Speedup_Facts
begin

text \<open>
  Finalizing a speedup is a settlement, calls to the monitor and several writes of the storage, without a
  transaction around them. Here is what is left when it is interrupted: by the monitor after the
  settlement, or by the storage before its last write.
\<close>

section \<open>By the monitor\<close>

lemma evict_keeps_queue:
  "st_funding (evict_stale_txs cfg scan h s) = st_funding s
     \<and> st_funding_list (evict_stale_txs cfg scan h s) = st_funding_list s"
proof -
  let ?R = "\<lambda>s s' :: store. st_funding s' = st_funding s \<and> st_funding_list s' = st_funding_list s"
  have "step_relation ?R" by unfold_locales simp_all
  moreover have "?R s (evict_one cfg h psp cov t s)" for psp cov t s
    by (simp add: evict_one_def remove_tx_def remove_speedup_from_list_def note_news_def add_news_def
        split: option.split)
  ultimately show ?thesis unfolding evict_stale_txs_def by (rule step_relation.fold_related)
qed

text \<open>
  C21. A finalized replacement whose review is cut short by the monitor.
\<close>

theorem interrupted_finalization_loses_change:
  assumes t: "st_txs (w_store w) x = Some t" "ct_txid t = x" "ct_state t \<in> {InMempool, Confirmed}"
      "ct_kind t = Speedup (RBF y ins c)"
    and status: "sv_get_tx_status (cx_services cx) x True (w_ext w) = (Inr st, e1)"
      "\<not> is_in_mempool st" "\<not> is_not_found st" "is_finalized st (max_monitoring_confirmations (cx_settings cx))"
    and refused: "sv_cancel (cx_services cx) (Transactions [y] (ct_context t) None) e1 = (Inl msg, e2)"
    and run: "review_speedup cx all h t w = (r, w')"
  shows "r = Inl (Err (MonitorError msg))
    \<and> (\<exists>t'. st_txs (w_store w') x = Some t' \<and> ct_state t' = Finalized
         \<and> (\<forall>(cx' :: 'e engine_context) all' h'. review_speedup cx' all' h' t' = pret ()))
    \<and> st_funding_list (w_store w') = st_funding_list (w_store w) \<and> st_funding (w_store w') = st_funding (w_store w)
    \<and> (scan_spec scan \<and> finite (dom (st_txs (w_store w))) \<and> keyed (w_store w)
         \<and> unat (max_tracking_confirmations cfg) \<le> unat h2 - unat h \<longrightarrow>
       st_txs (evict_stale_txs cfg scan h2 (w_store w')) x = None
       \<and> st_funding_list (evict_stale_txs cfg scan h2 (w_store w')) = st_funding_list (w_store w)
       \<and> st_funding (evict_stale_txs cfg scan h2 (w_store w')) = st_funding (w_store w))"
proof -
  let ?t = "t\<lparr>ct_settled_block_height := Some h, ct_state := Finalized\<rparr>"
  let ?s = "update_tx ?t (w_store w)"
  have "can_transition_to (ct_state t) Finalized" using t(3) by auto
  then have settle: "settle_tx x Finalized h (w_store w) = (Inr (), ?s)"
    using t by (simp add: settle_tx_def update_tx_state_impl_def get_tx_by_id_def)
  have "r = Inl (Err (MonitorError msg))" and s': "w_store w' = ?s"
    using run t status refused settle
    by (auto simp: review_speedup_def Let_def call_monitor_def mark_finalized_def remove_replaced_rbf_def on_store_run
        on_ext_run pbind_run pseq_run pmap_err_run pget_run)
  moreover have rec: "st_txs ?s = (st_txs (w_store w))(x \<mapsto> ?t)" using t(2) by (simp add: update_tx_def)
  moreover have "review_speedup cx' all' h' ?t = pret ()" for cx' :: "'e engine_context" and all' h'
    by (simp add: review_speedup_def Let_def)
  moreover have "st_txs (evict_stale_txs cfg scan h2 ?s) x = None"
    if "scan_spec scan" "finite (dom (st_txs (w_store w)))" "keyed (w_store w)"
      "unat (max_tracking_confirmations cfg) \<le> unat h2 - unat h"
  proof -
    have "finite (dom (st_txs ?s))" "keyed ?s" using that(2,3) t(2) by (simp_all add: rec keyed_def)
    moreover have "stale cfg h2 ?s ?t" using that(4) t(4) by (simp add: stale_def is_needs_speedup_def)
    ultimately show ?thesis using evict_records [OF that(1)] by (simp add: rec)
  qed
  ultimately show ?thesis using evict_keeps_queue by (auto simp: update_tx_def)
qed

text \<open>The monitor reports 30 as finalized and then fails when the replaced 20 is to be cancelled.\<close>

definition failing_context :: "transaction list engine_context" where
  "failing_context = demo_context ((demo_services (\<lambda>x. False))\<lparr>
     sv_get_tx_status := (\<lambda>x mempool. pret \<lparr>is_in_mempool = False, is_not_found = False, is_finalized = (\<lambda>n. True),
       is_confirmed = True, is_orphan = False\<rparr>),
     sv_cancel := (\<lambda>what. pthrow ''unavailable'')\<rparr>)"

definition replaced_world :: "transaction list world" where
  "replaced_world = demo_world (empty_store\<lparr>st_txs := [30 \<mapsto> plain_rbf 30 20 90 Confirmed], st_speedup_list := [30],
     st_funding_list := [OutPoint 90 0],
     st_funding := [OutPoint 90 0 \<mapsto> \<lparr>fd_utxo = plain_utxo 90, fd_spent = True, fd_from_speedup = False\<rparr>]\<rparr>)"

theorem interrupted_finalization_loses_change_witness:
  "\<exists>w'. review_speedup failing_context [plain_rbf 30 20 90 Confirmed] 120 (plain_rbf 30 20 90 Confirmed) replaced_world
      = (Inl (Err (MonitorError ''unavailable'')), w')
    \<and> st_funding_list (evict_stale_txs default_storage_settings sorted_scan 140 (w_store w')) = [OutPoint 90 0]
    \<and> st_txs (evict_stale_txs default_storage_settings sorted_scan 140 (w_store w')) 30 = None"
proof -
  let ?t = "plain_rbf 30 20 90 Confirmed" and ?s = "w_store replaced_world"
  have t: "st_txs ?s 30 = Some ?t" "ct_txid ?t = 30" "ct_state ?t \<in> {InMempool, Confirmed}"
    by (simp_all add: replaced_world_def demo_world_def plain_rbf_def plain_record_def)
  have kind: "\<exists>ins c. ct_kind ?t = Speedup (RBF 20 ins c)" by (simp add: plain_rbf_def plain_record_def)
  have ok: "finite (dom (st_txs ?s))" "keyed ?s" "st_funding_list ?s = [OutPoint 90 0]"
    by (simp_all add: replaced_world_def demo_world_def keyed_def plain_rbf_def plain_record_def)
  have conf: "unat (max_tracking_confirmations default_storage_settings) \<le> unat (140 :: u32) - unat (120 :: u32)"
    by (simp add: default_storage_settings_def settings_constants)
  obtain r w' where run: "review_speedup failing_context [?t] 120 ?t replaced_world = (r, w')" by (rule prod.exhaust)
  from kind obtain ins c where k: "ct_kind ?t = Speedup (RBF 20 ins c)" by blast
  have status: "sv_get_tx_status (cx_services failing_context) 30 True (w_ext replaced_world) =
      (Inr \<lparr>is_in_mempool = False, is_not_found = False, is_finalized = (\<lambda>n. True), is_confirmed = True,
        is_orphan = False\<rparr>, w_ext replaced_world)"
    and refused: "sv_cancel (cx_services failing_context) (Transactions [20] (ct_context ?t) None) (w_ext replaced_world)
      = (Inl ''unavailable'', w_ext replaced_world)"
    by (simp_all add: failing_context_def demo_context_def pret_run pthrow_run)
  from interrupted_finalization_loses_change [OF t k status _ _ _ refused run,
      of sorted_scan default_storage_settings 140] run
  show ?thesis using ok conf sorted_scan_spec by auto
qed

section \<open>By the storage\<close>

text \<open>The finalization of a listed speedup ends with two writes: the queue, and the list of speedups.\<close>

lemma finalize_last_write:
  assumes t: "st_txs s x = Some t" "ct_txid t = x" "ct_kind t = Speedup k" "speedup_change_utxo t = Inr u"
    and queued: "set (st_funding_list s) \<inter> set (map utxo_outpoint (sc_funding_inputs (context_of k))) \<noteq> {}"
    and listed: "x \<in> set (st_speedup_list s)"
  obtains ops queue where
    "finalize_writes x s = map DropFunding ops @ [PutFunding (utxo_outpoint u)
       \<lparr>fd_utxo = u, fd_spent = sc_spent (context_of k), fd_from_speedup = True\<rparr>, SetFundingList queue]
       @ [SetSpeedups (retain_ne x (st_speedup_list s))]"
proof -
  let ?C = "set (map utxo_outpoint (sc_funding_inputs (context_of k)))" and ?q = "st_funding_list s"
  have m: "matched ?C 0 ?q \<noteq> []" using queued by (simp only: matched_empty) blast
  have run: "remove_matched (rev (matched ?C 0 ?q)) ?q s = (Inr (filter (\<lambda>op. op \<notin> ?C) ?q), s')" if "s' =
      s\<lparr>st_funding := (st_funding s) |` (- (?C \<inter> set ?q))\<rparr>" for s'
    using remove_matched_run [of "[]" 0 ?C ?q s] that by simp
  have "\<exists>ops queue. finalize_queue_writes t u k s = map DropFunding ops @ [PutFunding (utxo_outpoint u)
       \<lparr>fd_utxo = u, fd_spent = sc_spent (context_of k), fd_from_speedup = True\<rparr>, SetFundingList queue]
       @ [SetSpeedups (retain_ne x (st_speedup_list s))]"
    using m listed t(2)
    by (simp add: finalize_queue_writes_def collect_consumed_eq run [OF refl] queue_change_writes_def
        unlist_writes_def Let_def del: set_map) blast
  then show thesis
    using that t by (auto simp: finalize_writes_def get_tx_by_id_def speedup_kind_of_def)
qed

text \<open>
  C20. A finalization that the storage breaks off before its last write hands the same output out twice. When
  only the write that takes the speedup off the list is missing, its change is in the funding queue and is
  also the change of the latest live speedup; a reservation marks the queued record, and the
  next \<open>get_funding\<close> offers the same output again. After the last write the speedup is no longer listed.
\<close>

theorem interrupted_finalization_offers_twice:
  assumes t: "st_txs s x = Some t" "ct_txid t = x" "ct_state t = Finalized" "ct_kind t = Speedup k"
      "\<not> sc_spent (context_of k)" "speedup_change_utxo t = Inr u"
    and queued: "set (st_funding_list s) \<inter> set (map utxo_outpoint (sc_funding_inputs (context_of k))) \<noteq> {}"
    and latest: "st_speedup_list s = older @ [x]" "\<not> has_live_replacement t (get_speedups_ordered s)"
    and broken: "s1 = apply_writes (butlast (finalize_writes x s)) s"
  shows "\<exists>s2. get_funding coordinator_funding_storage (get_speedups_ordered s1) s1 = (Inr (Some (u, True)), s2)
    \<and> fst (get_funding coordinator_funding_storage (get_speedups_ordered s2) s2) = Inr (Some (u, True))
    \<and> x \<notin> set (st_speedup_list (apply_writes [last (finalize_writes x s)] s1))"
proof -
  let ?r = "\<lparr>fd_utxo = u, fd_spent = sc_spent (context_of k), fd_from_speedup = True\<rparr>"
  have listed: "x \<in> set (st_speedup_list s)" using latest(1) by simp
  obtain ops queue where ws: "finalize_writes x s = map DropFunding ops
      @ [PutFunding (utxo_outpoint u) ?r, SetFundingList queue] @ [SetSpeedups (retain_ne x (st_speedup_list s))]"
    using finalize_last_write [OF t(1,2,4,6) queued listed] by blast
  have drops: "fold drop_funding_record ops s = s\<lparr>st_funding := st_funding (fold drop_funding_record ops s)\<rparr>"
    by (induction ops arbitrary: s) (simp_all add: drop_funding_record_def, metis store.surjective store.update_convs(6))
  have s1: "s1 = s\<lparr>st_funding_list := queue, st_funding := st_funding s1\<rparr>"
    and rec: "st_funding s1 (utxo_outpoint u) = Some ?r"
    unfolding broken ws
    by (simp_all add: butlast_append apply_drops put_funding_record_def set_funding_list_def) (subst drops, simp)
  have tip: "live_chain_tip (get_speedups_ordered s') (rev (get_speedups_ordered s')) = Inr (Some u)"
    if "st_txs s' = st_txs s" "st_speedup_list s' = st_speedup_list s" for s'
  proof -
    have "get_speedups_ordered s' = get_speedups_ordered s" using that by (simp add: get_speedups_ordered_def)
    moreover have "get_speedups_ordered s = List.map_filter (st_txs s) older @ [t]"
      using latest(1) t(1) by (simp add: get_speedups_ordered_def map_filter_append List.map_filter_simps)
    ultimately show ?thesis using t(3-6) latest(2) by (simp add: speedup_kind_of_def)
  qed
  have take_tip: "get_funding coordinator_funding_storage (get_speedups_ordered s') s'
      = (Inr (Some (u, True)), set_spent (utxo_outpoint u) True s')"
    if "st_txs s' = st_txs s" "st_speedup_list s' = st_speedup_list s" for s'
    using tip [OF that] by (simp add: get_funding_def prog_simps coordinator_funding_storage_def)
  have "st_txs s1 = st_txs s" "st_speedup_list s1 = st_speedup_list s" by (subst s1, simp)+
  moreover have "st_txs (set_spent (utxo_outpoint u) True s1) = st_txs s1"
    "st_speedup_list (set_spent (utxo_outpoint u) True s1) = st_speedup_list s1"
    using rec by (simp_all add: set_spent_def get_funding_record_def put_funding_record_def)
  ultimately show ?thesis using take_tip by (simp add: ws retain_ne_def)
qed

text \<open>
  The finalization of \<open>finalized_store\<close> on a backend that fails at its last write, and what it leaves.
\<close>

definition finalizing_cells :: flaky where
  "finalizing_cells =
     ([(path_of flaky_storage (KTx 10), CTx (plain_cpfp 10 [2] 90 Finalized)),
       (path_of flaky_storage KSpeedupList, CIds [10]),
       (path_of flaky_storage KFundingList, COps [OutPoint 91 0, OutPoint 90 0, OutPoint 92 0]),
       (path_of flaky_storage (KFunding (OutPoint 90 0)),
          CFunding \<lparr>fd_utxo = plain_utxo 90, fd_spent = True, fd_from_speedup = False\<rparr>),
       (path_of flaky_storage (KFunding (OutPoint 91 0)),
          CFunding \<lparr>fd_utxo = plain_utxo 91, fd_spent = False, fd_from_speedup = False\<rparr>),
       (path_of flaky_storage (KFunding (OutPoint 92 0)),
          CFunding \<lparr>fd_utxo = plain_utxo 92, fd_spent = False, fd_from_speedup = False\<rparr>)],
      [Works, Works, Works, Works, Works, Works, Lost])"

lemma finalizing_matches: "matches flaky_storage (flaky_holds finalizing_cells) finalized_store"
  by (auto simp: matches_def flaky_holds_def finalizing_cells_def finalized_store_def empty_store_def holds_list_def
      cell_formats_def split: if_splits)

lemma finalizing_tx:
  "speedup_change_utxo (plain_cpfp 10 [2] 90 st) = Inr \<lparr>u_txid = 10, u_vout = 0, u_amount = 5000, u_pub_key = 0\<rparr>"
  "speedup_kind_of (plain_cpfp 10 [2] 90 st) = Inr (CPFP [2] \<lparr>sc_funding_inputs = [plain_utxo 90], sc_replaced_by = None,
     sc_bump_fee_used = Fin 1, sc_parent_data = [], sc_spent = False\<rparr>)"
  "ct_txid (plain_cpfp 10 [2] 90 st) = 10"
  by (simp_all add: speedup_change_utxo_def speedup_kind_of_def last_output_def funded_defs)

lemma finalizing_run:
  "fst (kv_call flaky_storage (ReplaceFundingOnFinalize 10) finalizing_cells) = Inl (storage_error ''lost'')
   \<and> matches flaky_storage (flaky_holds (snd (kv_call flaky_storage (ReplaceFundingOnFinalize 10) finalizing_cells)))
       (apply_writes (butlast (finalize_writes 10 finalized_store)) finalized_store)"
proof -
  let ?p = "path_of flaky_storage" and ?u = "\<lparr>u_txid = 10, u_vout = 0, u_amount = 5000, u_pub_key = 0\<rparr>"
  have run: "kv_call flaky_storage (ReplaceFundingOnFinalize 10) finalizing_cells =
      (Inl (storage_error ''lost''),
       ((?p KFundingList, COps [OutPoint 91 0, OutPoint 10 0, OutPoint 92 0])
        # (?p (KFunding (OutPoint 10 0)), CFunding \<lparr>fd_utxo = ?u, fd_spent = False, fd_from_speedup = True\<rparr>)
        # filter (\<lambda>kv. fst kv \<noteq> ?p (KFunding (OutPoint 90 0))) (fst finalizing_cells), []))"
    by (simp add: finalizing_cells_def kv_replace_funding_on_finalize_def kv_get_tx_by_id_def flaky_run finalizing_tx
        kv_funding_list_def collect_consumed_def collect_step_def plain_utxo_def utxo_outpoint_def vec_remove_def
        vec_insert_def kv_put_funding_record_def kv_set_funding_list_def kv_remove_speedup_from_list_def retain_ne_def Let_def)
  have ws: "butlast (finalize_writes 10 finalized_store) =
      [DropFunding (OutPoint 90 0), PutFunding (OutPoint 10 0) \<lparr>fd_utxo = ?u, fd_spent = False, fd_from_speedup = True\<rparr>,
       SetFundingList [OutPoint 91 0, OutPoint 10 0, OutPoint 92 0]]"
    by (simp add: finalize_writes_def finalize_queue_writes_def get_tx_by_id_def finalized_store_def finalizing_tx
        collect_consumed_def collect_step_def plain_utxo_def utxo_outpoint_def vec_remove_def vec_insert_def
        queue_change_writes_def unlist_writes_def prog_simps Let_def)
  have "matches flaky_storage (flaky_holds (snd (kv_call flaky_storage (ReplaceFundingOnFinalize 10) finalizing_cells)))
      (apply_writes (butlast (finalize_writes 10 finalized_store)) finalized_store)"
    unfolding run ws
    by (auto simp: matches_def flaky_holds_def finalizing_cells_def finalized_store_def empty_store_def holds_list_def
        cell_formats_def put_funding_record_def drop_funding_record_def set_funding_list_def split: if_splits)
  then show ?thesis using run by simp
qed

theorem interrupted_finalization_offers_twice_witness:
  "\<exists>s1 s2. fst (kv_call flaky_storage (ReplaceFundingOnFinalize 10) finalizing_cells) = Inl (storage_error ''lost'')
    \<and> matches flaky_storage (flaky_holds (snd (kv_call flaky_storage (ReplaceFundingOnFinalize 10) finalizing_cells))) s1
    \<and> get_funding coordinator_funding_storage (get_speedups_ordered s1) s1
        = (Inr (Some (\<lparr>u_txid = 10, u_vout = 0, u_amount = 5000, u_pub_key = 0\<rparr>, True)), s2)
    \<and> fst (get_funding coordinator_funding_storage (get_speedups_ordered s2) s2)
        = Inr (Some (\<lparr>u_txid = 10, u_vout = 0, u_amount = 5000, u_pub_key = 0\<rparr>, True))"
proof -
  let ?t = "plain_cpfp 10 [2] 90 Finalized"
  let ?c = "\<lparr>sc_funding_inputs = [plain_utxo 90], sc_replaced_by = None, sc_bump_fee_used = Fin 1,
      sc_parent_data = [], sc_spent = False\<rparr>"
  have t: "st_txs finalized_store 10 = Some ?t" "ct_txid ?t = 10" "ct_state ?t = Finalized"
      "ct_kind ?t = Speedup (CPFP [2] ?c)"
    by (simp_all add: finalized_store_def plain_cpfp_def plain_record_def)
  have c: "\<not> sc_spent (context_of (CPFP [2] ?c))"
    "set (st_funding_list finalized_store) \<inter> set (map utxo_outpoint (sc_funding_inputs (context_of (CPFP [2] ?c)))) \<noteq> {}"
    "st_speedup_list finalized_store = [] @ [10]"
    by (simp_all add: finalized_store_def plain_utxo_def utxo_outpoint_def)
  note change = finalizing_tx(1) [of Finalized]
  have live: "\<not> has_live_replacement ?t (get_speedups_ordered finalized_store)"
    using t c(3) by (simp add: has_live_replacement_def get_speedups_ordered_def List.map_filter_simps is_being_replaced_def)
  show ?thesis
    using interrupted_finalization_offers_twice [OF t(1-4) c(1) change c(2,3) live refl] finalizing_run by blast
qed

end
