(* ===== verification/Registration.thy ===== *)
theory Registration
  imports Interrupted Coordinator_Facts
begin

text \<open>
  Registration over a backend that may fail (\<open>register_tx\<close> of \<open>src/coordinator.rs\<close> on the methods of
  \<open>Backend_Storage\<close>). It makes two writes, the record and the place among the parents that wait for a CPFP, with
  calls to the monitor before them; here is what each way of breaking it off leaves behind.
\<close>

section \<open>The call\<close>

text \<open>The state is the backend and the outside.\<close>

definition on_backend :: "('b, failure, 'a) prog \<Rightarrow> ('b \<times> 'e, failure, 'a) prog" where
  "on_backend m = pzoom fst (\<lambda>b w. (b, snd w)) m"

definition on_outside :: "('e, failure, 'a) prog \<Rightarrow> ('b \<times> 'e, failure, 'a) prog" where
  "on_outside m = pzoom snd (\<lambda>e w. (fst w, e)) m"

definition ask_monitor :: "('e, 'a) ext_prog \<Rightarrow> ('b \<times> 'e, failure, 'a) prog" where
  "ask_monitor m = on_outside (pmap_err (\<lambda>e. Err (MonitorError e)) m)"

definition kv_register_tx ::
    "('b, 'k, 'v) coordinator_storage \<Rightarrow> 'e engine_context \<Rightarrow> transaction \<Rightarrow> tx_kind \<Rightarrow> string \<Rightarrow> block_height option
      \<Rightarrow> u32 option \<Rightarrow> u32 option \<Rightarrow> ('b \<times> 'e, failure, unit) prog" where
  "kv_register_tx cs cx tx kind context target_block_height confirmation_trigger stuck_in_mempool_blocks =
     (let txid = tx_compute_txid tx in
      pbind (on_backend (kv_get_tx_by_id cs txid)) (\<lambda>known.
      case known of
        Some _ \<Rightarrow> pret ()
      | None \<Rightarrow>
          pbind (ask_monitor (sv_get_monitor_height (cx_services cx))) (\<lambda>current_height.
          pbind (on_outside (ptry (sv_get_estimated_fee_rate (cx_services cx)))) (\<lambda>estimate.
          let (fee_rate, _) = get_network_fee_rate (bs_fee (cx_settings cx))
                (case estimate of Inr rate \<Rightarrow> Some rate | Inl _ \<Rightarrow> None) in
          pseq (ask_monitor (sv_monitor (cx_services cx)
                  (Transactions [txid] context confirmation_trigger) False))
         (pseq (on_backend (kv_insert_tx cs
             \<lparr>ct_txid = txid, ct_tx = tx, ct_kind = kind, ct_state = ToDispatch,
              ct_target_block_height = unwrap_or target_block_height current_height,
              ct_confirmation_trigger = confirmation_trigger,
              ct_stuck_in_mempool_blocks = stuck_in_mempool_blocks,
              ct_settled_block_height = None, ct_broadcast_block_height = None,
              ct_fail_guard_until = None, ct_retry_count = 0,
              ct_fee_info = compute_fee_for_tx tx fee_rate, ct_context = context\<rparr>))
          (case kind of
             NeedsSpeedup _ \<Rightarrow> on_backend (kv_add_pending_speedup_parent cs txid)
           | _ \<Rightarrow> pret ()))))))"

section \<open>What it stores\<close>

text \<open>
  The record of a registration from the outside \<open>e\<close>: due at the height asked for, or at the one the monitor
  reports, with the fee of the rate that the monitor estimates next; none when the monitor does not know the height.
\<close>

definition record_to_register ::
    "'e engine_context \<Rightarrow> 'e \<Rightarrow> transaction \<Rightarrow> tx_kind \<Rightarrow> string \<Rightarrow> block_height option \<Rightarrow> u32 option \<Rightarrow> u32 option
      \<Rightarrow> coordinated_tx option" where
  "record_to_register cx e tx kind c target trigger stuck =
     (case sv_get_monitor_height (cx_services cx) e of
        (Inl _, _) \<Rightarrow> None
      | (Inr h, e1) \<Rightarrow>
          Some (fresh_record tx kind c (unwrap_or target h) trigger stuck (compute_fee_for_tx tx
            (fst (get_network_fee_rate (bs_fee (cx_settings cx))
              (case fst (sv_get_estimated_fee_rate (cx_services cx) e1) of Inr rate \<Rightarrow> Some rate | Inl _ \<Rightarrow> None))))))"

definition with_place :: "coordinated_tx \<Rightarrow> store \<Rightarrow> store" where
  "with_place t s = (if needs_cpfp (ct_kind t) then add_pending_speedup_parent (ct_txid t) s else s)"

definition whole_or_partial :: "coordinated_tx \<Rightarrow> store \<Rightarrow> store set" where
  "whole_or_partial t s = {insert_tx t s, with_place t (insert_tx t s)}"

lemma whole_or_partial_known: "s' \<in> whole_or_partial t s \<Longrightarrow> st_txs s' (ct_txid t) = Some t"
  by (auto simp: whole_or_partial_def with_place_def insert_tx_def add_pending_speedup_parent_def)

lemma register_steps:
  "on_backend m (b, e) = (fst (m b), snd (m b), e)"
  "on_outside n (b, e) = (fst (n e), b, snd (n e))"
  "ask_monitor k (b, e) = (case fst (k e) of Inl x \<Rightarrow> Inl (Err (MonitorError x)) | Inr x \<Rightarrow> Inr x, b, snd (k e))"
  by (simp_all add: on_backend_def on_outside_def ask_monitor_def pzoom_def pmap_err_def split: prod.splits sum.splits)

context key_value_storage
begin

lemma register_again:
  assumes "matches cs (holds b) s" "st_txs s (tx_compute_txid tx) \<noteq> None"
    and "kv_register_tx cs cx tx kind c target trigger stuck (b, e) = (r, b', e')"
  shows "matches cs (holds b') s \<and> e' = e \<and> (healthy cs b \<longrightarrow> r = Inr ())"
proof -
  obtain q b1 where get: "kv_get_tx_by_id cs (tx_compute_txid tx) b = (q, b1)" by fastforce
  from performs_get_tx assms(1) get show ?thesis
  proof (cases rule: performsD)
    case returns
    then show ?thesis using assms(2,3) get
      by (auto simp: kv_register_tx_def Let_def pbind_run register_steps get_tx_by_id_def pret_run)
  next
    case breaks
    then show ?thesis using assms(3) get
      by (auto simp: kv_register_tx_def Let_def pbind_run register_steps)
  qed
qed

text \<open>The two writes, after the outside has answered.\<close>

lemma store_record:
  assumes "matches cs (holds b) s"
    and "pseq (on_backend (kv_insert_tx cs t)) (case ct_kind t of
           NeedsSpeedup _ \<Rightarrow> on_backend (kv_add_pending_speedup_parent cs (ct_txid t)) | _ \<Rightarrow> pret ()) (b, e) = (r, b', e')"
  shows "r = Inr () \<and> matches cs (holds b') (with_place t (insert_tx t s))
    \<or> \<not> healthy cs b \<and> (\<exists>msg. r = Inl (storage_error msg))
      \<and> (matches cs (holds b') s \<or> (\<exists>s' \<in> whole_or_partial t s. matches cs (holds b') s'))"
proof -
  obtain q b1 where put: "kv_insert_tx cs t b = (q, b1)" by fastforce
  have "performs s (kv_insert_tx cs t) (Inr ()) [PutTx t]"
    using performs_put_tx unfolding kv_insert_tx_def kv_update_tx_def .
  from this assms(1) put show ?thesis
  proof (cases rule: performsD)
    case returns
    note stored = returns
    show ?thesis
    proof (cases "needs_cpfp (ct_kind t)")
      case False
      then show ?thesis using assms(2) put stored
        by (auto simp: pseq_run register_steps pret_run with_place_def needs_cpfp_def split: tx_kind.splits)
    next
      case True
      obtain q2 b2 where pend: "kv_add_pending_speedup_parent cs (ct_txid t) b1 = (q2, b2)" by fastforce
      then have r: "r = q2" "b' = b2" using assms(2) put stored True
        by (auto simp: pseq_run register_steps needs_cpfp_def split: tx_kind.splits)
      have "matches cs (holds b1) (insert_tx t s)" using stored(2) by simp
      from performs_pend this pend show ?thesis
      proof (cases rule: performsD)
        case returns
        then show ?thesis using True r by (simp add: with_place_def apply_pend_writes)
      next
        case (breaks msg n)
        have "length (pend_writes (ct_txid t) (insert_tx t s)) \<le> 1" by (simp add: pend_writes_def)
        from take_atomic [OF this, of n]
        have "apply_writes (take n (pend_writes (ct_txid t) (insert_tx t s))) (insert_tx t s) \<in> whole_or_partial t s"
          using True by (auto simp: whole_or_partial_def with_place_def apply_pend_writes)
        then show ?thesis using breaks stored(3) r by blast
      qed
    qed
  next
    case (breaks msg n)
    then have "r = Inl (storage_error msg)" "b' = b1" using assms(2) put
      by (auto simp: pseq_run register_steps)
    moreover have "apply_writes (take n [PutTx t]) s \<in> {s, insert_tx t s}" by (cases n) simp_all
    ultimately show ?thesis using breaks by (auto simp: whole_or_partial_def)
  qed
qed

lemma registration_run:
  assumes "matches cs (holds b) s" "st_txs s (tx_compute_txid tx) = None"
    and "kv_register_tx cs cx tx kind c target trigger stuck (b, e) = (r, b', e')"
  shows "(\<exists>t. r = Inr () \<and> record_to_register cx e tx kind c target trigger stuck = Some t
        \<and> matches cs (holds b') (with_place t (insert_tx t s)))
    \<or> (\<exists>err. r = Inl err) \<and> matches cs (holds b') s
    \<or> (\<exists>t msg. r = Inl (storage_error msg) \<and> \<not> healthy cs b
        \<and> record_to_register cx e tx kind c target trigger stuck = Some t
        \<and> (\<exists>s' \<in> whole_or_partial t s. matches cs (holds b') s'))"
proof -
  obtain q b1 where get: "kv_get_tx_by_id cs (tx_compute_txid tx) b = (q, b1)" by fastforce
  from performs_get_tx assms(1) get show ?thesis
  proof (cases rule: performsD)
    case breaks
    then show ?thesis using assms(3) get by (auto simp: kv_register_tx_def Let_def pbind_run register_steps)
  next
    case returns
    then have q: "q = Inr None" and b1: "matches cs (holds b1) s" and well: "healthy cs b \<longrightarrow> healthy cs b1"
      using assms(2) by (simp_all add: get_tx_by_id_def)
    obtain h e1 where h: "sv_get_monitor_height (cx_services cx) e = (h, e1)" by fastforce
    obtain f e2 where f: "sv_get_estimated_fee_rate (cx_services cx) e1 = (f, e2)" by fastforce
    obtain rate news where rate: "get_network_fee_rate (bs_fee (cx_settings cx))
        (case f of Inr rate \<Rightarrow> Some rate | Inl _ \<Rightarrow> None) = (rate, news)" by fastforce
    obtain m e3 where m: "sv_monitor (cx_services cx) (Transactions [tx_compute_txid tx] c trigger) False e2 = (m, e3)"
      by fastforce
    show ?thesis
    proof (cases h)
      case (Inl x)
      then show ?thesis using assms(3) get q b1 h
        by (auto simp: kv_register_tx_def Let_def pbind_run register_steps)
    next
      case height: (Inr height)
      show ?thesis
      proof (cases m)
        case (Inl x)
        then show ?thesis using assms(3) get q b1 h height f m rate
          by (auto simp: kv_register_tx_def Let_def pbind_run pseq_run register_steps ptry_run)
      next
        case (Inr u)
        let ?t = "fresh_record tx kind c (unwrap_or target height) trigger stuck (compute_fee_for_tx tx rate)"
        have "pseq (on_backend (kv_insert_tx cs ?t)) (case ct_kind ?t of
           NeedsSpeedup _ \<Rightarrow> on_backend (kv_add_pending_speedup_parent cs (ct_txid ?t)) | _ \<Rightarrow> pret ()) (b1, e3) = (r, b', e')"
          using assms(3) get q h height f m Inr rate
          by (cases kind) (simp_all add: kv_register_tx_def Let_def pbind_run pseq_run register_steps ptry_run pret_run
            fresh_record_def)
        from store_record [OF b1 this] have "r = Inr () \<and> matches cs (holds b') (with_place ?t (insert_tx ?t s))
          \<or> \<not> healthy cs b1 \<and> (\<exists>msg. r = Inl (storage_error msg))
            \<and> (matches cs (holds b') s \<or> (\<exists>s' \<in> whole_or_partial ?t s. matches cs (holds b') s'))" .
        moreover have "record_to_register cx e tx kind c target trigger stuck = Some ?t"
          by (simp add: record_to_register_def h height f rate)
        ultimately show ?thesis using well by blast
      qed
    qed
  qed
qed

end

section \<open>All, nothing or a part\<close>

text \<open>
  C33. Registration over a backend that may fail. A call for a new transaction that returns has stored exactly the
  record asked for and, when the transaction needs a speedup, its place among the parents that wait for a CPFP. A
  call that fails on a backend that works, for an error of the monitor, has stored nothing. One that the backend
  breaks off may have stored the record alone. However much was stored, once the record is there every later
  call for the transaction, with whatever arguments, finds it known: it changes nothing and, if the backend
  works by then, reports success, so the missing place is never filled in.
\<close>

theorem registration_over_backend:
  fixes cx :: "'e engine_context"
  assumes "key_value_storage cs holds" and "matches cs (holds b) s" and "st_txs s (tx_compute_txid tx) = None"
    and "kv_register_tx cs cx tx kind c target trigger stuck (b, e) = (r, b', e')"
  shows "\<exists>s'. matches cs (holds b') s'
    \<and> (s' = s \<or> (\<exists>t. record_to_register cx e tx kind c target trigger stuck = Some t \<and> s' \<in> whole_or_partial t s))
    \<and> (r = Inr () \<longrightarrow> (\<exists>t. record_to_register cx e tx kind c target trigger stuck = Some t
         \<and> s' = with_place t (insert_tx t s)))
    \<and> (healthy cs b \<and> r \<noteq> Inr () \<longrightarrow> s' = s)
    \<and> (st_txs s' (tx_compute_txid tx) \<noteq> None \<longrightarrow>
         (\<forall>(cx' :: 'e engine_context) kind' c' target' trigger' stuck' e1 r2 b2 e2.
            kv_register_tx cs cx' tx kind' c' target' trigger' stuck' (b', e1) = (r2, b2, e2) \<longrightarrow>
            matches cs (holds b2) s' \<and> e2 = e1 \<and> (healthy cs b' \<longrightarrow> r2 = Inr ())))"
proof -
  note run = key_value_storage.registration_run [OF assms]
  have whole: "with_place t (insert_tx t s) \<in> whole_or_partial t s" for t by (simp add: whole_or_partial_def)
  obtain s' where s': "matches cs (holds b') s'"
    "s' = s \<or> (\<exists>t. record_to_register cx e tx kind c target trigger stuck = Some t \<and> s' \<in> whole_or_partial t s)"
    "r = Inr () \<longrightarrow> (\<exists>t. record_to_register cx e tx kind c target trigger stuck = Some t
         \<and> s' = with_place t (insert_tx t s))"
    "healthy cs b \<and> r \<noteq> Inr () \<longrightarrow> s' = s"
  proof -
    from run show thesis
    proof (elim disjE exE conjE bexE)
      fix t assume "r = Inr ()" "record_to_register cx e tx kind c target trigger stuck = Some t"
        "matches cs (holds b') (with_place t (insert_tx t s))"
      then show thesis using that [of "with_place t (insert_tx t s)"] whole [of t] by simp
    next
      fix err assume "r = Inl err" "matches cs (holds b') s"
      then show thesis using that [of s] by simp
    next
      fix t msg s' assume "r = Inl (storage_error msg)" "\<not> healthy cs b" "s' \<in> whole_or_partial t s"
        "record_to_register cx e tx kind c target trigger stuck = Some t" "matches cs (holds b') s'"
      then show thesis using that [of s'] by simp
    qed
  qed
  note again = key_value_storage.register_again [OF assms(1) s'(1)]
  have "matches cs (holds b2) s' \<and> e2 = e1 \<and> (healthy cs b' \<longrightarrow> r2 = Inr ())"
    if "st_txs s' (tx_compute_txid tx) \<noteq> None"
      "kv_register_tx cs cx' tx kind' c' target' trigger' stuck' (b', e1) = (r2, b2, e2)"
    for cx' :: "'e engine_context" and kind' c' target' trigger' stuck' e1 r2 b2 e2
    by (rule again [OF that])
  then show ?thesis by (intro exI [of _ s'] conjI allI impI s') blast+
qed

text \<open>
  The write of the waiting parents is lost: transaction 5 is stored but waits for no CPFP, and repeating the
  call on the backend that works again reports success and leaves it so.
\<close>

definition needy :: tx_kind where
  "needy = NeedsSpeedup \<lparr>sd_utxo = Some (plain_utxo 5), sd_partial_utxo = None, sd_rest = 0\<rparr>"

abbreviation register_five :: "fault list \<Rightarrow> flaky \<times> transaction list \<Rightarrow> (failure + unit) \<times> flaky \<times> transaction list" where
  "register_five fs w \<equiv> kv_register_tx flaky_storage (demo_context (demo_services (\<lambda>x. False))) (plain_tx 5) needy
     ''client'' None None None ((fst (fst w), fs), snd w)"

lemma five_broken:
  "\<exists>t. register_five [Works, Works, Works, Lost] (([], []), []) =
     (Inl (storage_error ''lost''), ([(path_of flaky_storage (KTx 5), CTx t)], []), [])"
  by (simp add: kv_register_tx_def Let_def register_steps pbind_run pseq_run ptry_run demo_context_def demo_services_def
      kv_get_tx_by_id_def kv_insert_tx_def kv_add_pending_speedup_parent_def needy_def flaky_run plain_tx_def
      split: prod.split)

theorem registration_over_backend_witness:
  "\<exists>t b2. register_five [Works, Works, Works, Lost] (([], []), []) =
       (Inl (storage_error ''lost''), ([(path_of flaky_storage (KTx 5), CTx t)], []), [])
     \<and> register_five [] (([(path_of flaky_storage (KTx 5), CTx t)], []), []) = (Inr (), b2, [])
     \<and> flaky_holds b2 (path_of flaky_storage KPendingSpeedupParents) \<in> {None, Some (CIds [])}"
proof -
  let ?cx = "demo_context (demo_services (\<lambda>x. False))" and ?p = "path_of flaky_storage"
  obtain t where broken: "register_five [Works, Works, Works, Lost] (([], []), []) =
      (Inl (storage_error ''lost''), ([(?p (KTx 5), CTx t)], []), [])"
    using five_broken by blast
  obtain r2 b2 e2 where second: "register_five [] (([(?p (KTx 5), CTx t)], []), []) = (r2, b2, e2)"
    by (metis prod.exhaust)
  have new: "st_txs empty_store (tx_compute_txid (plain_tx 5)) = None" by (simp add: empty_store_def)
  from registration_over_backend [OF flaky.key_value_storage_axioms flaky_empty new broken [unfolded fst_conv snd_conv]]
  obtain s' where s': "matches flaky_storage (flaky_holds ([(?p (KTx 5), CTx t)], [])) s'"
    and again: "st_txs s' (tx_compute_txid (plain_tx 5)) \<noteq> None \<Longrightarrow>
      (\<forall>cx' kind' c' target' trigger' stuck' e1 r2 b2 e2.
         kv_register_tx flaky_storage cx' (plain_tx 5) kind' c' target' trigger' stuck' (([(?p (KTx 5), CTx t)], []), e1)
           = (r2, b2, e2) \<longrightarrow>
         matches flaky_storage (flaky_holds b2) s' \<and> e2 = (e1 :: transaction list)
         \<and> (healthy flaky_storage ([(?p (KTx 5), CTx t)], []) \<longrightarrow> r2 = Inr ()))"
    by blast
  have "st_txs s' 5 = Some t" and none: "st_pending_parents s' = []"
    using s' by (cases "st_txs s' 5", auto simp: matches_def flaky_holds_def cell_formats_def holds_list_def
        split: if_splits dest!: spec [where x = 5])
  then have "st_txs s' (tx_compute_txid (plain_tx 5)) \<noteq> None" by (auto simp: plain_tx_def)
  from again [OF this, rule_format, OF second [unfolded fst_conv snd_conv]]
  have "r2 = Inr ()" "e2 = []" "matches flaky_storage (flaky_holds b2) s'"
    using flaky_healthy by blast+
  moreover from this(3) have "flaky_holds b2 (?p KPendingSpeedupParents) \<in> {None, Some (CIds [])}"
    using none by (auto simp: matches_def holds_list_def cell_formats_def)
  ultimately show ?thesis using broken second by blast
qed

end
