(* ===== verification/Reservations.thy ===== *)
theory Reservations
  imports Funding_Refinement
begin

text \<open>
  Reservations over time: what the engines and the client do to the funding of the store between the moment an output
  is handed out and the moment it is released, as events, and the invariant that keeps the output from being
  handed out again.
\<close>

section \<open>Events\<close>






section \<open>The invariant\<close>

















section \<open>Exclusive reservations\<close>









end
