(* ===== verification/Test_Support.thy ===== *)
theory Test_Support
  imports Store_Facts Dispatcher_Facts
begin

text \<open>
  The ground on which the unit tests of the repository are run against the model: the fixtures
  of \<open>src/test_utils/mod.rs\<close>, the assertions and \<open>unwrap\<close>s of a test, and what a test takes
  from other crates. A test is a program that panics where an assertion of the code fails; it
  passes when it returns from the empty storage.
\<close>

named_theorems test_simps \<open>how the fixtures and the steps of a test evaluate\<close>

section \<open>Other crates\<close>

text \<open>
  The hash \<open>sha256d\<close>, the random bytes a test draws (the argument numbers the draws), the
  construction of a \<open>bitcoin::Transaction\<close> from the outpoints its inputs spend and the
  values of its outputs, the public key of a fixed secret, \<open>SpeedupData::new\<close>, the order
  in which the backend scans, the node and the monitor a test starts with the monitor's default of a setting, and the
  reader of configuration files.
\<close>

record test_env =
  te_hash :: "8 word list \<Rightarrow> txid"
  te_random :: "nat \<Rightarrow> 8 word list"
  te_transaction :: "out_point list \<Rightarrow> u64 list \<Rightarrow> transaction"
  te_pub_key :: pub_key
  te_speedup_data :: "utxo \<Rightarrow> speedup_data"
  te_scan :: scan
  te_node :: "transaction list services"
  te_monitor_confirmations :: u32
  te_load_config_file :: "string \<Rightarrow> string + (unit, unit, unit) config"

text \<open>The settings of \<open>config/coordinator_config.yaml\<close>, as the file gives them.\<close>

definition shipped_settings :: bitcoin_settings where
  "shipped_settings =
     \<lparr>bs_coordinator = \<lparr>retry_interval_seconds = 5, retry_attempts_sending_tx = 3\<rparr>,
      bs_dispatcher = \<lparr>max_tx_weight = 400000\<rparr>,
      bs_fee = \<lparr>max_feerate_sat_vb = 1000, base_fee_multiplier_setting = Fin 1, min_safe_fee_rate = 1\<rparr>,
      bs_speedup = \<lparr>max_unconfirmed_speedups = 10, min_blocks_before_resend_speedup = 1,
        bump_fee_percentage = Fin (3 / 2)\<rparr>,
      bs_funding = \<lparr>min_funding_amount_sats = 10000\<rparr>,
      bs_storage = \<lparr>max_tracking_confirmations = 10\<rparr>,
      max_monitoring_confirmations = 6\<rparr>"

text \<open>The answer about a transaction that is neither in the mempool nor in the chain.\<close>

definition unseen :: "tx_status \<Rightarrow> bool" where
  "unseen st \<longleftrightarrow> \<not> is_in_mempool st \<and> \<not> is_confirmed st \<and> (\<forall>n. \<not> is_finalized st n)"

text \<open>
  What the tests rely on: no two byte strings they hash collide, the first twelve draws
  are different and 32 bytes long, a
  transaction has the inputs and outputs it was built with, its weight is that of its shape
  and between 2 and \<open>2 ^ 32\<close> for the small ones, the scan finds every record once, the new node has no estimate above 100 sat/vB and has seen no
  transaction, and of the two configuration files the first is that of the repository and the second is missing.
\<close>

locale test_environment =
  fixes e :: test_env
  assumes hash_inj: "inj (te_hash e)"
    and random_inj: "inj_on (te_random e) {..<12}"
    and random_length: "length (te_random e i) = 32"
    and transaction_input: "tx_input (te_transaction e ins outs) = ins"
    and transaction_output: "tx_output (te_transaction e ins outs) = outs"
    and transaction_weight: "length ins = length ins' \<Longrightarrow> length outs = length outs' \<Longrightarrow>
      tx_weight (te_transaction e ins outs) = tx_weight (te_transaction e ins' outs')"
    and small_transaction_weight: "length ins \<le> 1 \<Longrightarrow> length outs \<le> 1 \<Longrightarrow>
      unat (tx_weight (te_transaction e ins outs)) \<in> {2 ..< 2 ^ 32}"
    and scan: "scan_spec (te_scan e)"
    and estimate: "fst (sv_get_estimated_fee_rate (te_node e) w) = Inr r \<Longrightarrow> r \<le> 100"
    and new_node: "\<exists>st. unseen st \<and> sv_get_tx_status (te_node e) txid mempool w = (Inr st, w)"
    and shipped_file: "te_load_config_file e ''config/coordinator_config.yaml'' =
      Inr \<lparr>cfg_storage = (), cfg_rpc = (), cfg_key_manager = (), cfg_settings = shipped_settings\<rparr>"
    and missing_file: "\<exists>msg. te_load_config_file e ''config/does_not_exist.yaml'' = Inl msg"

section \<open>Fixtures\<close>

definition random_txid :: "test_env \<Rightarrow> nat \<Rightarrow> txid" where
  "random_txid e i = te_hash e (te_random e i)"

definition det_txid :: "test_env \<Rightarrow> 8 word \<Rightarrow> txid" where
  "det_txid e seed = te_hash e (replicate 32 seed)"

definition to_le_bytes :: "u64 \<Rightarrow> 8 word list" where
  "to_le_bytes n = map (\<lambda>i. ucast (drop_bit (8 * i) n)) [0..<8]"

definition new_utxo :: "test_env \<Rightarrow> txid \<Rightarrow> u32 \<Rightarrow> u64 \<Rightarrow> utxo" where
  "new_utxo e txid vout amount = \<lparr>u_txid = txid, u_vout = vout, u_amount = amount, u_pub_key = te_pub_key e\<rparr>"

definition test_utxo :: "test_env \<Rightarrow> u64 \<Rightarrow> utxo" where
  "test_utxo e amount = new_utxo e (te_hash e (to_le_bytes amount)) 0 amount"

definition empty_transaction :: "test_env \<Rightarrow> transaction" where
  "empty_transaction e = te_transaction e [] []"

definition unit_context :: "utxo list \<Rightarrow> speedup_context" where
  "unit_context inputs = \<lparr>sc_funding_inputs = inputs, sc_replaced_by = None, sc_bump_fee_used = Fin 1,
     sc_parent_data = [], sc_spent = False\<rparr>"

definition normal_coordinated_tx :: "test_env \<Rightarrow> 8 word \<Rightarrow> coordinated_tx" where
  "normal_coordinated_tx e seed =
     \<lparr>ct_txid = det_txid e seed, ct_tx = empty_transaction e, ct_kind = Normal, ct_state = ToDispatch,
      ct_target_block_height = 0, ct_confirmation_trigger = None, ct_stuck_in_mempool_blocks = None,
      ct_settled_block_height = None, ct_broadcast_block_height = None, ct_fail_guard_until = None,
      ct_retry_count = 0,
      ct_fee_info = \<lparr>fi_fee = 0, fi_fee_rate = 1, fi_package_fee_rate = 1, fi_weight = 0\<rparr>,
      ct_context = ''''\<rparr>"

definition cpfp_coordinated_tx :: "test_env \<Rightarrow> 8 word \<Rightarrow> u64 \<Rightarrow> coordinated_tx" where
  "cpfp_coordinated_tx e seed fee_rate =
     (let txid = det_txid e seed; t = normal_coordinated_tx e seed
      in t\<lparr>ct_kind := Speedup (CPFP [] (unit_context [new_utxo e txid 0 100000])),
           ct_state := InMempool,
           ct_fee_info := (ct_fee_info t)\<lparr>fi_fee_rate := fee_rate, fi_package_fee_rate := fee_rate\<rparr>\<rparr>)"

section \<open>Steps of a test\<close>

definition assert_that :: "bool \<Rightarrow> ('s, failure, unit) prog" where
  "assert_that b = (if b then pret () else pthrow (Panic ''assertion failed''))"

definition unwrap :: "'a option \<Rightarrow> ('s, failure, 'a) prog" where
  "unwrap x = (case x of Some y \<Rightarrow> pret y | None \<Rightarrow> pthrow (Panic ''unwrap on None''))"

definition unwrap_ok :: "'a result \<Rightarrow> ('s, failure, 'a) prog" where
  "unwrap_ok r = (case r of Inr y \<Rightarrow> pret y | Inl _ \<Rightarrow> pthrow (Panic ''unwrap on Err''))"

text \<open>\<open>call(..).unwrap()\<close>, an assertion on the storage, and the steps of a test in their order.\<close>

definition succeeds :: "('s, failure, 'a) prog \<Rightarrow> ('s, failure, 'a) prog" where
  "succeeds m = pbind (ptry m) unwrap_ok"

definition check :: "('s \<Rightarrow> bool) \<Rightarrow> ('s, failure, unit) prog" where
  "check P = pbind (pget P) assert_that"

fun steps :: "('s, failure, unit) prog list \<Rightarrow> ('s, failure, unit) prog" where
  "steps [] = pret ()"
| "steps (m # ms) = pseq m (steps ms)"

definition passes :: "unit store_prog \<Rightarrow> bool" where
  "passes test = (fst (test empty_store) = Inr ())"

text \<open>\<open>get_tx_by_id(txid).unwrap().unwrap()\<close> and \<open>get_funding_record(op).unwrap().unwrap()\<close>.\<close>

definition stored_tx :: "txid \<Rightarrow> coordinated_tx store_prog" where
  "stored_tx txid = pbind (pget (get_tx_by_id txid)) unwrap"

definition is_err :: "'a result \<Rightarrow> bool" where
  "is_err r = (case r of Inl _ \<Rightarrow> True | Inr _ \<Rightarrow> False)"

definition contains_tx :: "coordinated_tx list \<Rightarrow> coordinated_tx \<Rightarrow> bool" where
  "contains_tx ts t = (\<exists>x \<in> set ts. coordinated_tx_eq x t)"

lemma steps_run [test_simps]:
  "assert_that b s = (if b then (Inr (), s) else (Inl (Panic ''assertion failed''), s))"
  "unwrap None s = (Inl (Panic ''unwrap on None''), s)"
  "unwrap (Some y) s = (Inr y, s)"
  "unwrap_ok (Inr z) s = (Inr z, s)"
  "check P s = (if P s then (Inr (), s) else (Inl (Panic ''assertion failed''), s))"
  by (simp_all add: assert_that_def unwrap_def unwrap_ok_def check_def prog_simps)

text \<open>
  A test is evaluated from its first step on: the steps that are left are not looked at before the
  storage they start from is known.
\<close>

lemma steps_cong: "s = s' \<Longrightarrow> steps ms s = steps ms s'"
  by simp

lemma pbind_cong: "m = m' \<Longrightarrow> s = s' \<Longrightarrow> pbind m f s = pbind m' f s'"
  by simp

declare steps_cong [cong] pbind_cong [cong]

declare prog_simps [test_simps]

lemmas test_start [test_simps] = passes_def Let_def empty_store_def succeeds_def stored_tx_def

lemmas fixture_defs [test_simps] = new_utxo_def unit_context_def

lemma is_err_simps [simp]: "is_err (Inl e)" "\<not> is_err (Inr x)"
  by (simp_all add: is_err_def)

section \<open>Facts of every environment\<close>

lemma bit_to_le_bytes:
  assumes "n < 64"
  shows "bit a n \<longleftrightarrow> bit (to_le_bytes a ! (n div 8)) (n mod 8)"
proof -
  have "n div 8 < 8" using assms by (simp add: less_mult_imp_div_less)
  then show ?thesis by (simp add: to_le_bytes_def bit_ucast_iff bit_drop_bit_eq)
qed

lemma to_le_bytes_inj: "to_le_bytes a = to_le_bytes b \<longleftrightarrow> a = b"
  by (auto intro: bit_word_eqI simp: bit_to_le_bytes)

lemma distinct_one: "distinct xs \<Longrightarrow> set xs = {a} \<Longrightarrow> xs = [a]"
  by (cases xs) (auto simp: subset_singleton_iff)

lemma distinct_two:
  assumes "distinct xs" "set xs = {a, b}" "a \<noteq> b"
  shows "xs = [a, b] \<or> xs = [b, a]"
proof -
  have "length xs = 2" using assms distinct_card [of xs] by simp
  then obtain x y where "xs = [x, y]" by (auto simp: numeral_2_eq_2 length_Suc_conv)
  with assms show ?thesis by (auto simp: doubleton_eq_iff)
qed

context test_environment
begin

lemma random_txid_eq [test_simps]: "i < 12 \<Longrightarrow> j < 12 \<Longrightarrow> random_txid e i = random_txid e j \<longleftrightarrow> i = j"
  using hash_inj random_inj by (auto simp: random_txid_def dest: injD inj_onD)

lemma det_txid_eq [test_simps]: "det_txid e a = det_txid e b \<longleftrightarrow> a = b"
  using hash_inj by (auto simp: det_txid_def dest: injD)

lemma le_bytes_eq [test_simps]: "te_hash e (to_le_bytes a) = te_hash e (to_le_bytes b) \<longleftrightarrow> a = b"
  using hash_inj by (auto simp: to_le_bytes_inj dest: injD)

lemma le_bytes_txid [test_simps]: "te_hash e (to_le_bytes a) \<noteq> det_txid e b" "det_txid e b \<noteq> te_hash e (to_le_bytes a)"
proof -
  have "length (to_le_bytes a) \<noteq> length (replicate 32 b)" by (simp add: to_le_bytes_def)
  then show "te_hash e (to_le_bytes a) \<noteq> det_txid e b"
    using hash_inj unfolding det_txid_def by (metis injD)
  then show "det_txid e b \<noteq> te_hash e (to_le_bytes a)" by simp
qed

declare transaction_input [test_simps] transaction_output [test_simps]

text \<open>The order of a scan over one or two records.\<close>

lemma scan_set: "finite (dom m) \<Longrightarrow> distinct (te_scan e m) \<and> set (te_scan e m) = dom m"
  using scan by (simp add: scan_spec_def)

lemma scan_one [test_simps]: "te_scan e [a \<mapsto> x] = [a]"
  using scan_set [of "[a \<mapsto> x]"] by (simp add: distinct_one)

lemma scan_two: "a \<noteq> b \<Longrightarrow> te_scan e [a \<mapsto> x, b \<mapsto> y] \<in> {[a, b], [b, a]}"
  using scan_set [of "[a \<mapsto> x, b \<mapsto> y]"] distinct_two [of "te_scan e [a \<mapsto> x, b \<mapsto> y]" a b]
  by (auto simp: insert_commute)

end

section \<open>An environment\<close>

text \<open>
  An instance: byte strings hash to the numbers they denote to the base 257, a draw is its number, and a transaction
  weighs what an unsigned one with empty scripts does.
\<close>

fun digits_hash :: "8 word list \<Rightarrow> txid" where
  "digits_hash [] = 0"
| "digits_hash (b # bs) = unat b + 1 + 257 * digits_hash bs"

definition shape_weight :: "out_point list \<Rightarrow> u64 list \<Rightarrow> u64" where
  "shape_weight ins outs = 40 + 164 * of_nat (length ins) + 36 * of_nat (length outs)"

definition plain_env :: test_env where
  "plain_env =
     \<lparr>te_hash = digits_hash,
      te_random = (\<lambda>i. replicate 31 0 @ [word_of_nat i]),
      te_transaction = (\<lambda>ins outs. \<lparr>tx_input = ins, tx_output = outs,
        tx_vsize = shape_weight ins outs div 4, tx_weight = shape_weight ins outs,
        tx_compute_txid = (case ins of [] \<Rightarrow> 0 | op # _ \<Rightarrow> Suc (unat (op_vout op)))\<rparr>),
      te_pub_key = 0,
      te_speedup_data = (\<lambda>u. \<lparr>sd_utxo = Some u, sd_partial_utxo = None, sd_rest = 0\<rparr>),
      te_scan = sorted_scan,
      te_node = demo_services (\<lambda>_. False),
      te_monitor_confirmations = 6,
      te_load_config_file = (\<lambda>path. if path = ''config/coordinator_config.yaml''
        then Inr \<lparr>cfg_storage = (), cfg_rpc = (), cfg_key_manager = (), cfg_settings = shipped_settings\<rparr>
        else Inl ''no such file'')\<rparr>"

lemma digits_hash_inj: "digits_hash xs = digits_hash ys \<Longrightarrow> xs = ys"
proof (induction xs arbitrary: ys)
  case Nil
  then show ?case by (cases ys) simp_all
next
  case (Cons b bs)
  obtain c cs where ys: "ys = c # cs" using Cons.prems by (cases ys) simp_all
  have eq: "unat b + 257 * digits_hash bs = unat c + 257 * digits_hash cs"
    using Cons.prems by (simp add: ys)
  have small: "unat b < 257" "unat c < 257" using unsigned_less [of b, where ?'a = nat] unsigned_less [of c, where ?'a = nat] by simp_all
  have "unat b = unat c" using arg_cong [OF eq, of "\<lambda>n. n mod 257"] small by simp
  moreover have "digits_hash bs = digits_hash cs" using eq calculation by simp
  ultimately show ?case using Cons.IH by (simp add: ys word_unat_eq_iff)
qed

interpretation plain: test_environment plain_env
proof
  show "inj (te_hash plain_env)" by (auto simp: plain_env_def intro: injI digits_hash_inj)
  show "inj_on (te_random plain_env) {..<12}"
    by (auto simp: plain_env_def inj_on_def of_nat_inverse word_unat_eq_iff unat_of_nat)
  show "scan_spec (te_scan plain_env)" by (simp add: plain_env_def sorted_scan_spec)
  show "unat (tx_weight (te_transaction plain_env ins outs)) \<in> {2 ..< 2 ^ 32}"
    if "length ins \<le> 1" "length outs \<le> 1" for ins outs
    using that by (cases ins; cases outs) (simp_all add: plain_env_def shape_weight_def)
qed (simp_all add: plain_env_def shape_weight_def demo_services_def demo_status_def unseen_def prog_simps)

end
