(* ===== verification/Storage_Tests.thy ===== *)
theory Storage_Tests
  imports Test_Support Funding_Facts
begin

text \<open>
  The unit tests of \<open>src/core/storage.rs\<close>, one definition each, and that the model passes them. The numbers of
  the random ids of a test are those of its draws. Creating the storage and removing its files are not modelled.
\<close>

section \<open>Fixtures\<close>

definition dummy_tx :: "test_env \<Rightarrow> txid \<Rightarrow> transaction_state \<Rightarrow> coordinated_tx" where
  "dummy_tx e txid st =
     \<lparr>ct_txid = txid, ct_tx = te_transaction e [] [], ct_kind = Normal, ct_state = st,
      ct_target_block_height = 0, ct_confirmation_trigger = None, ct_stuck_in_mempool_blocks = None,
      ct_settled_block_height = None, ct_broadcast_block_height = None, ct_fail_guard_until = None,
      ct_retry_count = 0,
      ct_fee_info = \<lparr>fi_fee = 1000, fi_fee_rate = 1, fi_package_fee_rate = 1, fi_weight = 100\<rparr>,
      ct_context = ''test''\<rparr>"

definition speedup_ctx_spent :: "txid \<Rightarrow> bool store_prog" where
  "speedup_ctx_spent txid =
     pbind (stored_tx txid) (\<lambda>t. pbind (unwrap_ok (speedup_kind_of t)) (\<lambda>k. pret (sc_spent (context_of k))))"

section \<open>Records and states\<close>

definition test_insert_get_remove_tx :: "test_env \<Rightarrow> unit store_prog" where
  "test_insert_get_remove_tx e =
     (let txid = random_txid e 0; t = dummy_tx e txid ToDispatch in steps
       [pmodify (insert_tx t),
        pbind (stored_tx txid) (\<lambda>fetched. steps
          [assert_that (ct_txid fetched = ct_txid t), assert_that (ct_state fetched = ct_state t)]),
        pmodify (remove_tx txid),
        check (\<lambda>s. get_tx_by_id txid s = None)])"

definition test_get_all_txs :: "test_env \<Rightarrow> unit store_prog" where
  "test_get_all_txs e =
     (let tx1 = dummy_tx e (random_txid e 0) ToDispatch; tx2 = dummy_tx e (random_txid e 1) InMempool in steps
       [pmodify (insert_txs [tx1, tx2]),
        pbind (pget (get_all_txs (te_scan e))) (\<lambda>all. steps
          [assert_that (length all = 2), assert_that (contains_tx all tx1), assert_that (contains_tx all tx2)])])"

text \<open>A state change that succeeds, the state it leaves, and no news of it.\<close>

definition moves_to :: "txid \<Rightarrow> transaction_state \<Rightarrow> unit store_prog" where
  "moves_to txid st = steps
     [succeeds (update_tx_state txid st),
      pbind (stored_tx txid) (\<lambda>updated. assert_that (ct_state updated = st)),
      check (\<lambda>s. get_news s = [])]"

definition test_update_tx_state :: "test_env \<Rightarrow> unit store_prog" where
  "test_update_tx_state e =
     (let txid = random_txid e 0; t = dummy_tx e txid ToDispatch in steps
       [pmodify (insert_tx t),
        moves_to txid InMempool,
        moves_to txid Confirmed,
        moves_to txid ToDispatch])"

definition test_crash_recovery_state_transitions :: "test_env \<Rightarrow> unit store_prog" where
  "test_crash_recovery_state_transitions e =
     (let txid1 = random_txid e 0; txid2 = random_txid e 1; txid3 = random_txid e 2 in steps
       [pmodify (insert_tx (dummy_tx e txid1 InMempool)),
        succeeds (settle_tx txid1 Finalized 0),
        check (\<lambda>s. get_news s = []),
        pmodify (insert_tx (dummy_tx e txid2 ToDispatch)),
        succeeds (update_tx_state txid2 Confirmed),
        check (\<lambda>s. get_news s = []),
        pmodify (insert_tx (dummy_tx e txid3 ToDispatch)),
        succeeds (settle_tx txid3 Finalized 0),
        check (\<lambda>s. get_news s = [])])"

definition test_update_tx_state_not_found :: "test_env \<Rightarrow> unit store_prog" where
  "test_update_tx_state_not_found e =
     (let txid = random_txid e 0 in steps
       [succeeds (update_tx_state txid InMempool),
        pbind (pget get_news) (\<lambda>news. steps
          [assert_that (length news = 1), assert_that (news ! 0 = TxNotFound txid)])])"

definition test_mark_as_retry_success :: "test_env \<Rightarrow> unit store_prog" where
  "test_mark_as_retry_success e =
     (let txid = random_txid e 0; t = dummy_tx e txid InMempool in steps
       [pmodify (insert_tx t),
        pmodify (mark_as_retry txid),
        pbind (stored_tx txid) (\<lambda>updated. steps
          [assert_that (ct_state updated = ToDispatch), assert_that (ct_retry_count updated = 1)])])"

section \<open>News\<close>

definition test_add_and_get_news :: "test_env \<Rightarrow> unit store_prog" where
  "test_add_and_get_news e =
     (let news_item = TxNotFound (random_txid e 0);
          shows_it = pbind (pget get_news) (\<lambda>news. steps
            [assert_that (length news = 1), assert_that (news ! 0 = news_item)])
      in steps
       [pmodify (note_news news_item),
        shows_it,
        shows_it])"

definition test_ack_news :: "test_env \<Rightarrow> unit store_prog" where
  "test_ack_news e =
     (let news_item1 = TxNotFound (random_txid e 0);
          news_item2 = InvalidStateTransition (random_txid e 1) InMempool Finalized
      in steps
       [pmodify (note_news news_item1),
        pmodify (note_news news_item2),
        pmodify (ack_news_item news_item1 10),
        pbind (pget get_news) (\<lambda>news. steps
          [assert_that (length news = 1), assert_that (news ! 0 = news_item2)]),
        check (\<lambda>s. get_news s = [news_item2]),
        pmodify (cleanup_news 11),
        pbind (pget get_news) (\<lambda>news. steps
          [assert_that (length news = 1), assert_that (news ! 0 = news_item2)])])"

definition test_add_news_dedup :: "test_env \<Rightarrow> unit store_prog" where
  "test_add_news_dedup e =
     (let news = FundingNotAvailable in steps
       [pmodify (note_news news),
        pmodify (note_news news),
        pmodify (note_news news),
        check (\<lambda>s. length (get_news s) = 1),
        check (\<lambda>s. length (get_news s) = 1)])"

definition test_add_news_distinct_items_both_stored :: "test_env \<Rightarrow> unit store_prog" where
  "test_add_news_distinct_items_both_stored e =
     (let item1 = FundingNotAvailable; item2 = EstimateFeerateTooHigh 50 10 in steps
       [pmodify (note_news item1),
        pmodify (note_news item2),
        pbind (pget get_news) (\<lambda>returned. steps
          [assert_that (length returned = 2), assert_that (item1 \<in> set returned),
           assert_that (item2 \<in> set returned)])])"

definition test_ack_blocks_readd_until_cleanup :: "test_env \<Rightarrow> unit store_prog" where
  "test_ack_blocks_readd_until_cleanup e =
     (let news = FundingNotAvailable in steps
       [pmodify (note_news news),
        pbind (pget get_news) (\<lambda>_. pret ()),
        pmodify (ack_news_item news 10),
        check (\<lambda>s. get_news s = []),
        check (\<lambda>s. get_news s = []),
        pmodify (note_news news),
        check (\<lambda>s. get_news s = []),
        pmodify (cleanup_news 11),
        check (\<lambda>s. get_news s = []),
        pmodify (note_news news),
        check (\<lambda>s. length (get_news s) = 1)])"

definition test_cleanup_same_block_keeps_item :: "test_env \<Rightarrow> unit store_prog" where
  "test_cleanup_same_block_keeps_item e =
     (let news = FundingNotAvailable in steps
       [pmodify (note_news news),
        pmodify (ack_news_item news 5),
        pmodify (cleanup_news 5),
        check (\<lambda>s. get_news s = []),
        pmodify (cleanup_news 6),
        pmodify (note_news news),
        check (\<lambda>s. length (get_news s) = 1)])"

section \<open>Settling and eviction\<close>

definition test_settle_tx_records_height :: "test_env \<Rightarrow> unit store_prog" where
  "test_settle_tx_records_height e =
     (let txid = random_txid e 0 in steps
       [pmodify (insert_tx (dummy_tx e txid InMempool)),
        succeeds (settle_tx txid Finalized 42),
        pbind (stored_tx txid) (\<lambda>updated. steps
          [assert_that (ct_state updated = Finalized),
           assert_that (ct_settled_block_height updated = Some 42)]),
        check (\<lambda>s. get_news s = [])])"

text \<open>The test's storage has the default settings.\<close>

definition evict :: "test_env \<Rightarrow> block_height \<Rightarrow> unit store_prog" where
  "evict e h = pmodify (evict_stale_txs default_storage_settings (te_scan e) h)"

definition is_eviction_of :: "txid \<Rightarrow> coordinator_news \<Rightarrow> bool" where
  "is_eviction_of x n = (case n of TransactionEvicted txid _ \<Rightarrow> txid = x | _ \<Rightarrow> False)"

definition test_evict_stale_txs :: "test_env \<Rightarrow> unit store_prog" where
  "test_evict_stale_txs e =
     (let txid_stale = random_txid e 0; txid_fresh = random_txid e 1;
          stale = dummy_tx e txid_stale Finalized\<lparr>ct_settled_block_height := Some 5\<rparr>;
          fresh = dummy_tx e txid_fresh Finalized\<lparr>ct_settled_block_height := Some 10\<rparr>
      in steps
       [pmodify (insert_tx stale),
        pmodify (insert_tx fresh),
        evict e 16,
        check (\<lambda>s. get_tx_by_id txid_stale s = None),
        check (\<lambda>s. get_tx_by_id txid_fresh s \<noteq> None),
        pbind (pget get_news) (\<lambda>news. steps
          [assert_that (length news = 1), assert_that (is_eviction_of txid_stale (news ! 0))])])"

definition test_remove_tx_cleans_speedup_list :: "test_env \<Rightarrow> unit store_prog" where
  "test_remove_tx_cleans_speedup_list e =
     (let txid1 = random_txid e 0; txid2 = random_txid e 1 in steps
       [pmodify (insert_speedup (dummy_tx e txid1 InMempool)),
        pmodify (insert_speedup (dummy_tx e txid2 InMempool)),
        check (\<lambda>s. length (get_speedups_ordered s) = 2),
        pmodify (remove_tx txid1),
        pbind (pget get_speedups_ordered) (\<lambda>remaining. steps
          [assert_that (length remaining = 1), assert_that (ct_txid (remaining ! 0) = txid2)])])"

definition test_evict_speedup_removes_from_list :: "test_env \<Rightarrow> unit store_prog" where
  "test_evict_speedup_removes_from_list e =
     (let txid_stale = random_txid e 0; txid_active = random_txid e 1;
          stale = dummy_tx e txid_stale Finalized\<lparr>ct_settled_block_height := Some 5\<rparr>
      in steps
       [pmodify (insert_speedup stale),
        pmodify (insert_speedup (dummy_tx e txid_active InMempool)),
        check (\<lambda>s. length (get_speedups_ordered s) = 2),
        evict e 16,
        pbind (pget get_speedups_ordered) (\<lambda>remaining. steps
          [assert_that (length remaining = 1), assert_that (ct_txid (remaining ! 0) = txid_active)])])"

definition test_reorg_does_not_remove_from_speedup_list :: "test_env \<Rightarrow> unit store_prog" where
  "test_reorg_does_not_remove_from_speedup_list e =
     (let txid = random_txid e 0;
          t = dummy_tx e txid Confirmed\<lparr>ct_broadcast_block_height := Some 10\<rparr>
      in steps
       [pmodify (insert_speedup t),
        succeeds (update_tx_state txid InMempool),
        pbind (pget get_speedups_ordered) (\<lambda>speedups. steps
          [assert_that (length speedups = 1), assert_that (ct_state (speedups ! 0) = InMempool)])])"

section \<open>Waiting parents\<close>

definition test_pending_parents_keep_confirmed_and_finalized :: "test_env \<Rightarrow> unit store_prog" where
  "test_pending_parents_keep_confirmed_and_finalized e =
     (let in_mempool_id = random_txid e 0; confirmed_id = random_txid e 1;
          finalized_id = random_txid e 2; failed_id = random_txid e 3
      in steps
       [pmodify (insert_tx (dummy_tx e in_mempool_id InMempool)),
        pmodify (insert_tx (dummy_tx e confirmed_id Confirmed)),
        pmodify (insert_tx (dummy_tx e finalized_id Finalized\<lparr>ct_settled_block_height := Some 1\<rparr>)),
        pmodify (insert_tx (dummy_tx e failed_id Failed\<lparr>ct_settled_block_height := Some 1\<rparr>)),
        pfor [in_mempool_id, confirmed_id, finalized_id, failed_id]
          (\<lambda>txid. pmodify (add_pending_speedup_parent txid)),
        pbind (pstep get_pending_speedup_parents) (\<lambda>returned.
          let returned_ids = map ct_txid returned in steps
          [assert_that (length returned = 3), assert_that (in_mempool_id \<in> set returned_ids),
           assert_that (confirmed_id \<in> set returned_ids), assert_that (finalized_id \<in> set returned_ids),
           assert_that (failed_id \<notin> set returned_ids)]),
        pbind (pstep get_pending_speedup_parents) (\<lambda>again.
          let again_ids = map ct_txid again in steps
          [assert_that (length again_ids = 3), assert_that (in_mempool_id \<in> set again_ids),
           assert_that (confirmed_id \<in> set again_ids), assert_that (finalized_id \<in> set again_ids)])])"

definition test_evict_stale_keeps_needs_speedup_parent :: "test_env \<Rightarrow> unit store_prog" where
  "test_evict_stale_keeps_needs_speedup_parent e =
     (let txid = random_txid e 0;
          t = dummy_tx e txid Finalized
            \<lparr>ct_kind := NeedsSpeedup (te_speedup_data e (new_utxo e txid 0 100000)),
             ct_settled_block_height := Some 1\<rparr>
      in steps
       [pmodify (insert_tx t),
        pmodify (add_pending_speedup_parent txid),
        evict e 100,
        check (\<lambda>s. get_tx_by_id txid s \<noteq> None),
        check (\<lambda>s. get_news s = []),
        pmodify (remove_pending_speedup_parent txid),
        evict e 100,
        check (\<lambda>s. get_tx_by_id txid s = None)])"

definition test_evict_stale_keeps_parent_under_live_coverage :: "test_env \<Rightarrow> unit store_prog" where
  "test_evict_stale_keeps_parent_under_live_coverage e =
     (let parent_id = random_txid e 0; cpfp_id = random_txid e 1;
          parent = dummy_tx e parent_id Finalized
            \<lparr>ct_kind := NeedsSpeedup (te_speedup_data e (new_utxo e parent_id 0 100000)),
             ct_settled_block_height := Some 1\<rparr>;
          cpfp = dummy_tx e cpfp_id InMempool
            \<lparr>ct_kind := Speedup (CPFP [parent_id] (unit_context [new_utxo e parent_id 0 100000]))\<rparr>
      in steps
       [pmodify (insert_tx parent),
        pmodify (insert_speedup cpfp),
        evict e 100,
        check (\<lambda>s. get_tx_by_id parent_id s \<noteq> None),
        succeeds (settle_tx cpfp_id Failed 100),
        evict e 200,
        check (\<lambda>s. get_tx_by_id parent_id s = None)])"

text \<open>The list of waiting parents as the backend has it under its key.\<close>

definition test_pending_speedup_parents_prepend_and_requeue :: "test_env \<Rightarrow> unit store_prog" where
  "test_pending_speedup_parents_prepend_and_requeue e =
     (let p1 = random_txid e 0; p2 = random_txid e 1; p3 = random_txid e 2; p4 = random_txid e 3;
          np1 = random_txid e 4; np2 = random_txid e 5; p_speedup = random_txid e 6;
          p_missing = random_txid e 7; failed_cpfp_id = random_txid e 8;
          needs_speedup = (\<lambda>txid. dummy_tx e txid Finalized
            \<lparr>ct_kind := NeedsSpeedup (te_speedup_data e (new_utxo e txid 0 100))\<rparr>);
          p_sp = dummy_tx e p_speedup InMempool
            \<lparr>ct_kind := Speedup (CPFP [] (unit_context [new_utxo e p_speedup 0 100]))\<rparr>;
          failed = dummy_tx e failed_cpfp_id Failed
            \<lparr>ct_kind := Speedup (CPFP [np1, np2, p_speedup, p_missing]
                         (unit_context [new_utxo e failed_cpfp_id 0 100]))\<rparr>;
          failed_rbf = dummy_tx e (random_txid e 9) Failed
            \<lparr>ct_kind := Speedup (RBF failed_cpfp_id [] (unit_context []))\<rparr>
      in steps
       [pmodify (add_pending_speedup_parent p3),
        pmodify (prepend_pending_speedup_parents [p1, p2]),
        pmodify (prepend_pending_speedup_parents [p2, p4]),
        check (\<lambda>s. st_pending_parents s = [p4, p1, p2, p3]),
        pmodify (prepend_pending_speedup_parents []),
        check (\<lambda>s. st_pending_parents s = [p4, p1, p2, p3]),
        pmodify (insert_tx (needs_speedup np1)),
        pmodify (insert_tx (needs_speedup np2)),
        pmodify (insert_tx p_sp),
        pmodify (requeue_protocol_parents failed),
        check (\<lambda>s. st_pending_parents s = [np1, np2, p4, p1, p2, p3]),
        pmodify (requeue_protocol_parents failed_rbf),
        check (\<lambda>s. st_pending_parents s = [np1, np2, p4, p1, p2, p3])])"

section \<open>Queries and error paths\<close>

definition test_get_by_state_and_exists :: "test_env \<Rightarrow> unit store_prog" where
  "test_get_by_state_and_exists e =
     (let id1 = random_txid e 0; id2 = random_txid e 1 in steps
       [pmodify (insert_tx (dummy_tx e id1 ToDispatch)),
        pmodify (insert_tx (dummy_tx e id2 InMempool)),
        check (\<lambda>s. length (get_by_state (te_scan e) ToDispatch s) = 1),
        check (\<lambda>s. length (get_by_state (te_scan e) InMempool s) = 1),
        check (\<lambda>s. get_by_state (te_scan e) Confirmed s = []),
        check (\<lambda>s. tx_exists id1 s),
        check (\<lambda>s. tx_exists id2 s),
        pmodify (remove_tx id1),
        check (\<lambda>s. \<not> tx_exists id1 s)])"

text \<open>The first piece of news is \<open>n\<close>; without news the access panics.\<close>

definition first_news_is :: "coordinator_news \<Rightarrow> unit store_prog" where
  "first_news_is n = check (\<lambda>s. case get_news s of first # _ \<Rightarrow> first = n | [] \<Rightarrow> False)"

definition test_invalid_state_and_retry_error_paths :: "test_env \<Rightarrow> unit store_prog" where
  "test_invalid_state_and_retry_error_paths e =
     (let missing = random_txid e 0; txid = random_txid e 1; missing2 = random_txid e 2;
          t = dummy_tx e txid Finalized\<lparr>ct_settled_block_height := Some 1\<rparr>
      in steps
       [succeeds (update_tx_state missing InMempool),
        first_news_is (TxNotFound missing),
        pmodify (ack_news_item (TxNotFound missing) 1),
        pmodify (cleanup_news 2),
        pmodify (insert_tx t),
        succeeds (update_tx_state txid InMempool),
        first_news_is (InvalidStateTransition txid Finalized InMempool),
        pbind (stored_tx txid) (\<lambda>stored. assert_that (ct_state stored = Finalized)),
        pmodify (ack_news_item (InvalidStateTransition txid Finalized InMempool) 2),
        pmodify (cleanup_news 3),
        pmodify (mark_as_retry missing2),
        first_news_is (TxNotFound missing2),
        pmodify (ack_news_item (TxNotFound missing2) 3),
        pmodify (cleanup_news 4),
        pmodify (mark_as_retry txid),
        first_news_is (InvalidStateTransition txid Finalized ToDispatch),
        pbind (stored_tx txid) (\<lambda>stored. assert_that (ct_retry_count stored = 0))])"

section \<open>The funding queue\<close>

text \<open>The id of a fixture is a fresh draw.\<close>

definition cpfp_with_change ::
    "test_env \<Rightarrow> nat \<Rightarrow> utxo list \<Rightarrow> u64 \<Rightarrow> transaction_state \<Rightarrow> coordinated_tx" where
  "cpfp_with_change e draw funding_inputs change_sats st =
     dummy_tx e (random_txid e draw) st
       \<lparr>ct_tx := te_transaction e [] [change_sats],
        ct_kind := Speedup (CPFP [] (unit_context funding_inputs))\<rparr>"

definition record_at :: "out_point \<Rightarrow> funding_data store_prog" where
  "record_at op = pbind (pget (get_funding_record op)) unwrap"

definition test_funding_storage_surface :: "test_env \<Rightarrow> unit store_prog" where
  "test_funding_storage_surface e =
     (let shared = random_txid e 0; s_id = random_txid e 1; normal_id = random_txid e 2;
          u1 = new_utxo e shared 0 1000; u2 = new_utxo e shared 1 2000; op1 = OutPoint shared 0;
          t = dummy_tx e s_id InMempool
            \<lparr>ct_kind := Speedup (CPFP [] (unit_context [new_utxo e s_id 0 100000]))\<rparr>
      in steps
       [check (\<lambda>s. read_funding_records s = []),
        pmodify (append_funding u1),
        pmodify (append_funding u2),
        pbind (pget read_funding_records) (\<lambda>records. steps
          [assert_that (length records = 2),
           assert_that (fd_utxo (records ! 0) = u1),
           assert_that (fd_utxo (records ! 1) = u2),
           assert_that (\<not> fd_spent (records ! 0) \<and> \<not> fd_spent (records ! 1)),
           assert_that (\<not> fd_from_speedup (records ! 0) \<and> \<not> fd_from_speedup (records ! 1))]),
        pmodify (set_spent op1 True),
        pbind (record_at op1) (\<lambda>r. assert_that (fd_spent r)),
        pbind (record_at (OutPoint shared 1)) (\<lambda>r. assert_that (\<not> fd_spent r)),
        pmodify (set_spent op1 False),
        pbind (record_at op1) (\<lambda>r. assert_that (\<not> fd_spent r)),
        pmodify (insert_tx t),
        pmodify (set_spent (OutPoint s_id 0) True),
        pbind (speedup_ctx_spent s_id) assert_that,
        pmodify (set_spent (OutPoint s_id 0) False),
        pbind (speedup_ctx_spent s_id) (\<lambda>spent. assert_that (\<not> spent)),
        pmodify (insert_tx (dummy_tx e normal_id Finalized)),
        pmodify (set_spent (OutPoint normal_id 0) True),
        pmodify (set_spent (OutPoint (random_txid e 3) 0) True),
        pmodify clear_funding_records,
        check (\<lambda>s. read_funding_records s = []),
        check (\<lambda>s. get_funding_record op1 s = None),
        check (\<lambda>s. get_funding_record (OutPoint shared 1) s = None)])"

definition listed :: "txid \<Rightarrow> store \<Rightarrow> bool" where
  "listed txid s = (\<exists>t \<in> set (get_speedups_ordered s). ct_txid t = txid)"

definition test_replace_funding_on_finalize_lifecycle :: "test_env \<Rightarrow> unit store_prog" where
  "test_replace_funding_on_finalize_lifecycle e =
     (let u1 = new_utxo e (random_txid e 0) 0 100000;
          s1 = cpfp_with_change e 1 [u1] 90000 InMempool;
          u2 = new_utxo e (random_txid e 2) 0 50000;
          s1_change = new_utxo e (ct_txid s1) 0 90000;
          s2 = cpfp_with_change e 3 [s1_change, u2] 130000 InMempool
      in steps
       [pmodify (append_funding u1),
        pmodify (insert_speedup s1),
        succeeds (settle_tx (ct_txid s1) Finalized 1),
        succeeds (replace_funding_on_finalize (ct_txid s1)),
        pbind (pget read_funding_records) (\<lambda>records. steps
          [assert_that (length records = 1),
           assert_that (u_txid (fd_utxo (records ! 0)) = ct_txid s1),
           assert_that (u_amount (fd_utxo (records ! 0)) = 90000),
           assert_that (fd_from_speedup (records ! 0))]),
        check (\<lambda>s. get_funding_record (OutPoint (u_txid u1) (u_vout u1)) s = None),
        check (\<lambda>s. \<not> listed (ct_txid s1) s),
        pmodify (append_funding u2),
        check (\<lambda>s. length (read_funding_records s) = 2),
        pmodify (insert_speedup s2),
        succeeds (settle_tx (ct_txid s2) Finalized 2),
        succeeds (replace_funding_on_finalize (ct_txid s2)),
        pbind (pget read_funding_records) (\<lambda>records. steps
          [assert_that (length records = 1),
           assert_that (u_txid (fd_utxo (records ! 0)) = ct_txid s2),
           assert_that (fd_from_speedup (records ! 0))]),
        check (\<lambda>s. get_funding_record (OutPoint (ct_txid s1) 0) s = None),
        check (\<lambda>s. get_funding_record (OutPoint (u_txid u2) (u_vout u2)) s = None),
        check (\<lambda>s. \<not> listed (ct_txid s1) s),
        check (\<lambda>s. \<not> listed (ct_txid s2) s)])"

definition test_replace_funding_on_finalize_defensive_paths :: "test_env \<Rightarrow> unit store_prog" where
  "test_replace_funding_on_finalize_defensive_paths e =
     (let untouched = new_utxo e (random_txid e 0) 0 7777;
          orphan = cpfp_with_change e 3 [new_utxo e (random_txid e 2) 0 1000] 500 Finalized;
          normal_id = random_txid e 4;
          one_record = check (\<lambda>s. length (read_funding_records s) = 1)
      in steps
       [pmodify (append_funding untouched),
        one_record,
        succeeds (replace_funding_on_finalize (random_txid e 1)),
        one_record,
        pmodify (insert_speedup orphan),
        succeeds (replace_funding_on_finalize (ct_txid orphan)),
        one_record,
        check (\<lambda>s. get_tx_by_id (ct_txid orphan) s \<noteq> None),
        pmodify (insert_tx (dummy_tx e normal_id Finalized)),
        succeeds (replace_funding_on_finalize normal_id),
        one_record,
        check (\<lambda>s. fd_utxo (read_funding_records s ! 0) = untouched)])"

section \<open>The suite\<close>

definition storage_tests :: "(test_env \<Rightarrow> unit store_prog) list" where
  "storage_tests =
     [test_insert_get_remove_tx,
      test_get_all_txs,
      test_update_tx_state,
      test_crash_recovery_state_transitions,
      test_update_tx_state_not_found,
      test_mark_as_retry_success,
      test_add_and_get_news,
      test_ack_news,
      test_add_news_dedup,
      test_add_news_distinct_items_both_stored,
      test_ack_blocks_readd_until_cleanup,
      test_cleanup_same_block_keeps_item,
      test_settle_tx_records_height,
      test_evict_stale_txs,
      test_remove_tx_cleans_speedup_list,
      test_evict_speedup_removes_from_list,
      test_reorg_does_not_remove_from_speedup_list,
      test_pending_parents_keep_confirmed_and_finalized,
      test_evict_stale_keeps_needs_speedup_parent,
      test_evict_stale_keeps_parent_under_live_coverage,
      test_pending_speedup_parents_prepend_and_requeue,
      test_get_by_state_and_exists,
      test_invalid_state_and_retry_error_paths,
      test_funding_storage_surface,
      test_replace_funding_on_finalize_lifecycle,
      test_replace_funding_on_finalize_defensive_paths]"

section \<open>The model passes them\<close>

lemma note_news_run: "note_news n s = (if n \<in> set (map sn_news (st_news s)) then s
    else s\<lparr>st_news := st_news s @ [\<lparr>sn_news = n, sn_acked_at_block = None\<rparr>]\<rparr>)"
  by (auto simp: note_news_def add_news_def)

lemmas record_run = store_op_defs dummy_tx_def update_tx_state_def update_tx_state_impl_def settle_tx_def
  insert_txs_def mark_as_retry_def tx_exists_def

lemmas news_run = get_news_def note_news_run ack_news_item_def cleanup_news_def

lemmas list_run = push_new_def retain_ne_def List.map_filter_simps get_speedups_ordered_def

lemmas parents_run = get_pending_speedup_parents_def pending_step_def prepend_pending_speedup_parents_def
  requeue_protocol_parents_def is_needs_speedup_def

lemmas evict_run = evict_def evict_stale_txs_def get_settled_txs_def get_all_txs_def evict_one_def live_covered_def
  is_needs_speedup_def default_storage_settings_def DEFAULT_MAX_TRACKING_CONFIRMATIONS_def saturating_sub_def

lemmas funding_run = append_funding_def set_spent_def clear_funding_records_def read_funding_records_def
  record_at_def get_funding_record_def put_funding_record_def set_funding_list_def drop_funding_record_def
  utxo_outpoint_def set_context_spent_def cpfp_with_change_def

lemmas finalize_run = replace_funding_on_finalize_def speedup_change_utxo_def speedup_kind_of_def last_output_def
  collect_consumed_def collect_step_def vec_remove_def vec_insert_def listed_def

context test_environment
begin

declare set_filter [simp del] set_map [simp del]

lemmas storage_run = test_simps record_run news_run list_run

lemma passes_insert_get_remove_tx: "passes (test_insert_get_remove_tx e)"
  by (simp add: storage_run test_insert_get_remove_tx_def)

lemma passes_update_tx_state: "passes (test_update_tx_state e)"
  by (simp add: storage_run moves_to_def test_update_tx_state_def)

lemma passes_crash_recovery: "passes (test_crash_recovery_state_transitions e)"
  by (simp add: storage_run test_crash_recovery_state_transitions_def)

lemma passes_update_not_found: "passes (test_update_tx_state_not_found e)"
  by (simp add: storage_run test_update_tx_state_not_found_def)

lemma passes_retry: "passes (test_mark_as_retry_success e)"
  by (simp add: storage_run test_mark_as_retry_success_def)

lemma passes_add_news: "passes (test_add_and_get_news e)"
  by (simp add: storage_run test_add_and_get_news_def)

lemma passes_ack_news: "passes (test_ack_news e)"
  by (simp add: storage_run test_ack_news_def)

lemma passes_news_dedup: "passes (test_add_news_dedup e)"
  by (simp add: storage_run test_add_news_dedup_def)

lemma passes_news_distinct: "passes (test_add_news_distinct_items_both_stored e)"
  by (simp add: storage_run test_add_news_distinct_items_both_stored_def)

lemma passes_ack_blocks: "passes (test_ack_blocks_readd_until_cleanup e)"
  by (simp add: storage_run test_ack_blocks_readd_until_cleanup_def)

lemma passes_cleanup_same_block: "passes (test_cleanup_same_block_keeps_item e)"
  by (simp add: storage_run test_cleanup_same_block_keeps_item_def)

lemma passes_settle_height: "passes (test_settle_tx_records_height e)"
  by (simp add: storage_run test_settle_tx_records_height_def)

lemma passes_remove_cleans_list: "passes (test_remove_tx_cleans_speedup_list e)"
  by (simp add: storage_run test_remove_tx_cleans_speedup_list_def)

lemma passes_reorg_keeps_list: "passes (test_reorg_does_not_remove_from_speedup_list e)"
  by (simp add: storage_run test_reorg_does_not_remove_from_speedup_list_def)

lemma passes_pending_parents: "passes (test_pending_parents_keep_confirmed_and_finalized e)"
  by (simp add: storage_run parents_run test_pending_parents_keep_confirmed_and_finalized_def)

lemma passes_evict_keeps_parent: "passes (test_evict_stale_keeps_needs_speedup_parent e)"
  by (simp add: storage_run evict_run test_evict_stale_keeps_needs_speedup_parent_def)

lemma passes_prepend_requeue: "passes (test_pending_speedup_parents_prepend_and_requeue e)"
  by (simp add: storage_run parents_run test_pending_speedup_parents_prepend_and_requeue_def)

lemma passes_error_paths: "passes (test_invalid_state_and_retry_error_paths e)"
  by (simp add: storage_run first_news_is_def word_le_nat_alt test_invalid_state_and_retry_error_paths_def)

lemma passes_funding_surface: "passes (test_funding_storage_surface e)"
  by (simp add: storage_run funding_run speedup_ctx_spent_def speedup_kind_of_def test_funding_storage_surface_def)

lemma passes_finalize_lifecycle: "passes (test_replace_funding_on_finalize_lifecycle e)"
  by (simp add: storage_run funding_run finalize_run test_replace_funding_on_finalize_lifecycle_def)

lemma passes_finalize_defensive: "passes (test_replace_funding_on_finalize_defensive_paths e)"
  by (simp add: storage_run funding_run finalize_run test_replace_funding_on_finalize_defensive_paths_def)

text \<open>The tests with two records: the scan finds them in one of two orders.\<close>

lemma draws_differ: "random_txid e 0 \<noteq> random_txid e 1"
  by (simp add: random_txid_eq)

lemma passes_get_all_txs: "passes (test_get_all_txs e)"
  using scan_two [OF draws_differ, of "dummy_tx e (random_txid e 0) ToDispatch" "dummy_tx e (random_txid e 1) InMempool"]
  by (auto simp: storage_run get_all_txs_def contains_tx_def coordinated_tx_eq_def test_get_all_txs_def)

lemma passes_get_by_state: "passes (test_get_by_state_and_exists e)"
  using scan_two [OF draws_differ, of "dummy_tx e (random_txid e 0) ToDispatch" "dummy_tx e (random_txid e 1) InMempool"]
  by (auto simp: storage_run get_all_txs_def get_by_state_def test_get_by_state_and_exists_def)

lemma passes_evict: "passes (test_evict_stale_txs e)"
  using scan_two [OF draws_differ, of "dummy_tx e (random_txid e 0) Finalized\<lparr>ct_settled_block_height := Some 5\<rparr>"
      "dummy_tx e (random_txid e 1) Finalized\<lparr>ct_settled_block_height := Some 10\<rparr>"]
  by (auto simp: storage_run evict_run is_eviction_of_def test_evict_stale_txs_def)

lemma passes_evict_speedup: "passes (test_evict_speedup_removes_from_list e)"
  using scan_two [OF draws_differ, of "dummy_tx e (random_txid e 0) Finalized\<lparr>ct_settled_block_height := Some 5\<rparr>"
      "dummy_tx e (random_txid e 1) InMempool"]
  by (auto simp: storage_run evict_run test_evict_speedup_removes_from_list_def)

lemma passes_evict_covered: "passes (test_evict_stale_keeps_parent_under_live_coverage e)"
proof -
  let ?utxo = "new_utxo e (random_txid e 0) 0 100000"
  let ?parent = "dummy_tx e (random_txid e 0) Finalized
    \<lparr>ct_kind := NeedsSpeedup (te_speedup_data e ?utxo), ct_settled_block_height := Some 1\<rparr>"
  let ?cpfp = "dummy_tx e (random_txid e 1) InMempool\<lparr>ct_kind := Speedup (CPFP [random_txid e 0] (unit_context [?utxo]))\<rparr>"
  note scan_two [OF draws_differ, of ?parent ?cpfp]
    scan_two [OF draws_differ, of ?parent "?cpfp\<lparr>ct_state := Failed, ct_settled_block_height := Some 100\<rparr>"]
  then show ?thesis
    by (auto simp: storage_run evict_run test_evict_stale_keeps_parent_under_live_coverage_def)
qed
lemmas storage_passes = passes_insert_get_remove_tx passes_update_tx_state passes_crash_recovery passes_update_not_found
  passes_retry passes_add_news passes_ack_news passes_news_dedup
  passes_news_distinct passes_ack_blocks passes_cleanup_same_block passes_settle_height
  passes_remove_cleans_list passes_reorg_keeps_list passes_pending_parents passes_evict_keeps_parent
  passes_prepend_requeue passes_error_paths passes_funding_surface passes_finalize_lifecycle
  passes_finalize_defensive passes_get_all_txs passes_get_by_state passes_evict
  passes_evict_speedup passes_evict_covered

lemma storage_tests_pass: "list_all (\<lambda>t. passes (t e)) storage_tests"
  by (simp add: storage_tests_def storage_passes)

end

end
