(* ===== verification/Funding_Tests.thy ===== *)
theory Funding_Tests
  imports Storage_Tests
begin

text \<open>
  The unit tests of \<open>src/core/funding.rs\<close>: the funding manager over the coordinator's storage,
  and that the model passes them.
\<close>

section \<open>Fixtures\<close>

definition MIN_SATS :: u64 where
  "MIN_SATS = 10000"

definition test_settings :: funding_settings where
  "test_settings = \<lparr>min_funding_amount_sats = MIN_SATS\<rparr>"

definition speedup_tx :: "test_env \<Rightarrow> 8 word \<Rightarrow> transaction_state \<Rightarrow> utxo \<Rightarrow> u64 \<Rightarrow> coordinated_tx" where
  "speedup_tx e seed st funding_input change_sats =
     \<lparr>ct_txid = det_txid e seed, ct_tx = te_transaction e [] [change_sats],
      ct_kind = Speedup (CPFP [] (unit_context [funding_input])), ct_state = st,
      ct_target_block_height = 0, ct_confirmation_trigger = None, ct_stuck_in_mempool_blocks = None,
      ct_settled_block_height = None, ct_broadcast_block_height = None, ct_fail_guard_until = None,
      ct_retry_count = 0,
      ct_fee_info = \<lparr>fi_fee = 0, fi_fee_rate = 1, fi_package_fee_rate = 1, fi_weight = 100\<rparr>,
      ct_context = ''test''\<rparr>"

text \<open>The methods of the manager of a test, over the storage it shares with the test.\<close>

abbreviation "mgr \<equiv> coordinator_funding_storage"

definition set_fund :: "utxo \<Rightarrow> coordinator_news option store_prog" where
  "set_fund u = pstep (set_funding test_settings mgr u)"

definition test_get_funding :: "(utxo \<times> bool) option store_prog" where
  "test_get_funding = pbind (pget get_speedups_ordered) (\<lambda>speedups. succeeds (get_funding mgr speedups))"

text \<open>\<open>get_funding(..).unwrap()\<close> whose second component is as expected.\<close>

definition claims :: "bool \<Rightarrow> utxo store_prog" where
  "claims expected = pbind (pbind test_get_funding unwrap) (\<lambda>(u, is_speedup).
     pseq (assert_that (is_speedup = expected)) (pret u))"

definition no_funding_left :: "unit store_prog" where
  "no_funding_left = pbind test_get_funding (\<lambda>got. assert_that (got = None))"

definition claim_combine :: "utxo store_prog" where
  "claim_combine = pbind (pstep (get_combine_funding mgr)) unwrap"

definition funding_spent :: "txid \<Rightarrow> bool store_prog" where
  "funding_spent txid = pbind (record_at (OutPoint txid 0)) (\<lambda>r. pret (fd_spent r))"

definition speedup_spent :: "txid \<Rightarrow> bool store_prog" where
  "speedup_spent txid =
     pbind (stored_tx txid) (\<lambda>t. pbind (unwrap_ok (speedup_kind_of t)) (\<lambda>k. pret (sc_spent (context_of k))))"

definition holds :: "bool store_prog \<Rightarrow> unit store_prog" where
  "holds m = pbind m assert_that"

definition fails_to_hold :: "bool store_prog \<Rightarrow> unit store_prog" where
  "fails_to_hold m = pbind m (\<lambda>b. assert_that (\<not> b))"

text \<open>A finalization as the tests make it: the state is overwritten, then the manager is told.\<close>

definition test_finalize :: "txid \<Rightarrow> unit store_prog" where
  "test_finalize txid = pbind (stored_tx txid) (\<lambda>t. steps
     [pmodify (update_tx (t\<lparr>ct_state := Finalized\<rparr>)),
      succeeds (replace_on_finalize mgr txid)])"

section \<open>Tests\<close>

definition test_funding_lifecycle :: "test_env \<Rightarrow> unit store_prog" where
  "test_funding_lifecycle e = steps
     [pbind (set_fund (test_utxo e (MIN_SATS - 1))) (\<lambda>news.
        assert_that (case news of Some (InvalidFundingUtxo _ _) \<Rightarrow> True | _ \<Rightarrow> False)),
      check (\<lambda>s. \<not> has_funding mgr s),
      pseq (set_fund (test_utxo e (MIN_SATS * 5))) (pret ()),
      pseq (set_fund (test_utxo e (MIN_SATS * 3))) (pret ()),
      check (has_funding mgr),
      pbind (claims False) (\<lambda>first. steps
        [assert_that (u_amount first = MIN_SATS * 5), holds (funding_spent (u_txid first))]),
      pbind (claims False) (\<lambda>second. steps
        [assert_that (u_amount second = MIN_SATS * 3), holds (funding_spent (u_txid second))]),
      no_funding_left,
      pmodify (clear_funding mgr),
      check (\<lambda>s. \<not> has_funding mgr s),
      pseq (set_fund (test_utxo e (MIN_SATS * 2))) (pret ()),
      check (has_funding mgr)]"

definition test_chain_tip_preferred_over_queue :: "test_env \<Rightarrow> unit store_prog" where
  "test_chain_tip_preferred_over_queue e =
     (let q = test_utxo e (MIN_SATS * 10);
          s_pending = speedup_tx e 0 ToDispatch q (MIN_SATS * 9);
          s1 = speedup_tx e 1 InMempool q (MIN_SATS * 8)
      in steps
       [pseq (set_fund q) (pret ()),
        pmodify (insert_speedup s_pending),
        pbind (claims False) (\<lambda>got. assert_that (u_txid got = u_txid q)),
        pmodify (set_spent (OutPoint (u_txid q) (u_vout q)) False),
        pmodify (insert_speedup s1),
        pbind (claims True) (\<lambda>got. steps
          [assert_that (u_txid got = ct_txid s1), assert_that (u_amount got = MIN_SATS * 8)]),
        holds (speedup_spent (ct_txid s1)),
        fails_to_hold (funding_spent (u_txid q)),
        pbind (stored_tx (ct_txid s1)) (\<lambda>s1_replaced. pmodify (update_tx
          (case ct_kind s1_replaced of
             Speedup (CPFP parents c) \<Rightarrow>
               s1_replaced\<lparr>ct_kind := Speedup (CPFP parents
                 (c\<lparr>sc_replaced_by := Some (det_txid e 99), sc_spent := False\<rparr>))\<rparr>
           | _ \<Rightarrow> s1_replaced))),
        pbind (claims False) (\<lambda>got2. assert_that (u_txid got2 = u_txid q)),
        holds (funding_spent (u_txid q)),
        no_funding_left])"

definition test_cpfp_chain_multi_round :: "test_env \<Rightarrow> unit store_prog" where
  "test_cpfp_chain_multi_round e =
     (let q1_amount = MIN_SATS * 100; c1_sats = q1_amount - 1000; c2_sats = c1_sats - 1000; c3_sats = c2_sats - 1000;
          unrelated = speedup_tx e 9 Finalized (test_utxo e (MIN_SATS * 50)) (MIN_SATS * 40)
      in pseq (set_fund (test_utxo e q1_amount))
       (pbind (claims False) (\<lambda>q1.
        let s1 = speedup_tx e 1 InMempool q1 c1_sats in
        pseq (steps [assert_that (u_amount q1 = q1_amount), pmodify (insert_speedup s1)])
       (pbind (claims True) (\<lambda>s1_change.
        let s2 = speedup_tx e 2 InMempool s1_change c2_sats in
        pseq (steps
          [assert_that (u_txid s1_change = ct_txid s1), assert_that (u_amount s1_change = c1_sats),
           holds (speedup_spent (ct_txid s1)), pmodify (insert_speedup s2), test_finalize (ct_txid s1)])
       (pbind (claims True) (\<lambda>s2_change.
        let s3 = speedup_tx e 3 InMempool s2_change c3_sats in steps
          [assert_that (u_txid s2_change = ct_txid s2), assert_that (u_amount s2_change = c2_sats),
           holds (speedup_spent (ct_txid s2)), pmodify (insert_speedup s3), test_finalize (ct_txid s2),
           pbind (pget read_funding_records) (\<lambda>records. steps
             [assert_that (length records = 1),
              assert_that (u_txid (fd_utxo (records ! 0)) = ct_txid s2)]),
           pmodify (insert_tx unrelated),
           succeeds (replace_on_finalize mgr (ct_txid unrelated)),
           pbind (pget read_funding_records) (\<lambda>records_after. steps
             [assert_that (length records_after = 1),
              assert_that (u_txid (fd_utxo (records_after ! 0)) = ct_txid s2)])])))))))"

definition test_combine_leftover_sweep_and_release :: "test_env \<Rightarrow> unit store_prog" where
  "test_combine_leftover_sweep_and_release e =
     (let leftover = test_utxo e (MIN_SATS div 2); q2 = test_utxo e (MIN_SATS * 5)
      in pseq (steps [pmodify (append_funding leftover), pseq (set_fund q2) (pret ())])
       (pbind (claims False) (\<lambda>primary.
        pseq (steps
          [assert_that (u_txid primary = u_txid leftover), holds (funding_spent (u_txid leftover)),
           fails_to_hold (funding_spent (u_txid q2))])
       (pbind claim_combine (\<lambda>secondary.
        pseq (steps
          [assert_that (u_txid secondary = u_txid q2), holds (funding_spent (u_txid q2)),
           pmodify (release_marks mgr [primary, secondary]),
           fails_to_hold (funding_spent (u_txid leftover)), fails_to_hold (funding_spent (u_txid q2)),
           pmodify (clear_funding mgr), pseq (set_fund (test_utxo e (MIN_SATS * 3))) (pret ())])
       (pbind (claims False) (\<lambda>sole. steps
          [pbind (pstep (get_combine_funding mgr)) (\<lambda>combine. assert_that (combine = None)),
           holds (funding_spent (u_txid sole)),
           pmodify (release_marks mgr [sole]),
           fails_to_hold (funding_spent (u_txid sole))])))))))"

definition test_failed_build_releases_funding :: "test_env \<Rightarrow> unit store_prog" where
  "test_failed_build_releases_funding e =
     pseq (set_fund (test_utxo e (MIN_SATS * 4)))
       (pbind (claims False) (\<lambda>claimed.
        let s = speedup_tx e 5 ToDispatch claimed (MIN_SATS * 2) in
        pseq (steps
          [holds (funding_spent (u_txid claimed)), pmodify (insert_speedup s),
           succeeds (mark_parents_unspent mgr s), fails_to_hold (funding_spent (u_txid claimed))])
       (pbind (claims False) (\<lambda>reclaimed.
        let tip = speedup_tx e 6 InMempool reclaimed (MIN_SATS * 3) in
        pseq (steps [assert_that (u_txid reclaimed = u_txid claimed), pmodify (insert_speedup tip)])
       (pbind (claims True) (\<lambda>tip_funding. steps
          [holds (speedup_spent (ct_txid tip)), pmodify (release_marks mgr [tip_funding]),
           fails_to_hold (speedup_spent (ct_txid tip))]))))))"

definition test_combined_funding_and_replace_on_finalize :: "test_env \<Rightarrow> unit store_prog" where
  "test_combined_funding_and_replace_on_finalize e =
     (let s_prev_change = test_utxo e (MIN_SATS * 50); s1_change_sats = MIN_SATS div 3;
          s1 = speedup_tx e 1 InMempool s_prev_change s1_change_sats; q2 = test_utxo e (MIN_SATS * 20);
          s2_change_sats = MIN_SATS * 10
      in pseq (steps
          [pmodify (append_funding s_prev_change),
           pmodify (set_spent (OutPoint (u_txid s_prev_change) (u_vout s_prev_change)) True),
           pmodify (insert_speedup s1), pseq (set_fund q2) (pret ())])
       (pbind (claims True) (\<lambda>chain_tip.
        pseq (steps
          [assert_that (u_txid chain_tip = ct_txid s1), assert_that (u_amount chain_tip = s1_change_sats),
           holds (speedup_spent (ct_txid s1))])
       (pbind claim_combine (\<lambda>secondary.
        let s2 = speedup_tx e 2 InMempool chain_tip s2_change_sats
                   \<lparr>ct_kind := Speedup (CPFP [] (unit_context [chain_tip, secondary]))\<rparr> in steps
          [assert_that (u_txid secondary = u_txid q2), holds (funding_spent (u_txid q2)),
           pmodify (insert_speedup s2), test_finalize (ct_txid s1),
           pbind (pget read_funding_records) (\<lambda>mid. steps
             [assert_that (length mid = 2),
              assert_that (u_txid (fd_utxo (mid ! 0)) = ct_txid s1),
              assert_that (fd_from_speedup (mid ! 0)),
              assert_that (u_txid (fd_utxo (mid ! 1)) = u_txid q2)]),
           test_finalize (ct_txid s2),
           pbind (pget read_funding_records) (\<lambda>final_records. steps
             [assert_that (length final_records = 1),
              assert_that (u_txid (fd_utxo (final_records ! 0)) = ct_txid s2),
              assert_that (fd_from_speedup (final_records ! 0)),
              assert_that (\<not> fd_spent (final_records ! 0)),
              assert_that (u_amount (fd_utxo (final_records ! 0)) = s2_change_sats)])])))))"

section \<open>The model passes them\<close>

definition funding_tests :: "(test_env \<Rightarrow> unit store_prog) list" where
  "funding_tests =
     [test_funding_lifecycle,
      test_chain_tip_preferred_over_queue,
      test_cpfp_chain_multi_round,
      test_combine_leftover_sweep_and_release,
      test_failed_build_releases_funding,
      test_combined_funding_and_replace_on_finalize]"

lemmas manager_run = coordinator_funding_storage_def set_funding_def validate_funding_def clear_funding_def
  has_funding_def get_funding_def get_combine_funding_def release_marks_def mark_parents_unspent_def
  replace_on_finalize_def has_live_replacement_def is_being_replaced_def

lemmas fixture_run = MIN_SATS_def test_settings_def speedup_tx_def test_utxo_def set_fund_def test_get_funding_def
  claims_def no_funding_left_def claim_combine_def funding_spent_def speedup_spent_def holds_def
  fails_to_hold_def test_finalize_def

context test_environment
begin

declare set_filter [simp del] set_map [simp del]

lemmas funding_test_run = storage_run funding_run finalize_run manager_run fixture_run

lemma passes_funding_lifecycle: "passes (test_funding_lifecycle e)"
  by (simp add: funding_test_run test_funding_lifecycle_def)

lemma passes_chain_tip: "passes (test_chain_tip_preferred_over_queue e)"
  by (simp add: funding_test_run test_chain_tip_preferred_over_queue_def)

lemma passes_multi_round: "passes (test_cpfp_chain_multi_round e)"
  by (simp add: funding_test_run test_cpfp_chain_multi_round_def)

lemma passes_sweep: "passes (test_combine_leftover_sweep_and_release e)"
  by (simp add: funding_test_run test_combine_leftover_sweep_and_release_def)

lemma passes_failed_build: "passes (test_failed_build_releases_funding e)"
  by (simp add: funding_test_run test_failed_build_releases_funding_def)

lemma passes_combined: "passes (test_combined_funding_and_replace_on_finalize e)"
  by (simp add: funding_test_run test_combined_funding_and_replace_on_finalize_def)

lemma funding_tests_pass: "list_all (\<lambda>t. passes (t e)) funding_tests"
  by (simp add: funding_tests_def passes_funding_lifecycle passes_chain_tip passes_multi_round passes_sweep
      passes_failed_build passes_combined)

end

end
