(* ===== verification/Unit_Tests.thy ===== *)
theory Unit_Tests
  imports Test_Support Fee Funding
begin

text \<open>
  The unit tests of \<open>src/helper.rs\<close>, \<open>src/core/fee.rs\<close>, \<open>src/core/dispatcher.rs\<close> and
  \<open>src/config/configs.rs\<close>, and that the model passes them. They do not touch the storage.
\<close>

section \<open>helper.rs\<close>

definition test_is_ready_to_dispatch :: "test_env \<Rightarrow> unit store_prog" where
  "test_is_ready_to_dispatch e =
     (let make_tx = (\<lambda>target. normal_coordinated_tx e 0\<lparr>ct_target_block_height := target\<rparr>) in steps
       [assert_that (is_ready_to_dispatch (make_tx 100) 100),
        assert_that (is_ready_to_dispatch (make_tx 100) 101),
        assert_that (\<not> is_ready_to_dispatch (make_tx 100) 99)])"

definition test_is_stuck_in_mempool :: "test_env \<Rightarrow> unit store_prog" where
  "test_is_stuck_in_mempool e =
     (let make_tx = (\<lambda>broadcast threshold. normal_coordinated_tx e 1
            \<lparr>ct_state := InMempool, ct_broadcast_block_height := broadcast,
             ct_stuck_in_mempool_blocks := threshold\<rparr>) in steps
       [assert_that (\<not> is_stuck_in_mempool (make_tx (Some 100) None) 200),
        assert_that (\<not> is_stuck_in_mempool (make_tx None (Some 10)) 200),
        assert_that (\<not> is_stuck_in_mempool (make_tx (Some 100) (Some 10)) 109),
        assert_that (is_stuck_in_mempool (make_tx (Some 100) (Some 10)) 110),
        assert_that (is_stuck_in_mempool (make_tx (Some 100) (Some 10)) 200)])"

text \<open>A match with one arm that panics: the context of a CPFP.\<close>

definition expect_cpfp :: "tx_kind \<Rightarrow> ('s, failure, speedup_context) prog" where
  "expect_cpfp k = (case k of Speedup (CPFP _ c) \<Rightarrow> pret c | _ \<Rightarrow> pthrow (Panic ''expected CPFP''))"

definition test_speedup_kind_helpers :: "test_env \<Rightarrow> unit store_prog" where
  "test_speedup_kind_helpers e =
     (let cpfp = cpfp_coordinated_tx e 5 1; replaced_txid = ct_txid cpfp in steps
       [assert_that (is_err (speedup_kind_of (normal_coordinated_tx e 1))),
        assert_that (is_err (update_context id (normal_coordinated_tx e 2))),
        assert_that (\<not> is_err (speedup_kind_of (cpfp_coordinated_tx e 3 1))),
        pbind (unwrap_ok (speedup_kind_of (cpfp_coordinated_tx e 4 1))) (\<lambda>k. assert_that (\<not> is_rbf k)),
        pbind (expect_cpfp (ct_kind cpfp)) (\<lambda>c.
          let rbf = cpfp\<lparr>ct_kind := Speedup (RBF replaced_txid [] c)\<rparr> in
          pbind (unwrap_ok (speedup_kind_of rbf)) (\<lambda>k. steps
            [assert_that (is_rbf k), assert_that (parents_of k = []),
             pbind (unwrap_ok (update_context (\<lambda>c. c\<lparr>sc_replaced_by := Some replaced_txid\<rparr>) rbf))
               (\<lambda>_. pret ())]))])"

definition test_is_boost :: "test_env \<Rightarrow> unit store_prog" where
  "test_is_boost e =
     (let txid = det_txid e 7; u = new_utxo e txid 0 100000; base_ctx = unit_context [u];
          first_cpfp = CPFP [txid] (base_ctx\<lparr>sc_parent_data := [(te_speedup_data e u, 100000, 100)]\<rparr>);
          cpfp_boost = CPFP [txid] base_ctx; rbf = RBF txid [] base_ctx
      in steps [assert_that (\<not> is_boost first_cpfp), assert_that (is_boost cpfp_boost), assert_that (is_boost rbf)])"

definition test_last_output :: "test_env \<Rightarrow> unit store_prog" where
  "test_last_output e =
     (let t = normal_coordinated_tx e 2;
          one = t\<lparr>ct_tx := te_transaction e [] [1000]\<rparr>; two = t\<lparr>ct_tx := te_transaction e [] [1000, 2000]\<rparr>
      in steps
       [assert_that (is_err (last_output (normal_coordinated_tx e 1))),
        pbind (unwrap_ok (last_output one)) (\<lambda>(out, vout). steps
          [assert_that (vout = 0), assert_that (out = 1000)]),
        pbind (unwrap_ok (last_output two)) (\<lambda>(out, vout). steps
          [assert_that (vout = 1), assert_that (out = 2000)])])"

definition test_verify_single_dispatch_result :: "test_env \<Rightarrow> unit store_prog" where
  "test_verify_single_dispatch_result e =
     (let txid = det_txid e 1; other = det_txid e 2 in steps
       [assert_that (\<not> is_err (verify_single_dispatch_result txid [(txid, Success)])),
        assert_that (is_err (verify_single_dispatch_result txid ([] :: (txid \<times> dispatch_outcome) list))),
        assert_that (is_err (verify_single_dispatch_result txid [(txid, Success), (other, Success)])),
        assert_that (is_err (verify_single_dispatch_result txid [(other, Success)]))])"

definition test_find_tx_in_batch :: "test_env \<Rightarrow> unit store_prog" where
  "test_find_tx_in_batch e =
     (let tx1 = normal_coordinated_tx e 1; tx2 = normal_coordinated_tx e 2; batch = [tx1, tx2];
          missing = det_txid e 99
      in steps
       [assert_that (\<not> is_err (find_tx_in_batch batch (ct_txid tx1))),
        assert_that (\<not> is_err (find_tx_in_batch batch (ct_txid tx2))),
        assert_that (is_err (find_tx_in_batch batch missing))])"

definition test_verify_tx_id :: "test_env \<Rightarrow> unit store_prog" where
  "test_verify_tx_id e =
     (let t = normal_coordinated_tx e 1; other = det_txid e 99 in steps
       [assert_that (\<not> is_err (verify_tx_id t (ct_txid t))), assert_that (is_err (verify_tx_id t other))])"

definition test_can_transition_to :: "test_env \<Rightarrow> unit store_prog" where
  "test_can_transition_to e = steps
     [assert_that (can_transition_to InMempool Failed),
      assert_that (can_transition_to ToDispatch ToDispatch),
      assert_that (can_transition_to Finalized Finalized),
      assert_that (\<not> can_transition_to Finalized ToDispatch),
      assert_that (\<not> can_transition_to Finalized InMempool),
      assert_that (\<not> can_transition_to Failed InMempool),
      assert_that (\<not> can_transition_to Confirmed Failed)]"

section \<open>fee.rs\<close>

definition fee_test_settings :: "u64 \<Rightarrow> u64 \<Rightarrow> fee_settings" where
  "fee_test_settings min_safe max_rate =
     \<lparr>max_feerate_sat_vb = max_rate, base_fee_multiplier_setting = Fin 1, min_safe_fee_rate = min_safe\<rparr>"

definition test_compute_fee_for_tx :: "test_env \<Rightarrow> unit store_prog" where
  "test_compute_fee_for_tx e =
     (let tx = empty_transaction e; vsize = tx_vsize tx; info = compute_fee_for_tx tx 10 in steps
       [assert_that (fi_fee info = vsize * 10),
        assert_that (fi_fee_rate info = 10),
        assert_that (fi_weight info = tx_weight tx)])"

definition test_compute_fee :: "test_env \<Rightarrow> unit store_prog" where
  "test_compute_fee e =
     (let t = cpfp_coordinated_tx e 1 5; via_wrapper = compute_fee t 10; direct = compute_fee_for_tx (ct_tx t) 10 in steps
       [assert_that (fi_fee via_wrapper = fi_fee direct),
        assert_that (fi_fee_rate via_wrapper = fi_fee_rate direct),
        assert_that (fi_weight via_wrapper = fi_weight direct)])"

text \<open>The rate for the estimate of a new node.\<close>

definition network_fee_rate :: "test_env \<Rightarrow> fee_settings \<Rightarrow> u64 \<times> coordinator_news option" where
  "network_fee_rate e settings = get_network_fee_rate settings
     (case fst (sv_get_estimated_fee_rate (te_node e) []) of Inr r \<Rightarrow> Some r | Inl _ \<Rightarrow> None)"

definition test_get_network_fee_rate_below_max :: "test_env \<Rightarrow> unit store_prog" where
  "test_get_network_fee_rate_below_max e =
     (let (fee_rate, news) = network_fee_rate e (fee_test_settings 10 100) in steps
       [assert_that (fee_rate \<le> 100), assert_that (news = None)])"

definition test_get_network_fee_rate_honors_min_safe_floor :: "test_env \<Rightarrow> unit store_prog" where
  "test_get_network_fee_rate_honors_min_safe_floor e =
     (let (fee_rate, _) = network_fee_rate e
        \<lparr>max_feerate_sat_vb = 1000, base_fee_multiplier_setting = Fin 1, min_safe_fee_rate = 25\<rparr>
      in assert_that (25 \<le> fee_rate))"

definition test_get_network_fee_rate_clamps_above_max :: "test_env \<Rightarrow> unit store_prog" where
  "test_get_network_fee_rate_clamps_above_max e =
     (let (fee_rate, news) = network_fee_rate e
        \<lparr>max_feerate_sat_vb = 10, base_fee_multiplier_setting = Fin 1, min_safe_fee_rate = 20\<rparr>
      in steps
       [assert_that (fee_rate = 10),
        assert_that (case news of Some (EstimateFeerateTooHigh _ max_fee_rate) \<Rightarrow> max_fee_rate = 10 | _ \<Rightarrow> False)])"

definition test_chain_fee_diff :: "test_env \<Rightarrow> unit store_prog" where
  "test_chain_fee_diff e =
     (let t = cpfp_coordinated_tx e 1 10; vsize = tx_vsize (ct_tx t);
          tx2 = cpfp_coordinated_tx e 2 5; tx3 = cpfp_coordinated_tx e 3 5; tx4 = cpfp_coordinated_tx e 4 5
      in steps
       [assert_that (chain_fee_diff 10 [] = (0, 0)),
        (let (diff, chain_vsize) = chain_fee_diff 10 [t] in steps
          [assert_that (diff = 0), assert_that (chain_vsize = vsize)]),
        (let (diff, chain_vsize) = chain_fee_diff 10 [tx2] in steps
          [assert_that (diff = vsize * (10 - 5)), assert_that (chain_vsize = vsize)]),
        (let (diff, chain_vsize) = chain_fee_diff 10 [tx3, tx4] in steps
          [assert_that (diff = 2 * vsize * (10 - 5)), assert_that (chain_vsize = 2 * vsize)])])"

definition test_compute_speedup_fee_basic_cpfp :: "test_env \<Rightarrow> unit store_prog" where
  "test_compute_speedup_fee_basic_cpfp e =
     (let settings = fee_test_settings 1 10000 in steps
       [assert_that (compute_speedup_fee settings [100] 50 (Fin 1) 5 False 0 = (650, False)),
        assert_that (fst (compute_speedup_fee settings [] 50 (Fin 1) 5 False 0) = 250),
        assert_that (fst (compute_speedup_fee settings [40, 60] 50 (Fin 1) 5 False 0) = 650)])"

definition test_compute_speedup_fee_rbf_bandwidth_floor :: "test_env \<Rightarrow> unit store_prog" where
  "test_compute_speedup_fee_rbf_bandwidth_floor e =
     (let settings = fee_test_settings 1 10000 in steps
       [assert_that (fst (compute_speedup_fee settings [100] 50 (Fin 1) 5 True 0) = 650),
        assert_that (fst (compute_speedup_fee settings [10] 50 (Fin 1) 1 True 0) = 100)])"

definition test_compute_speedup_fee_bump_and_chain_diff :: "test_env \<Rightarrow> unit store_prog" where
  "test_compute_speedup_fee_bump_and_chain_diff e =
     (let settings = fee_test_settings 1 100000 in steps
       [assert_that (fst (compute_speedup_fee settings [100] 50 (Fin 2) 5 False 0) = 1300),
        assert_that (fst (compute_speedup_fee settings [100] 50 (Fin (3 / 2)) 5 False 0) = 975),
        assert_that (fst (compute_speedup_fee settings [100] 50 (Fin 1) 5 False 100) = 750),
        assert_that (fst (compute_speedup_fee settings [100] 50 (Fin 2) 5 False 100) = 1500)])"

definition test_compute_speedup_fee_caps_at_max :: "test_env \<Rightarrow> unit store_prog" where
  "test_compute_speedup_fee_caps_at_max e = steps
     [assert_that (compute_speedup_fee (fee_test_settings 1 2) [100] 50 (Fin 1) 5 False 0 = (200, True)),
      assert_that (compute_speedup_fee (fee_test_settings 1 4) [100] 50 (Fin 1) 5 False 0 = (500, True)),
      assert_that (compute_speedup_fee (fee_test_settings 1 5) [100] 50 (Fin 1) 5 False 0 = (650, False))]"

definition test_boost_fee_rate_floor :: "test_env \<Rightarrow> unit store_prog" where
  "test_boost_fee_rate_floor e = steps
     [assert_that (boost_fee_rate 5 10 = 11),
      assert_that (boost_fee_rate 15 10 = 15),
      assert_that (boost_fee_rate 11 10 = 11),
      assert_that (boost_fee_rate 0 0 = 1),
      assert_that (boost_fee_rate 5 (- 1) = - 1)]"

section \<open>dispatcher.rs\<close>

text \<open>A transaction with one input, whose id is computed from it.\<close>

definition one_input_tx :: "test_env \<Rightarrow> out_point \<Rightarrow> coordinated_tx" where
  "one_input_tx e op =
     (let tx = te_transaction e [op] [1]
      in normal_coordinated_tx e 1\<lparr>ct_tx := tx, ct_txid := tx_compute_txid tx\<rparr>)"

definition get_child_tx :: "test_env \<Rightarrow> coordinated_tx \<Rightarrow> coordinated_tx" where
  "get_child_tx e parent = one_input_tx e (OutPoint (ct_txid parent) 0)"

definition tx_with_input :: "test_env \<Rightarrow> 8 word \<Rightarrow> coordinated_tx" where
  "tx_with_input e seed = one_input_tx e (OutPoint (ct_txid (normal_coordinated_tx e 1)) (ucast seed))"

definition AllUnknown :: "unit dispatcher_storage" where
  "AllUnknown = \<lparr>ds_is_tx_known = (\<lambda>_ _. False), ds_is_tx_failed = (\<lambda>_ _. False)\<rparr>"

definition AllKnown :: "unit dispatcher_storage" where
  "AllKnown = \<lparr>ds_is_tx_known = (\<lambda>_ _. True), ds_is_tx_failed = (\<lambda>_ _. False)\<rparr>"

definition test_valid_tx_passes_partition :: "test_env \<Rightarrow> unit store_prog" where
  "test_valid_tx_passes_partition e =
     (let t = tx_with_input e 1; weight = tx_weight (ct_tx t);
          (valid, failures) = validate_txs \<lparr>max_tx_weight = weight + 100\<rparr> [t]
      in steps [assert_that (length valid = 1), assert_that (failures = [])])"

definition is_fatal :: "dispatch_outcome \<Rightarrow> bool" where
  "is_fatal out = (case out of Fatal _ \<Rightarrow> True | _ \<Rightarrow> False)"

definition test_overweight_tx_is_fatal :: "test_env \<Rightarrow> unit store_prog" where
  "test_overweight_tx_is_fatal e =
     (let t = normal_coordinated_tx e 1; weight = tx_weight (ct_tx t);
          (valid, failures) = validate_txs \<lparr>max_tx_weight = weight - 1\<rparr> [t]
      in steps [assert_that (valid = []), assert_that (length failures = 1),
                assert_that (is_fatal (snd (failures ! 0)))])"

definition test_mixed_txs_partitioned_correctly :: "test_env \<Rightarrow> unit store_prog" where
  "test_mixed_txs_partitioned_correctly e =
     (let weight = tx_weight (ct_tx (tx_with_input e 1)); both = [tx_with_input e 1, tx_with_input e 2] in steps
       [(let (valid, failures) = validate_txs \<lparr>max_tx_weight = weight - 1\<rparr> both in steps
          [assert_that (valid = []), assert_that (length failures = 2)]),
        (let (valid, failures) = validate_txs \<lparr>max_tx_weight = weight\<rparr> both in steps
          [assert_that (length valid = 2), assert_that (failures = [])])])"

definition test_batch_by_weight_limits_and_splits :: "test_env \<Rightarrow> unit store_prog" where
  "test_batch_by_weight_limits_and_splits e =
     (let p1 = normal_coordinated_tx e 1; p2 = normal_coordinated_tx e 2; p3 = normal_coordinated_tx e 3;
          single_weight = tx_weight (ct_tx p1); settings = \<lparr>max_tx_weight = single_weight + 1\<rparr>;
          two_of_one = (\<lambda>batches. steps
            [assert_that (length batches = 2), assert_that (length (batches ! 0) = 1),
             assert_that (length (batches ! 1) = 1)])
      in steps
       [two_of_one (batch_by_weight settings [p1, p2] 10),
        two_of_one (batch_by_weight settings [p1, p2, p3] 2)])"

text \<open>The answer of the dispatcher, which is not the error a test does not expect.\<close>

definition test_parents_ready_empty_inputs_is_ready :: "test_env \<Rightarrow> unit store_prog" where
  "test_parents_ready_empty_inputs_is_ready e =
     (let t = normal_coordinated_tx e 1 in steps
       [assert_that (tx_input (ct_tx t) = []),
        pbind (unwrap_ok (fst (parents_ready AllUnknown () (te_node e) (te_monitor_confirmations e) t [])))
          assert_that])"

definition test_tracked_parent_defers_child_external_passes :: "test_env \<Rightarrow> unit store_prog" where
  "test_tracked_parent_defers_child_external_passes e =
     (let parent = normal_coordinated_tx e 1; child = get_child_tx e parent;
          dispatched = (\<lambda>ds. unwrap_ok (fst (dispatch \<lparr>max_tx_weight = - 1\<rparr> ds () (te_node e)
            (te_monitor_confirmations e) [child] [])))
      in steps
       [pbind (dispatched AllKnown) (\<lambda>txids. assert_that (txids = [])),
        pbind (dispatched AllUnknown) (\<lambda>txids. steps
          [assert_that (length txids = 1), assert_that (fst (txids ! 0) = ct_txid child)])])"

section \<open>configs.rs\<close>

definition test_valid_config :: "test_env \<Rightarrow> unit store_prog" where
  "test_valid_config e =
     pbind (unwrap_ok (load_config (te_load_config_file e) ''config/coordinator_config.yaml'')) (\<lambda>_. pret ())"

definition is_invalid_configuration :: "'a result \<Rightarrow> bool" where
  "is_invalid_configuration r = (case r of Inl (Err (InvalidConfiguration _)) \<Rightarrow> True | _ \<Rightarrow> False)"

definition test_load_config_missing_file_returns_invalid_configuration :: "test_env \<Rightarrow> unit store_prog" where
  "test_load_config_missing_file_returns_invalid_configuration e =
     assert_that (is_invalid_configuration (load_config (te_load_config_file e) ''config/does_not_exist.yaml''))"

text \<open>The sum of two finite numbers, and the decimal literals of the test.\<close>

fun f64_plus :: "f64 \<Rightarrow> f64 \<Rightarrow> f64" where
  "f64_plus (Fin a) (Fin b) = f64_round (a + b)"
| "f64_plus x y = NaN"

definition rejects :: "bitcoin_settings \<Rightarrow> unit store_prog" where
  "rejects s = assert_that (is_invalid_configuration (validate_settings s))"

definition test_validate_rejects_invalid_settings :: "test_env \<Rightarrow> unit store_prog" where
  "test_validate_rejects_invalid_settings e =
     (let defaults = default_bitcoin_settings (te_monitor_confirmations e);
          speedup = (\<lambda>f. rejects (defaults\<lparr>bs_speedup := f default_speedup_settings\<rparr>));
          fee = (\<lambda>f. rejects (defaults\<lparr>bs_fee := f default_fee_settings\<rparr>));
          coordinator = (\<lambda>f. rejects (defaults\<lparr>bs_coordinator := f default_coordinator_settings\<rparr>))
      in steps
       [speedup (\<lambda>s. s\<lparr>max_unconfirmed_speedups := 0\<rparr>),
        speedup (\<lambda>s. s\<lparr>max_unconfirmed_speedups := MAX_LIMIT_UNCONFIRMED_PARENTS + 1\<rparr>),
        rejects (defaults\<lparr>bs_dispatcher := \<lparr>max_tx_weight = 0\<rparr>\<rparr>),
        rejects (defaults\<lparr>bs_dispatcher := \<lparr>max_tx_weight = MAX_LIMIT_TX_WEIGHT + 1\<rparr>\<rparr>),
        rejects (defaults\<lparr>bs_funding := \<lparr>min_funding_amount_sats = MIN_LIMIT_FUNDING_AMOUNT_SATS - 1\<rparr>\<rparr>),
        speedup (\<lambda>s. s\<lparr>min_blocks_before_resend_speedup := 0\<rparr>),
        speedup (\<lambda>s. s\<lparr>min_blocks_before_resend_speedup := MAX_MIN_BLOCKS_BEFORE_RESEND_SPEEDUP + 1\<rparr>),
        fee (\<lambda>s. s\<lparr>max_feerate_sat_vb := 0\<rparr>),
        fee (\<lambda>s. s\<lparr>max_feerate_sat_vb := MAX_LIMIT_FEERATE_SAT_VB + 1\<rparr>),
        fee (\<lambda>s. s\<lparr>base_fee_multiplier_setting := Fin 0\<rparr>),
        fee (\<lambda>s. s\<lparr>base_fee_multiplier_setting := f64_plus MAX_BASE_FEE_MULTIPLIER (f64_round (1 / 10))\<rparr>),
        speedup (\<lambda>s. s\<lparr>bump_fee_percentage := f64_round (9 / 10)\<rparr>),
        speedup (\<lambda>s. s\<lparr>bump_fee_percentage := f64_plus MAX_BUMP_FEE_PERCENTAGE (f64_round (1 / 10))\<rparr>),
        coordinator (\<lambda>s. s\<lparr>retry_interval_seconds := 0\<rparr>),
        coordinator (\<lambda>s. s\<lparr>retry_interval_seconds := MAX_RETRY_INTERVAL_SECONDS + 1\<rparr>),
        fee (\<lambda>s. s\<lparr>min_safe_fee_rate := 0\<rparr>),
        fee (\<lambda>s. s\<lparr>min_safe_fee_rate := 2, max_feerate_sat_vb := 1\<rparr>)])"

section \<open>The model passes them\<close>

definition unit_tests :: "(test_env \<Rightarrow> unit store_prog) list" where
  "unit_tests =
     [test_is_ready_to_dispatch, test_is_stuck_in_mempool, test_speedup_kind_helpers, test_is_boost, test_last_output,
      test_verify_single_dispatch_result, test_find_tx_in_batch, test_verify_tx_id, test_can_transition_to,
      test_compute_fee_for_tx, test_compute_fee, test_get_network_fee_rate_below_max,
      test_get_network_fee_rate_honors_min_safe_floor, test_get_network_fee_rate_clamps_above_max, test_chain_fee_diff,
      test_compute_speedup_fee_basic_cpfp, test_compute_speedup_fee_rbf_bandwidth_floor,
      test_compute_speedup_fee_bump_and_chain_diff, test_compute_speedup_fee_caps_at_max, test_boost_fee_rate_floor,
      test_valid_tx_passes_partition, test_overweight_tx_is_fatal, test_mixed_txs_partitioned_correctly,
      test_batch_by_weight_limits_and_splits, test_parents_ready_empty_inputs_is_ready,
      test_tracked_parent_defers_child_external_passes, test_valid_config,
      test_load_config_missing_file_returns_invalid_configuration, test_validate_rejects_invalid_settings]"

text \<open>Products of small numbers with the multipliers of the tests are exact.\<close>

lemma fee_product:
  assumes "of_nat (unat n) * b = of_nat m" and "unat n \<le> 2 ^ 53" and "m \<le> 2 ^ 53"
  shows "u64_of_f64 (f64_ceil (f64_mul (f64_of_u64 n) (Fin b))) = of_nat m"
proof -
  have "f64_mul (f64_of_u64 n) (Fin b) = Fin (of_nat m)"
    unfolding f64_of_u64_def round_exact_nat [OF assms(2)] f64_mul.simps assms(1) by (rule round_exact_nat [OF assms(3)])
  then have "unat (u64_of_f64 (f64_ceil (f64_mul (f64_of_u64 n) (Fin b)))) = m"
    using unat_u64_of_int [of "int m"] assms(3) by simp
  then show ?thesis using assms(3) by (simp add: word_unat_eq_iff unat_of_nat)
qed

lemmas fee_products =
  fee_product [of 650 1 650, simplified] fee_product [of 250 1 250, simplified]
  fee_product [of 100 1 100, simplified] fee_product [of 750 1 750, simplified]
  fee_product [of 650 2 1300, simplified] fee_product [of 650 "3 / 2" 975, simplified] fee_product [of 750 2 1500, simplified]

lemma decimals:
  "\<not> f64_le (f64_plus (Fin 100) (f64_round (1 / 10))) (Fin 100)"
  "\<not> f64_le (Fin 1) (f64_round (9 / 10))"
proof -
  obtain r where r: "f64_round (1 / 10) = Fin r" "\<bar>r - 1 / 10\<bar> \<le> 1 / 10 / 2 ^ 53"
    using round_near [of "1 / 10"] by auto
  then have r': "1 / 20 \<le> r" "r \<le> 1" unfolding abs_le_iff by simp_all
  then have "1 / 2 ^ 1000 \<le> 100 + r" "100 + r < 2 ^ 1000" by (simp_all add: field_simps)
  then obtain y where y: "f64_round (100 + r) = Fin y" "\<bar>y - (100 + r)\<bar> \<le> (100 + r) / 2 ^ 53"
    using round_near [of "100 + r"] by auto
  then show "\<not> f64_le (f64_plus (Fin 100) (f64_round (1 / 10))) (Fin 100)" 
    using r(1) r' unfolding abs_le_iff by simp
  obtain z where "f64_round (9 / 10) = Fin z" "\<bar>z - 9 / 10\<bar> \<le> 9 / 10 / 2 ^ 53"
    using round_near [of "9 / 10"] by auto
  then show "\<not> f64_le (Fin 1) (f64_round (9 / 10))" unfolding abs_le_iff by simp
qed

lemma above_ten: "20 \<le> x \<Longrightarrow> (10 :: u64) < x"
  by (rule less_le_trans [of _ 20]) simp_all
lemma two_above_one: "\<not> (2 :: u64) \<le> 1"
  by (simp add: word_le_nat_alt)

lemmas record_fixtures = normal_coordinated_tx_def cpfp_coordinated_tx_def empty_transaction_def

lemmas fee_run = compute_speedup_fee_def base_speedup_fee_def speedup_fee_cap_def MIN_RELAY_FEE_RATE_def
  saturating_sub_def saturating_mul_def fee_test_settings_def fee_products

lemmas rate_run = network_fee_rate_def get_network_fee_rate_def fee_test_settings_def not_le

lemmas dispatcher_run = validate_txs_def validate_step_def validate_failure_def normal_coordinated_tx_def
  empty_transaction_def tx_with_input_def one_input_tx_def get_child_tx_def is_fatal_def

lemmas settings_run = settings_constants validate_settings_def ensure_def is_invalid_configuration_def
  default_bitcoin_settings_def default_speedup_settings_def default_fee_settings_def
  default_coordinator_settings_def default_dispatcher_settings_def default_funding_settings_def

context test_environment
begin

lemma passes_is_ready_to_dispatch: "passes (test_is_ready_to_dispatch e)"
  by (simp add: test_simps test_is_ready_to_dispatch_def is_ready_to_dispatch_def)

lemma passes_is_stuck_in_mempool: "passes (test_is_stuck_in_mempool e)"
  by (simp add: test_simps test_is_stuck_in_mempool_def is_stuck_in_mempool_def normal_coordinated_tx_def saturating_sub_def)

lemma passes_speedup_kind_helpers: "passes (test_speedup_kind_helpers e)"
  by (simp add: test_simps test_speedup_kind_helpers_def record_fixtures
    speedup_kind_of_def update_context_def expect_cpfp_def)

lemma passes_is_boost: "passes (test_is_boost e)"
  by (simp add: test_simps test_is_boost_def)

lemma passes_last_output: "passes (test_last_output e)"
  by (simp add: test_simps test_last_output_def last_output_def record_fixtures)

lemma passes_verify_single_dispatch_result: "passes (test_verify_single_dispatch_result e)"
  by (simp add: test_simps test_verify_single_dispatch_result_def verify_single_dispatch_result_def)

lemma passes_find_tx_in_batch: "passes (test_find_tx_in_batch e)"
  by (simp add: test_simps test_find_tx_in_batch_def find_tx_in_batch_def normal_coordinated_tx_def)

lemma passes_verify_tx_id: "passes (test_verify_tx_id e)"
  by (simp add: test_simps test_verify_tx_id_def verify_tx_id_def normal_coordinated_tx_def)

lemma passes_can_transition_to: "passes (test_can_transition_to e)"
  by (simp add: test_simps test_can_transition_to_def)

lemma passes_compute_fee_for_tx: "passes (test_compute_fee_for_tx e)"
  by (simp add: test_simps test_compute_fee_for_tx_def compute_fee_for_tx_def)

lemma passes_compute_fee: "passes (test_compute_fee e)"
  by (simp add: test_simps test_compute_fee_def compute_fee_for_tx_def compute_fee_def)

lemma passes_get_network_fee_rate_below_max: "passes (test_get_network_fee_rate_below_max e)"
  using estimate [of "[]"] by (auto simp: test_simps test_get_network_fee_rate_below_max_def rate_run split: sum.split)

lemma passes_get_network_fee_rate_honors_min_safe_floor: "passes (test_get_network_fee_rate_honors_min_safe_floor e)"
  using estimate [of "[]"] by (auto simp: test_simps test_get_network_fee_rate_honors_min_safe_floor_def rate_run split: sum.split)

lemma passes_get_network_fee_rate_clamps_above_max: "passes (test_get_network_fee_rate_clamps_above_max e)"
  using estimate [of "[]"] by (auto simp: test_simps test_get_network_fee_rate_clamps_above_max_def above_ten rate_run split: sum.split)

lemma passes_chain_fee_diff: "passes (test_chain_fee_diff e)"
  by (simp add: test_simps test_chain_fee_diff_def chain_fee_diff_eq record_fixtures saturating_sub_def)
declare f64_mul.simps [simp del] f64_ceil.simps [simp del] u64_of_f64.simps [simp del]

lemma passes_compute_speedup_fee_basic_cpfp: "passes (test_compute_speedup_fee_basic_cpfp e)"
  by (simp add: test_simps test_compute_speedup_fee_basic_cpfp_def fee_run)

lemma passes_compute_speedup_fee_rbf_bandwidth_floor: "passes (test_compute_speedup_fee_rbf_bandwidth_floor e)"
  by (simp add: test_simps test_compute_speedup_fee_rbf_bandwidth_floor_def fee_run)

lemma passes_compute_speedup_fee_bump_and_chain_diff: "passes (test_compute_speedup_fee_bump_and_chain_diff e)"
  by (simp add: test_simps test_compute_speedup_fee_bump_and_chain_diff_def fee_run)

lemma passes_compute_speedup_fee_caps_at_max: "passes (test_compute_speedup_fee_caps_at_max e)"
  by (simp add: test_simps test_compute_speedup_fee_caps_at_max_def fee_run)

lemma passes_boost_fee_rate_floor: "passes (test_boost_fee_rate_floor e)"
  by (simp add: test_simps test_boost_fee_rate_floor_def boost_fee_rate_def saturating_add_def max_def unat_minus_one_eq)

lemma small_weights:
  "unat (tx_weight (te_transaction e [op] [1]) + 100) = unat (tx_weight (te_transaction e [op] [1])) + 100"
  "unat (tx_weight (te_transaction e [op] [1]) - 1) < unat (tx_weight (te_transaction e [op] [1]))"
  "unat (tx_weight (te_transaction e [] []) + 1) < unat (2 * tx_weight (te_transaction e [] []))"
  "tx_weight (te_transaction e [] []) \<le> tx_weight (te_transaction e [] []) + 1"
proof -
  define w v where "w = tx_weight (te_transaction e [op] [1])" and "v = tx_weight (te_transaction e [] [])"
  have w: "2 \<le> unat w" "unat w < 2 ^ 32" and v: "2 \<le> unat v" "unat v < 2 ^ 32"
    using small_transaction_weight [of "[op]" "[1]"] small_transaction_weight [of "[]" "[]"]
    by (simp_all add: w_def v_def)
  have "unat (w + 100) = unat w + 100" using w unat_add_exact [of w 100] by simp
  moreover have "unat (w - 1) < unat w" using w by (simp add: unat_sub word_le_nat_alt)
  moreover have s: "unat (v + 1) = unat v + 1" using v unat_add_exact [of v 1] by simp
  moreover have "unat (2 * v) = 2 * unat v" using v unat_mult_exact [of 2 v] by simp
  moreover have "v \<le> v + 1" using s by (simp add: word_le_nat_alt)
  ultimately show "unat (tx_weight (te_transaction e [op] [1]) + 100) = unat (tx_weight (te_transaction e [op] [1])) + 100"
    "unat (tx_weight (te_transaction e [op] [1]) - 1) < unat (tx_weight (te_transaction e [op] [1]))"
    "unat (tx_weight (te_transaction e [] []) + 1) < unat (2 * tx_weight (te_transaction e [] []))"
    "tx_weight (te_transaction e [] []) \<le> tx_weight (te_transaction e [] []) + 1"
    using v by (simp_all add: w_def v_def)
qed

lemma same_weight: "tx_weight (te_transaction e [OutPoint a 2] [1]) = tx_weight (te_transaction e [OutPoint a 1] [1])"
  by (rule transaction_weight) simp_all

lemma passes_valid_tx_passes_partition: "passes (test_valid_tx_passes_partition e)"
  by (simp add: test_simps test_valid_tx_passes_partition_def dispatcher_run word_less_nat_alt small_weights(1))

lemma passes_overweight_tx_is_fatal: "passes (test_overweight_tx_is_fatal e)"
  by (simp add: test_simps test_overweight_tx_is_fatal_def dispatcher_run)

lemma passes_mixed_txs_partitioned_correctly: "passes (test_mixed_txs_partitioned_correctly e)"
  by (simp add: test_simps test_mixed_txs_partitioned_correctly_def dispatcher_run word_less_nat_alt same_weight small_weights(2))

lemma passes_batch_by_weight_limits_and_splits: "passes (test_batch_by_weight_limits_and_splits e)"
  using small_weights(3) by (simp add: test_simps test_batch_by_weight_limits_and_splits_def batch_by_weight_def dispatcher_run word_less_nat_alt)

lemma passes_parents_ready_empty_inputs_is_ready: "passes (test_parents_ready_empty_inputs_is_ready e)"
  by (simp add: test_simps test_parents_ready_empty_inputs_is_ready_def parents_ready_def dispatcher_run)

lemma passes_tracked_parent_defers_child_external_passes: "passes (test_tracked_parent_defers_child_external_passes e)"
proof -
  obtain st where st: "unseen st" "sv_get_tx_status (te_node e) (det_txid e 1) True [] = (Inr st, [])" using new_node by blast
  then show ?thesis
   by (simp add: test_simps test_tracked_parent_defers_child_external_passes_def dispatch_def dispatcher_run failed_parent_def
     parents_ready_def AllKnown_def AllUnknown_def unseen_def send_outcome_def)
qed

lemma passes_valid_config: "passes (test_valid_config e)"
  by (simp add: test_simps test_valid_config_def load_config_def shipped_file shipped_settings_def settings_run)

lemma passes_load_config_missing_file_returns_invalid_configuration: "passes (test_load_config_missing_file_returns_invalid_configuration e)"
  using missing_file by (auto simp add: test_simps test_load_config_missing_file_returns_invalid_configuration_def load_config_def is_invalid_configuration_def)

lemma passes_validate_rejects_invalid_settings: "passes (test_validate_rejects_invalid_settings e)"
  by (simp add: test_simps test_validate_rejects_invalid_settings_def rejects_def settings_run decimals two_above_one)

lemma unit_tests_pass: "list_all (\<lambda>t. passes (t e)) unit_tests"
  by (simp add: unit_tests_def passes_is_ready_to_dispatch passes_is_stuck_in_mempool passes_speedup_kind_helpers
      passes_is_boost passes_last_output passes_verify_single_dispatch_result
      passes_find_tx_in_batch passes_verify_tx_id passes_can_transition_to
      passes_compute_fee_for_tx passes_compute_fee passes_get_network_fee_rate_below_max
      passes_get_network_fee_rate_honors_min_safe_floor passes_get_network_fee_rate_clamps_above_max passes_chain_fee_diff
      passes_compute_speedup_fee_basic_cpfp passes_compute_speedup_fee_rbf_bandwidth_floor passes_compute_speedup_fee_bump_and_chain_diff
      passes_compute_speedup_fee_caps_at_max passes_boost_fee_rate_floor passes_valid_tx_passes_partition
      passes_overweight_tx_is_fatal passes_mixed_txs_partitioned_correctly passes_batch_by_weight_limits_and_splits
      passes_parents_ready_empty_inputs_is_ready passes_tracked_parent_defers_child_external_passes passes_valid_config
      passes_load_config_missing_file_returns_invalid_configuration passes_validate_rejects_invalid_settings)

end

end
