(* ===== verification/Conformance.thy ===== *)
theory Conformance
  imports Storage_Tests Funding_Tests Unit_Tests
begin

text \<open>
  The unit tests of the repository as one suite: 26 of the storage, 6 of the funding manager, 9 of the helpers, 11 of
  the fees, 6 of the dispatcher and 3 of the settings.
\<close>

definition test_suite :: "(test_env \<Rightarrow> unit store_prog) list" where
  "test_suite = storage_tests @ funding_tests @ unit_tests"

text \<open>
  C40. The model passes every unit test of the repository: each test, translated assertion by assertion, returns
  without a panic from the empty storage, whatever the ids it draws, the order in which the
  backend scans, the public key, and what a new node answers, as long as ids do not collide, built
  transactions keep their inputs and outputs, and the node has seen no transaction.
\<close>

theorem unit_tests_of_repository_pass:
  assumes "test_environment e" and "test \<in> set test_suite"
  shows "fst (test e empty_store) = Inr ()"
  using test_environment.storage_tests_pass [OF assms(1)] test_environment.funding_tests_pass [OF assms(1)]
    test_environment.unit_tests_pass [OF assms(1)] assms(2)
  by (auto simp: test_suite_def list_all_iff passes_def)

theorem unit_tests_of_repository_pass_witness:
  "fst (test_cpfp_chain_multi_round plain_env empty_store) = Inr ()
   \<and> fst (test_replace_funding_on_finalize_lifecycle plain_env empty_store) = Inr ()"
  using unit_tests_of_repository_pass [OF plain.test_environment_axioms, of test_cpfp_chain_multi_round]
    unit_tests_of_repository_pass [OF plain.test_environment_axioms, of test_replace_funding_on_finalize_lifecycle]
  by (simp add: test_suite_def storage_tests_def funding_tests_def)

end
