(* ===== verification/Spec2Isabelle.thy ===== *)
theory Spec2Isabelle
  imports Store_Keys Broadcast_Facts Speedup_Facts Coordinator_Facts Build_Errors Funding_Refinement Progress
    Settled_Records Interrupted Registration Reservations Conformance
begin

text \<open>
  rust-bitvmx-bitcoin: a coordinator of Bitcoin transactions. It stores the transactions a client hands over,
  broadcasts them when they are due, follows each of them through the mempool and the chain, and pays
  for slow ones with transactions of its own, the speedups (CPFP and RBF). All progress is made in
  \<open>tick\<close>; the client registers and cancels transactions, adds funding, and reads and acknowledges news.

  \<^bold>\<open>Parts\<close>, in the order in which they are built on each other (theory, file under \<open>src/\<close>):
  \<^item> \<open>Prelude\<close>: results (\<open>failure + 'a\<close>), programs (functions from a state to a result and a state,
    with \<open>pbind\<close> for the \<open>?\<close> of the code), saturating words, lists without repetition, and
    \<open>step_relation\<close>, a locale of relations that programs keep. \<open>F64\<close>: binary64 numbers with their rounding.
  \<^item> \<open>Coordinator_Types\<close> (\<open>types.rs\<close>, \<open>errors.rs\<close>): records and datatypes with the fields and
    constructors of the code, and what the code observes of the types of other crates.
  \<^item> \<open>Settings\<close> (\<open>config/settings.rs\<close>, \<open>config/configs.rs\<close>): constants, defaults, validation, \<open>load_config\<close>.
  \<^item> \<open>Helpers\<close> (\<open>helper.rs\<close>): methods of the types, among them the lifecycle \<open>can_transition_to\<close>.
  \<^item> \<open>Store_Keys\<close>, \<open>Store\<close>, \<open>Store_Funding\<close> (\<open>core/storage.rs\<close>): the storage. The record \<open>store\<close> has
    the transactions by id, the list of speedups, the parents that wait for a CPFP, the funding queue and the news; a method
    of \<open>CoordinatorStorage\<close> is a function of it. The traits \<open>FundingStorage\<close> and \<open>DispatcherStorage\<close> are
    records of methods. \<open>Backend_Storage\<close> has the same methods one level down, as the reads and writes they make on
    a key-value backend that may fail at each of them.
  \<^item> \<open>Fee\<close> (\<open>core/fee.rs\<close>), \<open>Funding\<close> (\<open>core/funding.rs\<close>), \<open>Dispatcher\<close> (\<open>core/dispatcher.rs\<close>): the three
    services inside; the last two work on any storage with the methods of their trait.
  \<^item> \<open>Engine\<close> (\<open>engines/common.rs\<close>): the shared context. Its state is a \<open>world\<close>: the store, the time of
    the last retry and the outside. \<open>Tx_Engine\<close> (\<open>engines/transaction_engine.rs\<close>) and
    \<open>Speedup_Engine\<close> (\<open>engines/speedup_engine.rs\<close>) review, dispatch and build; \<open>Coordinator\<close>
    (\<open>coordinator.rs\<close>) is the tick and the calls of the client.

  \<^bold>\<open>The outside.\<close> The node, the monitor, the clock, the transaction builder with its key manager and the reader of
  configuration files are other crates: they are the fields of \<open>services\<close> (and the argument of
  \<open>load_config\<close>), programs on a state \<open>'e\<close> about which nothing is assumed, so every answer and every
  error at any time is covered. The theorems that need an answer say so: \<open>answers\<close> and \<open>takes\<close> in \<open>Delivery\<close>,
  \<open>up\<close>, \<open>calm\<close> and \<open>reports\<close> in \<open>Tick_Phases\<close>, \<open>cancels\<close> in \<open>Speedup_Facts\<close>, \<open>builds_in\<close> in
  \<open>Record_Invariants\<close>. The order of a scan of the backend is a parameter with \<open>scan_spec\<close>: it lists each stored
  transaction once.

  \<^bold>\<open>Numbers and failures.\<close> Unsigned integers are words of their width and wrap around as a release build does,
  \<open>f64\<close> is binary64, a panic is the failure \<open>Panic\<close>, an error the failure \<open>Err\<close>, and a loop
  that does not end the failure \<open>NoReturn\<close>. A \<open>?\<close> ends the operation and keeps what was stored before.

  \<^bold>\<open>What is shown.\<close>
  \<^item> Failures: \<open>Engine_Cascade\<close> (a failed dispatch fails exactly what depends on it, C1) and
    \<open>Engine_Facts\<close> (who may fail inside the reorg guard, what a failure releases, and the spacing of retries over a sequence
    of calls).
  \<^item> The store: \<open>Store_Facts\<close> and \<open>Store_Records\<close> (lifecycle under its operations, eviction, waiting parents, news).
  \<^item> The backend: \<open>Backend_Logic\<close> (the laws of a backend as the locale \<open>key_value_storage\<close>, and the judgement
    \<open>performs\<close>: these writes, or the first of them and a storage error), \<open>Backend_Refinement\<close> (the writes of every method),
    \<open>Backend_Calls\<close> and \<open>Storage_Failures\<close> (every history of calls on a backend is one of the store, in which the
    backend may break calls off), \<open>Broken_Calls\<close> (what a broken call leaves: nothing or all, repeatable, and always
    within the lifecycle), \<open>Interrupted\<close> (the finalization of a speedup, where an interruption does harm) and \<open>Registration\<close>
    (\<open>register_tx\<close> written over the backend as \<open>kv_register_tx\<close>: stored as a whole, not at all, or without the entry for its CPFP).
  \<^item> Funding: \<open>Funding_Facts\<close> (the contract of the queue as the locale \<open>funding_store\<close>,
    the change of a finalized speedup), \<open>Reservations\<close> (a reserved output is not handed out again by any later calls of the
    engines and the client before it is released or queued again; \<open>funding_event\<close>, \<open>spared\<close>, the invariant \<open>withheld\<close>) and \<open>Funding_Refinement\<close> (the stored queue refines a list of records, by the
    locale \<open>funding_queue\<close>, which extends the contract).
  \<^item> Sending: \<open>Dispatcher_Facts\<close> (batches, checks, reports), \<open>Broadcast_Facts\<close> (what a whole tick can send, and that
    no client call sends), \<open>Delivery\<close> (what is due and accepted by the node arrives with one run of
    \<open>dispatch_pending\<close>), \<open>Tick_Phases\<close> (what the other phases of a tick leave alone: \<open>at_rest x r\<close>, the record of
    \<open>x\<close> is \<open>r\<close> and no other record has become known or failed) and \<open>Progress\<close> (it arrives with one tick, and from the
    call of the client on; what is in flight takes the state that the monitor reports).
  \<^item> Fees and speedups: \<open>Fee\<close> (bounds of the fee), \<open>Build_Facts\<close> and \<open>Build_Errors\<close> (a built speedup is paid for, and
    each way a build ends without one), \<open>Speedup_Facts\<close> (at most one waits; the chain of replaced speedups).
  \<^item> The system: \<open>Program_Logic\<close> (\<open>runs I m P\<close>: \<open>m\<close> keeps \<open>I\<close>, does not panic and what it returns is in \<open>P\<close>;
    \<open>yields I m P\<close>: it also returns),
    \<open>Record_Invariants\<close> (the invariant \<open>store_ok X\<close>, kept by every operation for every property \<open>X\<close> of records that
    survives the changes the code makes: the locales \<open>record_property\<close> and \<open>open_property\<close>, the latter with what is
    known of the transactions a builder may make, \<open>makes\<close>), and five uses of it: \<open>Reachable\<close> (all reachable states, no panic), \<open>Settled_Records\<close> (what is settled
    stays so, unless the builder makes the same speedup again), \<open>Broadcast_Facts\<close>, \<open>Progress\<close>, and the contexts of
    speedups in \<open>Coordinator_Facts\<close>, which has the calls of the client on each of their branches, among them what the client
    does not hear of.

  \<^bold>\<open>The tests of the code.\<close> \<open>Storage_Tests\<close>, \<open>Funding_Tests\<close> and \<open>Unit_Tests\<close> translate every \<open>#[test]\<close> function of
  \<open>src/\<close> into a program over the model that panics where an assertion fails, with the fixtures of \<open>test_utils/mod.rs\<close> in
  \<open>Test_Support\<close>; \<open>Conformance\<close> shows that the model passes all of them. What a test takes from other crates (hash, random
  bytes, transactions, node, configuration file) is the record \<open>test_env\<close>, with what the tests rely on as the locale
  \<open>test_environment\<close>.

  \<^bold>\<open>Loops and fuel.\<close> The recursion of \<open>fail_and_cascade\<close> has as fuel one more than the listed speedups; C1 shows it
  returns for every store. The loop along replaced speedups has one more than the stored records, enough for
  every chain without a cycle (\<open>remove_replaced_terminates\<close>); on a cycle the code runs on, and the model gives
  \<open>NoReturn\<close>. \<open>build_loop\<close> is total: the number of inputs, then the growing size, is its measure. All other
  loops run over lists.

  \<^bold>\<open>Not modelled\<close>: the engines and the coordinator over a failing backend, except for \<open>register_tx\<close> (they work on the store, which
  the storage refines as long as the backend works), the encoding of stored values (a parameter with its inverse), log messages and the text of
  errors beyond their fixed part, the module declarations, and of \<open>test_utils\<close> the regtest node, the temporary
  directories and the key manager. The integration tests under \<open>tests/\<close> need such a node.
\<close>

end
